(* ===== verification/Prelude.thy ===== *)
theory Prelude
  imports Main "HOL-Library.AList" "HOL-Library.Sublist"
begin

text \<open>
  Shared vocabulary of the development: the Python exceptions the program raises or catches,
  results as sums, the string operations of the Python standard library that the program uses,
  insertion-ordered dictionaries (association lists with \<open>AList.update\<close> and
  \<open>AList.delete\<close>), and the interfaces every component is checked against: a step system
  whose invariant is kept by every step, its refinements, and a keyed store.

  Strings are lists of characters with codes below 256; the program's text operations that
  matter here (schemes, paths, header names) are ASCII.
\<close>

section \<open>Exceptions and results\<close>

text \<open>The exception classes that the modelled code raises, catches or lets through.\<close>

datatype exn =
    KeyError
  | ValueError
  | TypeError
  | AttributeError
  | AssertionError
  | RuntimeError
  | InvalidStateError
  | FileNotFoundError
  | StrictCheckingError
  | PathNotAllowedError
  | UnreadableResourceError
  | FactoryNotFoundError
  | NoRegisteredFactoryError
  | EntryPointNotFoundError
  | RequestTimeoutError
  | RequestGatewayError
  | RequestProxyError string
  | HTTPError int "string option"
  | OtherError string

text \<open>A result is either an exception or a value; \<open>rbind\<close> is sequencing.\<close>

type_synonym 'a result = "exn + 'a"

fun rbind :: "'a result \<Rightarrow> ('a \<Rightarrow> 'b result) \<Rightarrow> 'b result" where
  "rbind (Inl e) f = Inl e"
| "rbind (Inr x) f = f x"

fun is_ok :: "'a result \<Rightarrow> bool" where
  "is_ok (Inl e) = False"
| "is_ok (Inr x) = True"

lemma rbind_eq_Inr [simp]: "rbind r f = Inr y \<longleftrightarrow> (\<exists>x. r = Inr x \<and> f x = Inr y)"
  by (cases r) auto

lemma rbind_eq_Inl: "rbind r f = Inl e \<longleftrightarrow> r = Inl e \<or> (\<exists>x. r = Inr x \<and> f x = Inl e)"
  by (cases r) auto

lemma is_ok_iff: "is_ok r \<longleftrightarrow> (\<exists>x. r = Inr x)"
  by (cases r) auto

section \<open>Strings\<close>

text \<open>\<open>str.startswith\<close>, and removal of leading and trailing characters.\<close>

definition starts_with :: "string \<Rightarrow> string \<Rightarrow> bool" where
  "starts_with p s \<longleftrightarrow> take (length p) s = p"

definition lstrip_chars :: "char list \<Rightarrow> string \<Rightarrow> string" where
  "lstrip_chars cs s = dropWhile (\<lambda>c. c \<in> set cs) s"

definition rstrip_chars :: "char list \<Rightarrow> string \<Rightarrow> string" where
  "rstrip_chars cs s = rev (dropWhile (\<lambda>c. c \<in> set cs) (rev s))"

definition strip_chars :: "char list \<Rightarrow> string \<Rightarrow> string" where
  "strip_chars cs s = lstrip_chars cs (rstrip_chars cs s)"

text \<open>The white space that a \<open>str.strip()\<close> without argument removes (ASCII part).\<close>

definition py_space :: "char list" where
  "py_space = map char_of [9::nat, 10, 11, 12, 13, 28, 29, 30, 31, 32]"

definition py_strip :: "string \<Rightarrow> string" where
  "py_strip s = strip_chars py_space s"

text \<open>Case conversion on ASCII letters.\<close>

definition upper_char :: "char \<Rightarrow> char" where
  "upper_char c = (let n = (of_char c :: nat) in if 97 \<le> n \<and> n \<le> 122 then char_of (n - 32) else c)"

definition lower_char :: "char \<Rightarrow> char" where
  "lower_char c = (let n = (of_char c :: nat) in if 65 \<le> n \<and> n \<le> 90 then char_of (n + 32) else c)"

definition py_upper :: "string \<Rightarrow> string" where
  "py_upper = map upper_char"

definition py_lower :: "string \<Rightarrow> string" where
  "py_lower = map lower_char"

text \<open>\<open>str.split(c)\<close> on one character; the result is never empty.\<close>

fun split_on :: "char \<Rightarrow> string \<Rightarrow> string list" where
  "split_on c [] = [[]]"
| "split_on c (x # xs) =
     (if x = c then [] # split_on c xs
      else (case split_on c xs of [] \<Rightarrow> [[x]] | w # ws \<Rightarrow> (x # w) # ws))"

text \<open>\<open>str.join\<close> with a one-character separator.\<close>

fun join_with :: "char \<Rightarrow> string list \<Rightarrow> string" where
  "join_with c [] = []"
| "join_with c [w] = w"
| "join_with c (w # ws) = w @ c # join_with c ws"

text \<open>
  \<open>before c s\<close> and \<open>after c s\<close>: the text before and after the first occurrence of
  \<open>c\<close>, as \<open>str.partition\<close> and \<open>str.split(c, 1)\<close> give it.
\<close>

definition before :: "char \<Rightarrow> string \<Rightarrow> string" where
  "before c s = takeWhile (\<lambda>x. x \<noteq> c) s"

definition after :: "char \<Rightarrow> string \<Rightarrow> string" where
  "after c s = drop 1 (dropWhile (\<lambda>x. x \<noteq> c) s)"

text \<open>Substring test (the \<open>in\<close> operator on strings) and \<open>str.replace\<close> on characters.\<close>

fun occurs_in :: "string \<Rightarrow> string \<Rightarrow> bool" where
  "occurs_in p [] = (p = [])"
| "occurs_in p (x # xs) = (starts_with p (x # xs) \<or> occurs_in p xs)"

definition replace_char :: "char \<Rightarrow> char \<Rightarrow> string \<Rightarrow> string" where
  "replace_char a b s = map (\<lambda>x. if x = a then b else x) s"

lemma starts_with_iff: "starts_with p s \<longleftrightarrow> (\<exists>t. s = p @ t)"
  by (auto simp: starts_with_def intro: exI [of _ "drop (length p) s"])
    (metis append_take_drop_id)

lemma starts_with_append [simp]: "starts_with p (p @ s)"
  by (auto simp: starts_with_iff)

lemma starts_with_Nil [simp]: "starts_with [] s"
  by (simp add: starts_with_def)

lemma split_on_nonempty [simp]: "split_on c s \<noteq> []"
  by (cases s) (auto split: list.splits)

lemma split_on_cases:
  obtains w ws where "split_on c s = w # ws"
  by (cases "split_on c s") auto

lemma join_with_Cons: "ws \<noteq> [] \<Longrightarrow> join_with c (w # ws) = w @ c # join_with c ws"
  by (cases ws) auto

lemma join_with_Cons_char: "join_with c ((x # v) # vs) = x # join_with c (v # vs)"
  by (cases vs) auto

text \<open>Joining what was split gives the string back, and the pieces hold no separator.\<close>

lemma join_split: "join_with c (split_on c s) = s"
proof (induction s)
  case Nil
  then show ?case by simp
next
  case (Cons x xs)
  obtain w ws where w: "split_on c xs = w # ws" by (rule split_on_cases)
  with Cons show ?case
    by (auto simp: join_with_Cons join_with_Cons_char)
qed

lemma split_on_no_sep: "w \<in> set (split_on c s) \<Longrightarrow> c \<notin> set w"
  by (induction s arbitrary: w) (auto split: list.splits if_splits)

lemma split_on_single: "c \<notin> set w \<Longrightarrow> split_on c w = [w]"
  by (induction w) auto

lemma split_on_append_sep: "c \<notin> set w \<Longrightarrow> split_on c (w @ c # s) = w # split_on c s"
  by (induction w) auto

text \<open>Splitting what was joined gives the pieces back when they hold no separator.\<close>

lemma split_join:
  "ws \<noteq> [] \<Longrightarrow> \<forall>w \<in> set ws. c \<notin> set w \<Longrightarrow> split_on c (join_with c ws) = ws"
proof (induction ws rule: induct_list012)
  case 1
  then show ?case by simp
next
  case (2 w)
  then show ?case by (simp add: split_on_single)
next
  case (3 w v vs)
  then show ?case by (simp add: split_on_append_sep)
qed

lemma set_join_with: "set (join_with c ws) \<subseteq> insert c (\<Union>(set ` set ws))"
  by (induction ws rule: induct_list012) auto

lemma before_no_sep: "c \<notin> set (before c s)"
  by (auto simp: before_def dest: set_takeWhileD)

lemma set_before: "set (before c s) \<subseteq> set s"
  by (auto simp: before_def dest: set_takeWhileD)

lemma before_append_sep: "c \<notin> set u \<Longrightarrow> before c (u @ c # v) = u"
  by (simp add: before_def takeWhile_append)

lemma after_append_sep: "c \<notin> set u \<Longrightarrow> after c (u @ c # v) = v"
  by (simp add: after_def dropWhile_append)

lemma before_absent: "c \<notin> set u \<Longrightarrow> before c u = u"
  by (auto simp: before_def takeWhile_eq_all_conv)

lemma after_absent: "c \<notin> set u \<Longrightarrow> after c u = []"
  by (induction u) (auto simp: after_def)

lemma before_after: "c \<in> set s \<Longrightarrow> s = before c s @ c # after c s"
  by (induction s) (auto simp: before_def after_def)

section \<open>Dictionaries that keep insertion order\<close>

text \<open>
  A Python \<open>dict\<close> or \<open>OrderedDict\<close>: assigning an existing key keeps its place,
  a new key goes to the end. \<open>od_pop\<close> is \<open>d.pop(k, None)\<close>.
\<close>

type_synonym ('k, 'v) odict = "('k \<times> 'v) list"

abbreviation od_get :: "('k, 'v) odict \<Rightarrow> 'k \<Rightarrow> 'v option" where
  "od_get d k \<equiv> map_of d k"

abbreviation od_set :: "'k \<Rightarrow> 'v \<Rightarrow> ('k, 'v) odict \<Rightarrow> ('k, 'v) odict" where
  "od_set k v d \<equiv> AList.update k v d"

abbreviation od_del :: "'k \<Rightarrow> ('k, 'v) odict \<Rightarrow> ('k, 'v) odict" where
  "od_del k d \<equiv> AList.delete k d"

definition od_keys :: "('k, 'v) odict \<Rightarrow> 'k list" where
  "od_keys d = map fst d"

definition od_has :: "'k \<Rightarrow> ('k, 'v) odict \<Rightarrow> bool" where
  "od_has k d = (od_get d k \<noteq> None)"

definition od_update :: "('k, 'v) odict \<Rightarrow> ('k, 'v) odict \<Rightarrow> ('k, 'v) odict" where
  "od_update d e = foldl (\<lambda>acc (k, v). od_set k v acc) d e"

definition od_wf :: "('k, 'v) odict \<Rightarrow> bool" where
  "od_wf d = distinct (od_keys d)"

lemma od_get_set [simp]: "od_get (od_set k v d) j = (if j = k then Some v else od_get d j)"
  by (simp add: update_conv')

lemma od_get_del [simp]: "od_get (od_del k d) j = (if j = k then None else od_get d j)"
  by (simp add: delete_conv')

lemma od_wf_set [simp]: "od_wf d \<Longrightarrow> od_wf (od_set k v d)"
  by (simp add: od_wf_def od_keys_def distinct_update)

lemma od_wf_del [simp]: "od_wf d \<Longrightarrow> od_wf (od_del k d)"
  by (simp add: od_wf_def od_keys_def distinct_delete)

lemma od_wf_Nil [simp]: "od_wf []"
  by (simp add: od_wf_def od_keys_def)

lemma od_has_iff: "od_has k d \<longleftrightarrow> k \<in> set (od_keys d)"
  by (auto simp: od_has_def od_keys_def map_of_eq_None_iff)

lemma od_keys_set_old: "k \<in> set (od_keys d) \<Longrightarrow> od_keys (od_set k v d) = od_keys d"
  by (induction d) (auto simp: od_keys_def)

lemma od_keys_set_new: "k \<notin> set (od_keys d) \<Longrightarrow> od_set k v d = d @ [(k, v)]"
  by (induction d) (auto simp: od_keys_def)

lemma set_od_keys_set [simp]: "set (od_keys (od_set k v d)) = insert k (set (od_keys d))"
  by (simp add: od_keys_def dom_update)

lemma set_od_keys_del [simp]: "set (od_keys (od_del k d)) = set (od_keys d) - {k}"
  by (simp add: od_keys_def delete_keys)

lemma in_set_od_set: "x \<in> set (od_set k v d) \<Longrightarrow> x = (k, v) \<or> x \<in> set d"
  by (induction d) (auto split: if_splits)

lemma od_get_update_absent:
  "od_get e k = None \<Longrightarrow> od_get (od_update d e) k = od_get d k"
  by (induction e arbitrary: d) (auto simp: od_update_def split: if_splits)

lemma od_get_od_update:
  "od_get (od_update d e) k = (case od_get (rev e) k of Some v \<Rightarrow> Some v | None \<Rightarrow> od_get d k)"
proof (induction e arbitrary: d)
  case (Cons kv e)
  obtain j v where "kv = (j, v)" by (cases kv)
  then have "od_update d (kv # e) = od_update (od_set j v d) e" by (simp add: od_update_def)
  with Cons \<open>kv = (j, v)\<close> show ?case by (auto simp: map_add_def split: option.splits)
qed (simp add: od_update_def)

lemma map_of_rev: "od_wf d \<Longrightarrow> map_of (rev d) = map_of d"
proof (induction d)
  case (Cons kv d)
  obtain a b where kv: "kv = (a, b)" by (cases kv)
  with Cons.prems have "map_of d a = None" and "od_wf d"
    by (auto simp: od_wf_def od_keys_def map_of_eq_None_iff)
  with Cons.IH kv show ?case
    by (auto simp: map_add_def fun_eq_iff split: option.splits)
qed simp

lemma od_get_od_update_wf:
  "od_wf e \<Longrightarrow> od_get (od_update d e) k = (case od_get e k of None \<Rightarrow> od_get d k | Some v \<Rightarrow> Some v)"
  by (simp add: od_get_od_update map_of_rev split: option.split)

lemma od_wf_update: "od_wf d \<Longrightarrow> od_wf (od_update d e)"
  unfolding od_update_def by (induction e arbitrary: d) auto

section \<open>Interfaces\<close>

text \<open>
  A step system: a state, a step function on events, and an invariant that every step keeps.
  Runs are folds of the step function; the invariant holds after every run. Every component
  with an event loop (broker, client, supervisor, pool, observer) is an instance.
\<close>

locale step_system =
  fixes step :: "'s \<Rightarrow> 'e \<Rightarrow> 's"
    and inv :: "'s \<Rightarrow> bool"
  assumes inv_step: "inv s \<Longrightarrow> inv (step s e)"
begin

lemma inv_run: "inv s \<Longrightarrow> inv (foldl step s es)"
  by (induction es arbitrary: s) (auto intro: inv_step)

lemma inv_run_prefix: "inv s \<Longrightarrow> prefix es fs \<Longrightarrow> inv (foldl step s es)"
  by (auto simp: prefix_def intro: inv_run)

end

text \<open>
  An abstraction of the states of a step system such that every step is a step of an abstract
  relation or changes nothing of what is seen; then every run is a run of the abstract relation, and
  what the abstract steps keep is kept by the runs.
\<close>

locale step_refinement = step_system step inv
  for step :: "'s \<Rightarrow> 'e \<Rightarrow> 's" and inv :: "'s \<Rightarrow> bool" +
  fixes abs :: "'s \<Rightarrow> 'a" and astep :: "'a \<Rightarrow> 'a \<Rightarrow> bool"
  assumes simulates: "inv s \<Longrightarrow> astep (abs s) (abs (step s e)) \<or> abs (step s e) = abs s"
begin

lemma refine_run: "inv s \<Longrightarrow> astep\<^sup>*\<^sup>* (abs s) (abs (foldl step s es))"
proof (induction es arbitrary: s)
  case (Cons e es)
  from Cons.IH [OF inv_step [OF Cons.prems, of e]] simulates [OF Cons.prems, of e]
  show ?case by (auto intro: converse_rtranclp_into_rtranclp)
qed simp

lemma keeps_run:
  assumes "inv s" "P (abs s)" and "\<And>a b. astep a b \<Longrightarrow> P a \<Longrightarrow> P b"
  shows "P (abs (foldl step s es))"
proof -
  have "P b" if "astep\<^sup>*\<^sup>* a b" "P a" for a b
    using that by (induction rule: rtranclp_induct) (auto intro: assms(3))
  with refine_run [OF assms(1)] assms(2) show ?thesis by blast
qed

end

text \<open>The case of an abstract step function on the same events: the abstraction commutes with runs.\<close>

locale functional_refinement = step_system step inv
  for step :: "'s \<Rightarrow> 'e \<Rightarrow> 's" and inv :: "'s \<Rightarrow> bool" +
  fixes abs :: "'s \<Rightarrow> 'a" and afun :: "'a \<Rightarrow> 'e \<Rightarrow> 'a"
  assumes commutes: "inv s \<Longrightarrow> abs (step s e) = afun (abs s) e"
begin

lemma abs_run: "inv s \<Longrightarrow> abs (foldl step s es) = foldl afun (abs s) es"
  by (induction es arbitrary: s) (simp_all add: commutes inv_step)

end

sublocale functional_refinement \<subseteq> step_refinement step inv abs "\<lambda>a b. \<exists>e. b = afun a e"
  by unfold_locales (auto simp: commutes)

text \<open>
  A keyed store: a lookup and an insertion that may evict other entries but never changes or
  invents one. What is found after a batch of insertions was inserted by it or was there before.
\<close>

locale keyed_store =
  fixes get :: "'s \<Rightarrow> 'k \<Rightarrow> 'v option"
    and put :: "'k \<Rightarrow> 'v \<Rightarrow> 's \<Rightarrow> 's"
    and wf :: "'s \<Rightarrow> bool"
  assumes wf_put: "wf s \<Longrightarrow> wf (put k v s)"
    and get_put_same: "wf s \<Longrightarrow> get (put k v s) k = Some v"
    and get_put_other: "wf s \<Longrightarrow> j \<noteq> k \<Longrightarrow> get (put k v s) j = Some w \<Longrightarrow> get s j = Some w"
begin

definition put_all :: "('k \<times> 'v) list \<Rightarrow> 's \<Rightarrow> 's" where
  "put_all kvs s = foldl (\<lambda>acc (k, v). put k v acc) s kvs"

lemma put_all_simps [simp]:
  "put_all [] s = s"
  "put_all ((k, v) # kvs) s = put_all kvs (put k v s)"
  by (simp_all add: put_all_def)

lemma wf_put_all: "wf s \<Longrightarrow> wf (put_all kvs s)"
  by (induction kvs arbitrary: s) (auto simp: wf_put)

lemma get_put_cases:
  "wf s \<Longrightarrow> get (put k v s) j = Some w \<Longrightarrow> (j = k \<and> w = v) \<or> get s j = Some w"
  by (cases "j = k") (auto simp: get_put_same dest: get_put_other)

lemma put_all_provenance:
  "wf s \<Longrightarrow> get (put_all kvs s) j = Some w \<Longrightarrow> (j, w) \<in> set kvs \<or> get s j = Some w"
proof (induction kvs arbitrary: s)
  case Nil
  then show ?case by simp
next
  case (Cons kv kvs)
  obtain k v where kv: "kv = (k, v)" by (cases kv)
  from Cons.prems kv have "(j, w) \<in> set kvs \<or> get (put k v s) j = Some w"
    using Cons.IH [of "put k v s"] wf_put by simp
  with Cons.prems(1) kv show ?case by (auto dest: get_put_cases)
qed

text \<open>A property of all stored values is kept by an insertion that satisfies it.\<close>

lemma put_keeps_all:
  assumes "wf s" and "\<And>j w. get s j = Some w \<Longrightarrow> P j w" and "P k v"
  shows "get (put k v s) j = Some w \<Longrightarrow> P j w"
  using get_put_cases [OF assms(1)] assms(2,3) by blast

end

text \<open>A store that never evicts.\<close>

locale exact_store = keyed_store +
  assumes get_put_neq: "wf s \<Longrightarrow> j \<noteq> k \<Longrightarrow> get (put k v s) j = get s j"
begin

lemma get_put_iff: "wf s \<Longrightarrow> get (put k v s) j = (if j = k then Some v else get s j)"
  by (simp add: get_put_same get_put_neq)

end

text \<open>Python dictionaries are exact stores.\<close>

interpretation od: exact_store "\<lambda>d k. od_get d k" od_set od_wf
  by unfold_locales auto

end
