(* ===== verification/Supervisor.thy ===== *)
theory Supervisor
  imports Prelude
begin

text \<open>
  \<open>src/pyqgisserver/zeromq/supervisor.py\<close>: the worker side (\<open>Client\<close>), which
  notifies BUSY and DONE on a socket that never blocks and may drop a message, and the server
  side (\<open>Supervisor\<close>), which arms a timer on BUSY, cancels it on DONE and kills the
  process when the timer fires. Times are integers in a fixed unit. Timers live in the event
  loop, not in the supervisor: overwriting the entry of a pid does not cancel its old timer.
\<close>

section \<open>Worker side\<close>

datatype 'd sup_msg = BUSY | DONE | Report 'd

record sup_client =
  enabled :: bool
  cl_pid :: int
  cl_busy :: bool

text \<open>
  \<open>_send\<close>: nothing when supervision is disabled; otherwise the message leaves unless the
  socket refuses it (\<open>ok = False\<close>, a \<open>ZMQError\<close> that is swallowed).
\<close>

definition sup_send :: "bool \<Rightarrow> 'd sup_msg \<Rightarrow> sup_client \<Rightarrow> (int \<times> 'd sup_msg) list" where
  "sup_send ok m c = (if \<not> enabled c then [] else if ok then [(cl_pid c, m)] else [])"

definition notify_done :: "bool \<Rightarrow> sup_client \<Rightarrow> sup_client \<times> (int \<times> 'd sup_msg) list" where
  "notify_done ok c = (if cl_busy c then (let c' = c\<lparr>cl_busy := False\<rparr> in (c', sup_send ok DONE c')) else (c, []))"

definition notify_busy :: "bool \<Rightarrow> sup_client \<Rightarrow> sup_client \<times> (int \<times> 'd sup_msg) list" where
  "notify_busy ok c = (if \<not> cl_busy c then (let c' = c\<lparr>cl_busy := True\<rparr> in (c', sup_send ok BUSY c')) else (c, []))"

definition send_report :: "bool \<Rightarrow> 'd \<Rightarrow> sup_client \<Rightarrow> (int \<times> 'd sup_msg) list" where
  "send_report ok d c = sup_send ok (Report d) c"

section \<open>Server side\<close>

text \<open>A timer armed by \<open>loop.call_later\<close>: identity, deadline and the pid it will kill.\<close>

record timer =
  tid :: nat
  deadline :: int
  tpid :: int

record 'd supervisor =
  timeout_s :: int
  busy :: "(int, nat) odict"
  timers :: "timer list"
  next_tid :: nat
  stopped :: bool
  reports :: "(int, 'd) odict"
  kills :: "(int \<times> int) list"

definition supervisor_init :: "int \<Rightarrow> 'd supervisor" where
  "supervisor_init tmo = \<lparr>timeout_s = tmo, busy = [], timers = [], next_tid = 0, stopped = False,
     reports = [], kills = []\<rparr>"

definition cancel_timer :: "nat \<Rightarrow> 'd supervisor \<Rightarrow> 'd supervisor" where
  "cancel_timer i s = s\<lparr>timers := filter (\<lambda>t. tid t \<noteq> i) (timers s)\<rparr>"

text \<open>A message received at time \<open>now\<close> (lines 136--145).\<close>

fun handle_sup_msg :: "int \<Rightarrow> int \<Rightarrow> 'd sup_msg \<Rightarrow> 'd supervisor \<Rightarrow> 'd supervisor" where
  "handle_sup_msg now pid BUSY s =
     s\<lparr>timers := timers s @ [\<lparr>tid = next_tid s, deadline = now + timeout_s s, tpid = pid\<rparr>],
       busy := od_set pid (next_tid s) (busy s), next_tid := Suc (next_tid s)\<rparr>"
| "handle_sup_msg now pid DONE s =
     (case od_get (busy s) pid of
        None \<Rightarrow> s
      | Some i \<Rightarrow> cancel_timer i (s\<lparr>busy := od_del pid (busy s)\<rparr>))"
| "handle_sup_msg now pid (Report d) s = s\<lparr>reports := od_set pid d (reports s)\<rparr>"

text \<open>
  The timer callback \<open>kill\<close> (lines 123--130): it deletes the pid's entry, whatever timer
  the entry names, and raises \<open>KeyError\<close> when there is none. A process that is already gone
  (\<open>alive = False\<close>) is ignored.
\<close>

definition kill_pid :: "bool \<Rightarrow> int \<Rightarrow> int \<Rightarrow> 'd supervisor \<Rightarrow> 'd supervisor result" where
  "kill_pid alive now pid s = (if od_has pid (busy s)
     then Inr (s\<lparr>busy := od_del pid (busy s), kills := (if alive then kills s @ [(pid, now)] else kills s)\<rparr>)
     else Inl KeyError)"

definition num_reports :: "'d supervisor \<Rightarrow> nat" where
  "num_reports s = length (reports s)"

definition report_list :: "'d supervisor \<Rightarrow> 'd list" where
  "report_list s = map snd (reports s)"

definition clear_reports :: "'d supervisor \<Rightarrow> 'd supervisor" where
  "clear_reports s = s\<lparr>reports := []\<rparr>"

text \<open>\<open>stop\<close> (lines 165--174): cancels the timers the table still names.\<close>

definition sup_stop :: "'d supervisor \<Rightarrow> 'd supervisor" where
  "sup_stop s = (foldl (\<lambda>acc i. cancel_timer i acc) (s\<lparr>stopped := True\<rparr>) (map snd (busy s)))\<lparr>busy := []\<rparr>"

text \<open>
  Events of the loop: a message, or the firing of a timer whose deadline has passed. A fired
  timer leaves the loop; an exception in its callback is logged by the loop and changes nothing.
  A stopped supervisor reads no more messages, but timers of the loop still fire.
\<close>

datatype 'd sup_event = Msg int int "'d sup_msg" | Fire nat bool int

fun sup_step :: "'d supervisor \<Rightarrow> 'd sup_event \<Rightarrow> 'd supervisor" where
  "sup_step s (Msg now pid m) = (if stopped s then s else handle_sup_msg now pid m s)"
| "sup_step s (Fire i alive now) =
     (case find (\<lambda>t. tid t = i) (timers s) of
        None \<Rightarrow> s
      | Some t \<Rightarrow>
          if deadline t \<le> now then
            (let s' = cancel_timer i s in
             case kill_pid alive now (tpid t) s' of Inl e \<Rightarrow> s' | Inr s'' \<Rightarrow> s'')
          else s)"

section \<open>Kills hit only stalled workers when notifications alternate\<close>

text \<open>
  Ghost bookkeeping over the events alone: the time of the last BUSY of a pid that no DONE of
  that pid has followed.
\<close>

fun since_step :: "(int \<Rightarrow> int option) \<Rightarrow> 'd sup_event \<Rightarrow> (int \<Rightarrow> int option)" where
  "since_step f (Msg now p BUSY) = f(p := Some now)"
| "since_step f (Msg now p DONE) = f(p := None)"
| "since_step f e = f"

definition busy_since :: "'d sup_event list \<Rightarrow> int \<Rightarrow> int option" where
  "busy_since es = foldl since_step (\<lambda>_. None) es"

text \<open>Notifications alternate: a BUSY arrives only for a pid the supervisor holds as idle.\<close>

fun alternating_msg :: "'d supervisor \<Rightarrow> 'd sup_event \<Rightarrow> bool" where
  "alternating_msg s (Msg now p BUSY) = (\<not> od_has p (busy s))"
| "alternating_msg s e = True"

fun alternating :: "'d supervisor \<Rightarrow> 'd sup_event list \<Rightarrow> bool" where
  "alternating s [] = True"
| "alternating s (e # es) = (alternating_msg s e \<and> alternating (sup_step s e) es)"

definition sup_inv :: "int \<Rightarrow> (int \<Rightarrow> int option) \<Rightarrow> 'd supervisor \<Rightarrow> bool" where
  "sup_inv tmo f s \<longleftrightarrow> timeout_s s = tmo \<and> \<not> stopped s \<and> od_wf (busy s)
     \<and> distinct (map tid (timers s)) \<and> (\<forall>t \<in> set (timers s). tid t < next_tid s
        \<and> od_get (busy s) (tpid t) = Some (tid t) \<and> f (tpid t) = Some (deadline t - tmo))"

lemma sup_inv_init: "sup_inv tmo (\<lambda>_. None) (supervisor_init tmo)"
  by (simp add: sup_inv_def supervisor_init_def)

lemma sup_inv_cancel: "sup_inv tmo f s \<Longrightarrow> sup_inv tmo f (cancel_timer i s)"
  by (auto simp: sup_inv_def cancel_timer_def intro: distinct_map_filter)

lemma sup_inv_msg:
  assumes "sup_inv tmo f s" and "alternating_msg s (Msg now p m)"
  shows "sup_inv tmo (since_step f (Msg now p m)) (handle_sup_msg now p m s)"
proof (cases m)
  case BUSY
  with assms show ?thesis
    by (auto simp: sup_inv_def od_has_def dest: less_imp_neq)
next
  case DONE
  show ?thesis
  proof (cases "od_get (busy s) p")
    case None
    with assms DONE show ?thesis by (auto simp: sup_inv_def)
  next
    case (Some i)
    with assms DONE show ?thesis
      by (auto simp: sup_inv_def cancel_timer_def intro: distinct_map_filter)
  qed
next
  case (Report d)
  with assms show ?thesis by (auto simp: sup_inv_def)
qed

lemma find_timerD: "find (\<lambda>t. tid t = i) ts = Some t \<Longrightarrow> t \<in> set ts \<and> tid t = i"
  by (auto simp: find_Some_iff)

lemma sup_inv_fire:
  assumes inv: "sup_inv tmo f s"
  shows "sup_inv tmo f (sup_step s (Fire i alive now))
    \<and> (\<forall>p t. (p, t) \<in> set (kills (sup_step s (Fire i alive now))) \<longrightarrow> (p, t) \<in> set (kills s)
        \<or> (alive \<and> t = now \<and> (\<exists>t0. f p = Some t0 \<and> t0 + tmo \<le> now)))"
proof (cases "find (\<lambda>t. tid t = i) (timers s)")
  case None
  then show ?thesis using inv by simp
next
  case (Some t)
  then have t: "t \<in> set (timers s)" "tid t = i" by (auto dest: find_timerD)
  with inv have reg: "od_get (busy s) (tpid t) = Some i" "f (tpid t) = Some (deadline t - tmo)"
    by (auto simp: sup_inv_def)
  let ?s = "cancel_timer i s"
  have gone: "\<forall>u \<in> set (timers ?s). tpid u \<noteq> tpid t"
    using inv reg by (fastforce simp: cancel_timer_def sup_inv_def)
  have "sup_inv tmo f ?s" using inv by (rule sup_inv_cancel)
  with gone have "sup_inv tmo f (?s\<lparr>busy := od_del (tpid t) (busy ?s), kills := k\<rparr>)" for k
    by (auto simp: sup_inv_def)
  moreover have "od_has (tpid t) (busy ?s)" using reg by (simp add: od_has_def cancel_timer_def)
  ultimately show ?thesis
    using Some reg inv by (auto simp: kill_pid_def Let_def cancel_timer_def split: if_splits)
qed

lemma sup_inv_step:
  assumes "sup_inv tmo f s" and "alternating_msg s e"
  shows "sup_inv tmo (since_step f e) (sup_step s e)"
proof (cases e)
  case (Msg now p m)
  moreover have "\<not> stopped s" using assms(1) by (simp add: sup_inv_def)
  ultimately show ?thesis using sup_inv_msg assms by auto
next
  case (Fire i alive now)
  then show ?thesis using sup_inv_fire [OF assms(1)] by simp
qed

lemma kills_msg: "kills (handle_sup_msg now p m s) = kills s"
  by (cases m) (auto simp: cancel_timer_def split: option.splits)

text \<open>
  as long as the notifications of each worker alternate, a worker is killed only by a timer
  that fires at least the timeout after the last BUSY it sent, with no DONE since: an idle
  worker, or one whose current request is younger than the timeout, is never killed.
\<close>

theorem supervisor_kills_only_stalled:
  assumes "alternating (supervisor_init tmo) es"
    and "(p, t) \<in> set (kills (foldl sup_step (supervisor_init tmo) es))"
  shows "\<exists>pre i post t0. es = pre @ Fire i True t # post \<and> busy_since pre p = Some t0 \<and> t0 + tmo \<le> t"
proof -
  have "\<exists>pre i post t0. es = pre @ Fire i True t # post \<and> foldl since_step f pre p = Some t0 \<and> t0 + tmo \<le> t"
    if "sup_inv tmo f s" "alternating s es" "(p, t) \<in> set (kills (foldl sup_step s es))" "(p, t) \<notin> set (kills s)"
    for f and s :: "'a supervisor"
    using that
  proof (induction es arbitrary: f s)
    case (Cons e es)
    show ?case
    proof (cases "(p, t) \<in> set (kills (sup_step s e))")
      case True
      with Cons.prems(4) obtain i alive now where e: "e = Fire i alive now"
        by (cases e) (auto simp: kills_msg split: if_splits)
      with sup_inv_fire [OF Cons.prems(1), of i alive now] True Cons.prems(4)
      obtain t0 where "alive" "t = now" "f p = Some t0" "t0 + tmo \<le> now" by blast
      with e show ?thesis by (intro exI [of _ "[]"] exI [of _ i] exI [of _ es] exI [of _ t0]) simp
    next
      case False
      have "sup_inv tmo (since_step f e) (sup_step s e)"
        using Cons.prems by (intro sup_inv_step) auto
      from Cons.IH [OF this] Cons.prems False obtain pre i post t0 where
        "es = pre @ Fire i True t # post" "foldl since_step (since_step f e) pre p = Some t0" "t0 + tmo \<le> t"
        by auto
      then show ?thesis by (intro exI [of _ "e # pre"]) auto
    qed
  qed simp
  from this [OF sup_inv_init assms] show ?thesis
    by (simp add: busy_since_def supervisor_init_def)
qed

theorem supervisor_kills_only_stalled_witness:
  "\<exists>pre i post t0. [Msg 0 7 BUSY, Msg 5 7 DONE, Msg 8 7 BUSY, Fire 1 True (28::int)]
       = pre @ Fire i True 28 # (post :: unit sup_event list)
     \<and> busy_since pre 7 = Some t0 \<and> t0 + 20 \<le> (28::int)"
  by (rule supervisor_kills_only_stalled)
    (simp_all add: supervisor_init_def od_has_def cancel_timer_def kill_pid_def)

text \<open>
  the alternation matters. A worker whose DONE notification is dropped by its full socket
  sends BUSY twice in a row; the supervisor overwrites the entry and forgets the first timer
  without cancelling it, so the worker is killed when that timer fires, although its current
  request has run for less than the timeout.
\<close>

theorem lost_done_kills_early:
  assumes "0 < t1" and "t1 < tmo"
    and c0: "c0 = \<lparr>enabled = True, cl_pid = p, cl_busy = False\<rparr>"
    and 1: "notify_busy True c0 = (c1, m1)"
    and 2: "notify_done False c1 = (c2, m2)"
    and 3: "notify_busy True c2 = (c3, m3)"
  shows "m1 @ m2 @ m3 = [(p, BUSY), (p, BUSY)]
    \<and> kills (foldl sup_step (supervisor_init tmo) [Msg 0 p BUSY, Msg t1 p BUSY, Fire 0 True tmo]) = [(p, tmo)]
    \<and> busy_since [Msg 0 p BUSY, Msg t1 p BUSY] p = Some t1 \<and> tmo < t1 + tmo"
  using assms
  by (auto simp: notify_busy_def notify_done_def sup_send_def supervisor_init_def cancel_timer_def
      kill_pid_def od_has_def busy_since_def)

theorem lost_done_kills_early_witness:
  "kills (foldl sup_step (supervisor_init 20) [Msg 0 7 BUSY, Msg 15 7 (BUSY :: unit sup_msg), Fire 0 True 20]) = [(7, 20)]"
  by (rule lost_done_kills_early [THEN conjunct2, THEN conjunct1, OF _ _ refl
      surjective_pairing surjective_pairing surjective_pairing]) simp_all

text \<open>Stopping the supervisor leaves no timer behind when the notifications alternated.\<close>

lemma cancel_all_timers:
  "timers (foldl (\<lambda>acc i. cancel_timer i acc) s is) = filter (\<lambda>t. tid t \<notin> set is) (timers s)"
  by (induction "is" arbitrary: s) (auto simp: cancel_timer_def intro: filter_cong)

lemma sup_stop_clean: "sup_inv tmo f s \<Longrightarrow> timers (sup_stop s) = [] \<and> busy (sup_stop s) = []"
proof -
  assume inv: "sup_inv tmo f s"
  have "tid t \<in> set (map snd (busy s))" if "t \<in> set (timers s)" for t
    using inv that by (force simp: sup_inv_def dest: map_of_SomeD)
  then show ?thesis by (auto simp: sup_stop_def cancel_all_timers filter_empty_conv)
qed

end
