(* ===== verification/Broker.thy ===== *)
theory Broker
  imports Prelude Complex_Main "HOL-Library.Multiset"
begin

text \<open>
  \<open>src/pyqgisserver/zeromq/broker.py\<close>: the ROUTER/ROUTER load balancer, and the
  \<open>ready\<close> frame of \<open>messages.py\<close>. One iteration of the broker's loop is a
  function of the state and of what the environment supplies in that iteration: the frames each
  socket delivers, the clock, whether a send raises \<open>ZMQError\<close>, and which element
  \<open>set.pop\<close> takes. It returns the new state and the actions performed, in order.

  \<open>set.pop\<close> takes an arbitrary element: \<open>pick\<close> maps the current worker set (listed
  in insertion order) to a position. Within one iteration the set only shrinks between two pops,
  so a function of the set, chosen afresh in every iteration, covers every behaviour.
\<close>

type_synonym frame = string

definition WORKER_READY :: frame where
  "WORKER_READY = ''ready''"

section \<open>The waiting queue\<close>

text \<open>A \<open>collections.deque\<close>, listed from its left end to its right end.\<close>

definition dq_appendleft :: "'a \<Rightarrow> 'a list \<Rightarrow> 'a list" where
  "dq_appendleft x q = x # q"

definition dq_append :: "'a \<Rightarrow> 'a list \<Rightarrow> 'a list" where
  "dq_append x q = q @ [x]"

definition dq_pop :: "'a list \<Rightarrow> ('a \<times> 'a list) result" where
  "dq_pop q = (case rev q of [] \<Rightarrow> Inl (OtherError ''IndexError'') | x # r \<Rightarrow> Inr (x, rev r))"

text \<open>The contract the broker relies on: a first-in first-out queue with an undo of the last removal.\<close>

locale fifo_queue =
  fixes enq :: "'a \<Rightarrow> 'q \<Rightarrow> 'q"
    and deq :: "'q \<Rightarrow> ('a \<times> 'q) result"
    and undeq :: "'a \<Rightarrow> 'q \<Rightarrow> 'q"
    and content :: "'q \<Rightarrow> 'a list"
  assumes content_enq: "content (enq x q) = content q @ [x]"
    and content_deq: "deq q = Inr (x, r) \<Longrightarrow> content q = x # content r"
    and deq_fails: "deq q = Inl e \<Longrightarrow> content q = []"
    and content_undeq: "content (undeq x q) = x # content q"
begin

lemma deq_nonempty: "content q \<noteq> [] \<Longrightarrow> \<exists>x r. deq q = Inr (x, r)"
  by (cases "deq q") (auto dest: deq_fails)

lemma undeq_deq: "deq q = Inr (x, r) \<Longrightarrow> content (undeq x r) = content q"
  by (simp add: content_undeq content_deq)

lemma content_enq_all: "content (foldl (\<lambda>q x. enq x q) q xs) = content q @ xs"
  by (induction xs arbitrary: q) (auto simp: content_enq)

end

interpretation dq: fifo_queue dq_appendleft dq_pop dq_append rev
  by unfold_locales (auto simp: dq_appendleft_def dq_append_def dq_pop_def split: list.splits)

section \<open>State, inputs and actions\<close>

text \<open>A waiting request: arrival time (seconds), client identity, message id, payload.\<close>

type_synonym request = "rat \<times> frame \<times> frame \<times> frame"

record broker =
  workers :: "frame list"
  waiting :: "request list"

text \<open>What one iteration reads from its environment.\<close>

record poll_input =
  backend_msg :: "frame list option"
  frontend_msg :: "frame list option"
  recv_time :: rat
  now_time :: rat
  reply_ok :: bool
  busy_ok :: bool
  worker_ok :: "frame \<Rightarrow> bool"
  pick :: "frame list \<Rightarrow> nat"

datatype action =
    Ready frame
  | Reply "frame list" bool
  | Accept request
  | Busy "frame list" bool
  | Drop request
  | SendFailed frame request
  | Dispatch frame request
  | Malformed

text \<open>\<open>set.pop\<close> on a non-empty set.\<close>

definition set_pop :: "('a list \<Rightarrow> nat) \<Rightarrow> 'a list \<Rightarrow> 'a \<times> 'a list" where
  "set_pop pk ws = (let i = pk ws mod length ws in (ws ! i, take i ws @ drop (Suc i) ws))"

lemma set_pop_perm:
  assumes "ws \<noteq> []" and "set_pop pk ws = (w, ws')"
  shows "mset ws = add_mset w (mset ws')" and "length ws = Suc (length ws')"
proof -
  define i where "i = pk ws mod length ws"
  have i: "i < length ws" using assms(1) by (simp add: i_def)
  have w: "w = ws ! i" and ws': "ws' = take i ws @ drop (Suc i) ws"
    using assms(2) by (auto simp: set_pop_def Let_def i_def)
  have split: "ws = take i ws @ w # drop (Suc i) ws" using i w by (simp add: id_take_nth_drop)
  have "mset ws = mset (take i ws @ w # drop (Suc i) ws)" using split by (rule arg_cong)
  also have "\<dots> = add_mset w (mset ws')" by (simp only: ws' mset_append mset.simps) simp
  finally show "mset ws = add_mset w (mset ws')" .
  then show "length ws = Suc (length ws')" by (metis size_add_mset size_mset)
qed

section \<open>One iteration of the loop\<close>

text \<open>A message from a worker (lines 80--100).\<close>

definition handle_backend :: "frame list \<Rightarrow> bool \<Rightarrow> broker \<Rightarrow> broker \<times> action list" where
  "handle_backend frames ok b = (case frames of
       worker_id # client_id # rest \<Rightarrow>
         if client_id = WORKER_READY then
           (if worker_id \<notin> set (workers b)
            then (b\<lparr>workers := workers b @ [worker_id]\<rparr>, [Ready worker_id])
            else (b, []))
         else (case rest of
             [msgid, data] \<Rightarrow> (b, [Reply [client_id, msgid, data] ok])
           | _ \<Rightarrow> (b, [Malformed]))
     | _ \<Rightarrow> (b, [Malformed]))"

text \<open>A message from a client (lines 103--117).\<close>

definition handle_frontend :: "nat \<Rightarrow> frame list \<Rightarrow> rat \<Rightarrow> bool \<Rightarrow> broker \<Rightarrow> broker \<times> action list" where
  "handle_frontend maxqueue frames tm ok b = (case frames of
       [client_id, msgid, data] \<Rightarrow>
         if length (waiting b) \<ge> maxqueue
         then (b, [Busy [client_id, msgid, ''ERR'', ''509''] ok])
         else (b\<lparr>waiting := dq_appendleft (tm, client_id, msgid, data) (waiting b)\<rparr>,
               [Accept (tm, client_id, msgid, data)])
     | _ \<Rightarrow> (b, [Malformed]))"

text \<open>
  The inner loop (lines 129--142): pop workers until one accepts the request; when the last one
  fails the request goes back to the end it was taken from.
\<close>

function send_request ::
  "(frame list \<Rightarrow> nat) \<Rightarrow> (frame \<Rightarrow> bool) \<Rightarrow> request \<Rightarrow> frame list \<Rightarrow> request list
     \<Rightarrow> frame list \<times> request list \<times> action list" where
  "send_request pk ok e ws q =
     (if ws = [] then (ws, q, [])
      else (let (w, ws') = set_pop pk ws in
            if ok w then (ws', q, [Dispatch w e])
            else (let q' = (if ws' = [] then dq_append e q else q);
                      (ws2, q2, acts) = send_request pk ok e ws' q'
                  in (ws2, q2, SendFailed w e # acts))))"
  by pat_completeness auto
termination
  by (relation "measure (\<lambda>(pk, ok, e, ws, q). length ws)") (auto dest: set_pop_perm(2) [OF _ sym])

declare send_request.simps [simp del]

lemma send_request_Nil [simp]: "send_request pk ok e [] q = ([], q, [])"
  by (simp add: send_request.simps)

text \<open>
  What the inner loop does: it sends the request to one worker after a number of failures, or
  every worker failed, none is left, and the request is back where it was taken from.
\<close>

lemma send_request_cases:
  assumes "send_request pk ok e ws q = (ws2, q2, acts)" and "ws \<noteq> []"
  obtains (sent) w fails where "acts = map (\<lambda>f. SendFailed f e) fails @ [Dispatch w e]"
      "q2 = q" "mset ws = mset fails + add_mset w (mset ws2)" "ok w" "\<forall>f \<in> set fails. \<not> ok f"
  | (failed) fails where "acts = map (\<lambda>f. SendFailed f e) fails"
      "q2 = q @ [e]" "ws2 = []" "mset fails = mset ws" "\<forall>f \<in> set fails. \<not> ok f"
  using assms
proof (induction pk ok e ws q arbitrary: ws2 q2 acts thesis rule: send_request.induct)
  case (1 pk ok e ws q)
  obtain w ws' where p: "set_pop pk ws = (w, ws')" by (cases "set_pop pk ws")
  with \<open>ws \<noteq> []\<close> have ms: "mset ws = add_mset w (mset ws')" by (rule set_pop_perm(1))
  show ?case
  proof (cases "ok w")
    case True
    with "1.prems" p have "acts = [Dispatch w e]" "q2 = q" "ws2 = ws'"
      by (simp_all add: send_request.simps [of pk ok e ws q])
    with True ms show ?thesis by (intro "1.prems"(1) [where fails = "[]" and w = w]) auto
  next
    case False
    define q' where "q' = (if ws' = [] then dq_append e q else q)"
    obtain acts' where r: "send_request pk ok e ws' q' = (ws2, q2, acts')" "acts = SendFailed w e # acts'"
      using "1.prems"(3,4) p False
      by (auto simp: send_request.simps [of pk ok e ws q] q'_def Let_def split: prod.splits)
    show ?thesis
    proof (cases "ws' = []")
      case True
      with r ms False show ?thesis
        by (intro "1.prems"(2) [where fails = "[w]"]) (auto simp: q'_def dq_append_def)
    next
      case nonempty: False
      then have q': "q' = q" by (simp add: q'_def)
      show ?thesis
      proof (rule "1.IH" [OF \<open>ws \<noteq> []\<close> p [symmetric] refl False q'_def _ _ r(1) nonempty])
        fix v fails
        assume "acts' = map (\<lambda>f. SendFailed f e) fails @ [Dispatch v e]" "q2 = q'"
          "mset ws' = mset fails + add_mset v (mset ws2)" "ok v" "\<forall>f \<in> set fails. \<not> ok f"
        with r(2) q' ms False show ?thesis
          by (intro "1.prems"(1) [where fails = "w # fails" and w = v]) auto
      next
        fix fails
        assume "acts' = map (\<lambda>f. SendFailed f e) fails" "q2 = q' @ [e]" "ws2 = []"
          "mset fails = mset ws'" "\<forall>f \<in> set fails. \<not> ok f"
        with r(2) q' ms False show ?thesis
          by (intro "1.prems"(2) [where fails = "w # fails"]) auto
      qed
    qed
  qed
qed

text \<open>The dispatch loop (lines 123--142).\<close>

function dispatch ::
  "(frame list \<Rightarrow> nat) \<Rightarrow> (frame \<Rightarrow> bool) \<Rightarrow> rat \<Rightarrow> rat \<Rightarrow> frame list \<Rightarrow> request list
     \<Rightarrow> frame list \<times> request list \<times> action list" where
  "dispatch pk ok timeout now ws q =
     (if ws = [] then (ws, q, [])
      else (case dq_pop q of
          Inl e \<Rightarrow> (ws, q, [])
        | Inr (e, r) \<Rightarrow>
            if now - fst e > timeout then
              (let (ws2, q2, acts) = dispatch pk ok timeout now ws r in (ws2, q2, Drop e # acts))
            else
              (let (ws1, q1, acts1) = send_request pk ok e ws r;
                   (ws2, q2, acts2) = dispatch pk ok timeout now ws1 q1
               in (ws2, q2, acts1 @ acts2))))"
  by pat_completeness auto

lemma dq_pop_length: "dq_pop q = Inr (e, r) \<Longrightarrow> length q = Suc (length r)"
  using dq.content_deq [of q e r] by (metis length_Cons length_rev)

lemma send_request_length:
  "send_request pk ok e ws q = (ws2, q2, acts) \<Longrightarrow> ws \<noteq> [] \<Longrightarrow>
     length ws2 < length ws \<and> length q2 \<le> Suc (length q)"
  by (erule (1) send_request_cases) (auto dest: arg_cong [of _ _ size])

termination dispatch
proof (relation "measure (\<lambda>(pk, ok, timeout, now, ws, q). length ws + length q)", goal_cases)
  case (2 pk ok timeout now ws q y e r)
  then show ?case by (auto dest: dq_pop_length)
next
  case (3 pk ok timeout now ws q y e r z ws1 w q1 acts1)
  then have "length ws1 < length ws" "length q1 \<le> Suc (length r)" "length q = Suc (length r)"
    using send_request_length [of pk ok e ws r ws1 q1 acts1] dq_pop_length [of q e r] by auto
  then show ?case by simp
qed simp

declare dispatch.simps [simp del]

text \<open>What a trace accepts, settles (drops or dispatches), readies and uses up, in order.\<close>

fun accepted :: "action list \<Rightarrow> request list" where
  "accepted [] = []"
| "accepted (Accept e # as) = e # accepted as"
| "accepted (a # as) = accepted as"

fun settled :: "action list \<Rightarrow> request list" where
  "settled [] = []"
| "settled (Drop e # as) = e # settled as"
| "settled (Dispatch w e # as) = e # settled as"
| "settled (a # as) = settled as"

fun readied :: "action list \<Rightarrow> frame list" where
  "readied [] = []"
| "readied (Ready w # as) = w # readied as"
| "readied (a # as) = readied as"

fun used :: "action list \<Rightarrow> frame list" where
  "used [] = []"
| "used (SendFailed w e # as) = w # used as"
| "used (Dispatch w e # as) = w # used as"
| "used (a # as) = used as"

named_theorems trace_simps

lemma accepted_append [trace_simps]: "accepted (as @ bs) = accepted as @ accepted bs"
  by (induction as rule: accepted.induct) auto

lemma settled_append [trace_simps]: "settled (as @ bs) = settled as @ settled bs"
  by (induction as rule: settled.induct) auto

lemma readied_append [trace_simps]: "readied (as @ bs) = readied as @ readied bs"
  by (induction as rule: readied.induct) auto

lemma used_append [trace_simps]: "used (as @ bs) = used as @ used bs"
  by (induction as rule: used.induct) auto

lemma fails_trace [trace_simps]:
  "accepted (map (\<lambda>f. SendFailed f e) fs) = []"
  "settled (map (\<lambda>f. SendFailed f e) fs) = []"
  "readied (map (\<lambda>f. SendFailed f e) fs) = []"
  "used (map (\<lambda>f. SendFailed f e) fs) = fs"
  by (induction fs) auto

definition age_ok :: "rat \<Rightarrow> rat \<Rightarrow> action \<Rightarrow> bool" where
  "age_ok timeout now a = (case a of
      Drop e \<Rightarrow> now - fst e > timeout
    | Dispatch w e \<Rightarrow> now - fst e \<le> timeout
    | _ \<Rightarrow> True)"

definition sent_ok :: "(frame \<Rightarrow> bool) \<Rightarrow> action \<Rightarrow> bool" where
  "sent_ok ok a = (case a of Dispatch w e \<Rightarrow> ok w | SendFailed w e \<Rightarrow> \<not> ok w | _ \<Rightarrow> True)"

text \<open>One run of the dispatch loop, all at once.\<close>

lemma dispatch_spec:
  assumes "dispatch pk ok timeout now ws q = (ws2, q2, acts)"
  shows "rev q = settled acts @ rev q2 \<and> mset ws = mset (used acts) + mset ws2
    \<and> (ws2 = [] \<or> q2 = []) \<and> (\<forall>a \<in> set acts. age_ok timeout now a \<and> sent_ok ok a)
    \<and> accepted acts = [] \<and> readied acts = []"
  using assms
proof (induction pk ok timeout now ws q arbitrary: ws2 q2 acts rule: dispatch.induct)
  case (1 pk ok timeout now ws q)
  show ?case
  proof (cases "ws = [] \<or> q = []")
    case True
    with "1.prems" show ?thesis
      by (auto simp: dispatch.simps [of pk ok timeout now ws q] dq_pop_def split: if_splits)
  next
    case False
    then have ne: "ws \<noteq> []" and qne: "q \<noteq> []" by auto
    from dq.deq_nonempty [of q] qne obtain e r where pop: "dq_pop q = Inr (e, r)" by auto
    then have rq: "rev q = e # rev r" by (rule dq.content_deq)
    show ?thesis
    proof (cases "now - fst e > timeout")
      case True
      obtain acts' where d: "dispatch pk ok timeout now ws r = (ws2, q2, acts')" "acts = Drop e # acts'"
        using "1.prems" pop True ne
        by (auto simp: dispatch.simps [of pk ok timeout now ws q] Let_def split: prod.splits)
      from "1.IH"(1) [OF ne pop refl True d(1)] d(2) rq True show ?thesis
        by (simp add: age_ok_def sent_ok_def)
    next
      case fresh: False
      obtain ws1 q1 acts1 where s: "send_request pk ok e ws r = (ws1, q1, acts1)"
        by (cases "send_request pk ok e ws r") auto
      obtain acts2 where d: "dispatch pk ok timeout now ws1 q1 = (ws2, q2, acts2)" "acts = acts1 @ acts2"
        using "1.prems" pop fresh ne s
        by (auto simp: dispatch.simps [of pk ok timeout now ws q] Let_def split: prod.splits)
      note IH = "1.IH"(2) [OF ne pop refl fresh s [symmetric] refl refl d(1)]
      from s ne show ?thesis
      proof (cases rule: send_request_cases)
        case (sent w fails)
        with IH d(2) rq fresh show ?thesis
          by (auto simp: trace_simps age_ok_def sent_ok_def)
      next
        case (failed fails)
        with IH d(2) rq fresh show ?thesis
          by (auto simp: trace_simps age_ok_def sent_ok_def)
      qed
    qed
  qed
qed

lemma send_request_no_busy:
  "send_request pk ok e ws q = (ws2, q2, acts) \<Longrightarrow> Busy m k \<notin> set acts"
  by (cases "ws = []") (auto elim!: send_request_cases)

lemma dispatch_no_busy:
  "dispatch pk ok timeout now ws q = (ws2, q2, acts) \<Longrightarrow> Busy m k \<notin> set acts"
proof (induction pk ok timeout now ws q arbitrary: ws2 q2 acts rule: dispatch.induct)
  case (1 pk ok timeout now ws q)
  then show ?case
    by (fastforce simp: dispatch.simps [of pk ok timeout now ws q] Let_def
        split: if_splits sum.splits prod.splits dest: send_request_no_busy)
qed

text \<open>A whole iteration of \<open>run_broker\<close> (lines 75--142).\<close>

definition broker_iter :: "nat \<Rightarrow> rat \<Rightarrow> broker \<Rightarrow> poll_input \<Rightarrow> broker \<times> action list" where
  "broker_iter maxqueue timeout b i =
     (let (b1, a1) = (case backend_msg i of None \<Rightarrow> (b, []) | Some fr \<Rightarrow> handle_backend fr (reply_ok i) b);
          (b2, a2) = (case frontend_msg i of None \<Rightarrow> (b1, [])
                       | Some fr \<Rightarrow> handle_frontend maxqueue fr (recv_time i) (busy_ok i) b1);
          (ws, q, a3) = (if workers b2 \<noteq> [] \<and> waiting b2 \<noteq> []
                         then dispatch (pick i) (worker_ok i) timeout (now_time i) (workers b2) (waiting b2)
                         else (workers b2, waiting b2, []))
      in (b2\<lparr>workers := ws, waiting := q\<rparr>, a1 @ a2 @ a3))"

text \<open>The broker with the trace of its actions; \<open>timeout_ms\<close> is in milliseconds as configured.\<close>

definition broker_step :: "nat \<Rightarrow> rat \<Rightarrow> broker \<times> action list \<Rightarrow> poll_input \<Rightarrow> broker \<times> action list" where
  "broker_step maxqueue timeout_ms s i =
     (let (b', acts) = broker_iter maxqueue (timeout_ms / 1000) (fst s) i in (b', snd s @ acts))"

definition broker_init :: "broker \<times> action list" where
  "broker_init = (\<lparr>workers = [], waiting = []\<rparr>, [])"

definition run_broker :: "nat \<Rightarrow> rat \<Rightarrow> poll_input list \<Rightarrow> broker \<times> action list" where
  "run_broker maxqueue timeout_ms inputs = foldl (broker_step maxqueue timeout_ms) broker_init inputs"

section \<open>Invariants\<close>

definition broker_inv :: "nat \<Rightarrow> broker \<times> action list \<Rightarrow> bool" where
  "broker_inv maxqueue s \<longleftrightarrow>
     accepted (snd s) = settled (snd s) @ rev (waiting (fst s))
   \<and> length (waiting (fst s)) \<le> maxqueue
   \<and> mset (readied (snd s)) = mset (used (snd s)) + mset (workers (fst s))
   \<and> distinct (workers (fst s))"

lemma broker_inv_init: "broker_inv maxqueue broker_init"
  by (simp add: broker_inv_def broker_init_def)

lemma handle_backend_inv:
  assumes "broker_inv mq (b, tr)" and "handle_backend fr ok b = (b', acts)"
  shows "broker_inv mq (b', tr @ acts)"
  using assms
  by (auto simp: handle_backend_def broker_inv_def trace_simps split: list.splits if_splits)

lemma handle_frontend_inv:
  assumes "broker_inv mq (b, tr)" and "handle_frontend mq fr tm ok b = (b', acts)"
  shows "broker_inv mq (b', tr @ acts)"
  using assms
  by (auto simp: handle_frontend_def broker_inv_def trace_simps dq_appendleft_def
      split: list.splits if_splits)

lemma distinct_mset_rest:
  assumes "distinct xs" and "mset xs = A + mset ys"
  shows "distinct ys"
proof -
  obtain zs where "A = mset zs" by (metis ex_mset)
  with assms(2) have "mset xs = mset (zs @ ys)" by simp
  with assms(1) have "distinct (zs @ ys)" by (metis mset_eq_imp_distinct_iff)
  then show ?thesis by simp
qed

lemma dispatch_inv:
  assumes "broker_inv mq (b, tr)"
    and "dispatch pk ok timeout now (workers b) (waiting b) = (ws, q, acts)"
  shows "broker_inv mq (b\<lparr>workers := ws, waiting := q\<rparr>, tr @ acts)"
proof -
  from dispatch_spec [OF assms(2)]
  have d: "rev (waiting b) = settled acts @ rev q" "mset (workers b) = mset (used acts) + mset ws"
    "accepted acts = []" "readied acts = []" by auto
  have "length q \<le> length (waiting b)"
    using arg_cong [OF d(1), of length] by simp
  moreover have "distinct ws"
    using assms(1) d(2) by (auto simp: broker_inv_def intro: distinct_mset_rest)
  ultimately show ?thesis
    using assms(1) d by (auto simp: broker_inv_def trace_simps)
qed

lemma broker_iter_inv:
  assumes "broker_inv mq (b, tr)" and "broker_iter mq timeout b i = (b', acts)"
  shows "broker_inv mq (b', tr @ acts)"
proof -
  obtain b1 a1 where 1: "(case backend_msg i of None \<Rightarrow> (b, []) | Some fr \<Rightarrow> handle_backend fr (reply_ok i) b) = (b1, a1)"
    by fastforce
  obtain b2 a2 where 2: "(case frontend_msg i of None \<Rightarrow> (b1, [])
      | Some fr \<Rightarrow> handle_frontend mq fr (recv_time i) (busy_ok i) b1) = (b2, a2)" by fastforce
  have i1: "broker_inv mq (b1, tr @ a1)"
    using assms(1) 1 by (auto split: option.splits intro: handle_backend_inv)
  have i2: "broker_inv mq (b2, tr @ a1 @ a2)"
    using i1 2 by (auto split: option.splits dest: handle_frontend_inv)
  show ?thesis
  proof (cases "workers b2 \<noteq> [] \<and> waiting b2 \<noteq> []")
    case True
    obtain ws q a3 where 3: "dispatch (pick i) (worker_ok i) timeout (now_time i) (workers b2) (waiting b2) = (ws, q, a3)"
      by (cases "dispatch (pick i) (worker_ok i) timeout (now_time i) (workers b2) (waiting b2)") auto
    from dispatch_inv [OF i2 3] assms(2) 1 2 3 True show ?thesis
      by (auto simp: broker_iter_def)
  next
    case False
    with i2 assms(2) 1 2 show ?thesis by (auto simp: broker_iter_def)
  qed
qed

interpretation broker_sys: step_system "broker_step mq tmo" "broker_inv mq" for mq tmo
  by unfold_locales (auto simp: broker_step_def split: prod.splits intro: broker_iter_inv)

lemma run_broker_inv: "broker_inv mq (run_broker mq tmo is)"
  unfolding run_broker_def by (intro broker_sys.inv_run broker_inv_init)

section \<open>What the broker promises\<close>

text \<open>
  C6: for every sequence of polls, the requests accepted so far are, in their order of arrival,
  the ones already settled (dispatched to a worker or dropped for age) followed by the ones
  still waiting: no accepted request is lost, duplicated or overtaken, and the waiting queue
  never exceeds its maximum.
\<close>

theorem broker_fifo_no_loss:
  "accepted (snd (run_broker maxqueue timeout_ms inputs))
     = settled (snd (run_broker maxqueue timeout_ms inputs))
       @ rev (waiting (fst (run_broker maxqueue timeout_ms inputs)))
   \<and> length (waiting (fst (run_broker maxqueue timeout_ms inputs))) \<le> maxqueue"
  using run_broker_inv [of maxqueue timeout_ms inputs] by (simp add: broker_inv_def)

text \<open>
  C21: every attempt to send to a worker uses up one \<open>ready\<close> of that worker: after any run
  the ready notices taken into account are exactly the send attempts plus the workers still in
  the set, which holds no worker twice. A worker never gets two requests for one \<open>ready\<close>.
\<close>

theorem broker_one_request_per_ready:
  "count (mset (readied (snd (run_broker maxqueue timeout_ms inputs)))) w
     = count (mset (used (snd (run_broker maxqueue timeout_ms inputs)))) w
       + (if w \<in> set (workers (fst (run_broker maxqueue timeout_ms inputs))) then 1 else 0)"
proof -
  have d: "distinct (workers (fst (run_broker maxqueue timeout_ms inputs)))"
    and m: "mset (readied (snd (run_broker maxqueue timeout_ms inputs)))
      = mset (used (snd (run_broker maxqueue timeout_ms inputs)))
        + mset (workers (fst (run_broker maxqueue timeout_ms inputs)))"
    using run_broker_inv [of maxqueue timeout_ms inputs] by (auto simp: broker_inv_def)
  from d have "count (mset (workers (fst (run_broker maxqueue timeout_ms inputs)))) w
     = (if w \<in> set (workers (fst (run_broker maxqueue timeout_ms inputs))) then 1 else 0)"
    by (simp add: distinct_count_atmost_1)
  with m show ?thesis by simp
qed

lemma handle_backend_facts:
  "handle_backend fr ok b = (b', acts) \<Longrightarrow>
     waiting b' = waiting b \<and> accepted acts = [] \<and> settled acts = []
     \<and> (\<forall>a \<in> set acts. age_ok t n a \<and> sent_ok f a \<and> (\<forall>m k. a \<noteq> Busy m k))"
  by (auto simp: handle_backend_def age_ok_def sent_ok_def split: list.splits if_splits)

lemma handle_frontend_facts:
  "handle_frontend mq fr tm ok b = (b', acts) \<Longrightarrow> \<forall>a \<in> set acts. age_ok t n a \<and> sent_ok f a"
  by (auto simp: handle_frontend_def age_ok_def sent_ok_def split: list.splits if_splits)

lemma broker_iter_cases:
  assumes "broker_iter mq timeout b i = (b', acts)"
  obtains b1 a1 b2 a2 a3 where
    "(case backend_msg i of None \<Rightarrow> (b, []) | Some fr \<Rightarrow> handle_backend fr (reply_ok i) b) = (b1, a1)"
    "(case frontend_msg i of None \<Rightarrow> (b1, [])
      | Some fr \<Rightarrow> handle_frontend mq fr (recv_time i) (busy_ok i) b1) = (b2, a2)"
    "dispatch (pick i) (worker_ok i) timeout (now_time i) (workers b2) (waiting b2)
       = (workers b', waiting b', a3)"
    "acts = a1 @ a2 @ a3"
proof -
  have nop: "dispatch pk ok tmo now ws q = (ws, q, [])" if "ws = [] \<or> q = []" for pk ok tmo now ws q
    using that by (auto simp: dispatch.simps [of pk ok tmo now ws q] dq_pop_def)
  obtain b1 a1 where 1: "(case backend_msg i of None \<Rightarrow> (b, []) | Some fr \<Rightarrow> handle_backend fr (reply_ok i) b) = (b1, a1)"
    by fastforce
  obtain b2 a2 where 2: "(case frontend_msg i of None \<Rightarrow> (b1, [])
      | Some fr \<Rightarrow> handle_frontend mq fr (recv_time i) (busy_ok i) b1) = (b2, a2)" by fastforce
  obtain ws q a3 where 3: "dispatch (pick i) (worker_ok i) timeout (now_time i) (workers b2) (waiting b2) = (ws, q, a3)"
    by (cases "dispatch (pick i) (worker_ok i) timeout (now_time i) (workers b2) (waiting b2)") auto
  show ?thesis
  proof (cases "workers b2 \<noteq> [] \<and> waiting b2 \<noteq> []")
    case True
    with 1 2 3 assms show ?thesis by (intro that [OF 1 2, of a3]) (auto simp: broker_iter_def)
  next
    case False
    with 1 2 assms nop show ?thesis by (intro that [OF 1 2, of "[]"]) (auto simp: broker_iter_def)
  qed
qed

text \<open>
  C20: at the end of an iteration no worker is idle while a request waits; a dispatched request
  was not older than the timeout when it was handed to a worker that accepted it, and only
  requests older than the timeout are dropped.
\<close>

theorem broker_work_conserving:
  assumes "broker_iter maxqueue timeout b i = (b', acts)"
  shows "(workers b' = [] \<or> waiting b' = [])
    \<and> (\<forall>w e. Dispatch w e \<in> set acts \<longrightarrow> now_time i - fst e \<le> timeout \<and> worker_ok i w)
    \<and> (\<forall>e. Drop e \<in> set acts \<longrightarrow> now_time i - fst e > timeout)"
  using assms
proof (rule broker_iter_cases)
  fix b1 a1 b2 a2 a3
  assume 1: "(case backend_msg i of None \<Rightarrow> (b, []) | Some fr \<Rightarrow> handle_backend fr (reply_ok i) b) = (b1, a1)"
    and 2: "(case frontend_msg i of None \<Rightarrow> (b1, [])
      | Some fr \<Rightarrow> handle_frontend maxqueue fr (recv_time i) (busy_ok i) b1) = (b2, a2)"
    and 3: "dispatch (pick i) (worker_ok i) timeout (now_time i) (workers b2) (waiting b2)
       = (workers b', waiting b', a3)" and acts: "acts = a1 @ a2 @ a3"
  have a1: "\<forall>a \<in> set a1. age_ok timeout (now_time i) a \<and> sent_ok (worker_ok i) a"
    using 1 by (auto split: option.splits dest!: handle_backend_facts)
  have a2: "\<forall>a \<in> set a2. age_ok timeout (now_time i) a \<and> sent_ok (worker_ok i) a"
    using 2 by (auto split: option.splits dest!: handle_frontend_facts)
  note a3 = dispatch_spec [OF 3]
  from a1 a2 a3 acts have all: "\<forall>a \<in> set acts. age_ok timeout (now_time i) a \<and> sent_ok (worker_ok i) a"
    by auto
  show ?thesis
    using a3 bspec [OF all] by (fastforce simp: age_ok_def sent_ok_def)
qed

definition sample_input :: poll_input where
  "sample_input = \<lparr>backend_msg = Some [''w'', ''ready''], frontend_msg = Some [''c'', ''m'', ''d''],
     recv_time = 1, now_time = 2, reply_ok = True, busy_ok = True, worker_ok = (\<lambda>_. True), pick = (\<lambda>_. 0)\<rparr>"

lemma sample_iter:
  "broker_iter 10 3 \<lparr>workers = [], waiting = []\<rparr> sample_input
     = (\<lparr>workers = [], waiting = []\<rparr>,
        [Ready ''w'', Accept (1, ''c'', ''m'', ''d''), Dispatch ''w'' (1, ''c'', ''m'', ''d'')])"
  by (simp add: broker_iter_def sample_input_def handle_backend_def handle_frontend_def WORKER_READY_def
      dq_appendleft_def dispatch.simps dq_pop_def send_request.simps set_pop_def)

theorem broker_work_conserving_witness:
  "Dispatch ''w'' (1, ''c'', ''m'', ''d'') \<in> set (snd (broker_iter 10 3 \<lparr>workers = [], waiting = []\<rparr> sample_input))
   \<and> now_time sample_input - 1 \<le> 3"
  using broker_work_conserving [OF sample_iter] by (simp add: sample_iter)

text \<open>
  a request that arrives at a full queue is answered at once with the \<open>ERR 509\<close>
  frames and is not queued; any other request is accepted, stamped with its arrival time.
\<close>

theorem broker_overflow:
  assumes "broker_iter maxqueue timeout b i = (b', acts)"
    and "frontend_msg i = Some [client_id, msgid, data]"
  shows "(\<exists>ok. Busy [client_id, msgid, ''ERR'', ''509''] ok \<in> set acts) = (length (waiting b) \<ge> maxqueue)
    \<and> accepted acts = (if length (waiting b) \<ge> maxqueue then [] else [(recv_time i, client_id, msgid, data)])"
  using assms(1)
proof (rule broker_iter_cases)
  fix b1 a1 b2 a2 a3
  assume 1: "(case backend_msg i of None \<Rightarrow> (b, []) | Some fr \<Rightarrow> handle_backend fr (reply_ok i) b) = (b1, a1)"
    and 2: "(case frontend_msg i of None \<Rightarrow> (b1, [])
      | Some fr \<Rightarrow> handle_frontend maxqueue fr (recv_time i) (busy_ok i) b1) = (b2, a2)"
    and 3: "dispatch (pick i) (worker_ok i) timeout (now_time i) (workers b2) (waiting b2)
       = (workers b', waiting b', a3)" and acts: "acts = a1 @ a2 @ a3"
  have b1: "waiting b1 = waiting b" "accepted a1 = []" "\<forall>m k. Busy m k \<notin> set a1"
    using 1 by (auto split: option.splits dest!: handle_backend_facts)
  have "\<forall>a \<in> set a3. sent_ok (worker_ok i) a \<and> (\<forall>m k. a \<noteq> Busy m k)"
    using dispatch_no_busy [OF 3] dispatch_spec [OF 3] by auto
  then show ?thesis
    using b1 2 assms(2) dispatch_spec [OF 3] acts
    by (auto simp: handle_frontend_def trace_simps split: if_splits)
qed

theorem broker_overflow_witness:
  "accepted (snd (broker_iter 10 3 \<lparr>workers = [], waiting = []\<rparr> sample_input)) = [(1, ''c'', ''m'', ''d'')]"
proof -
  have "frontend_msg sample_input = Some [''c'', ''m'', ''d'']" and "recv_time sample_input = 1"
    by (simp_all add: sample_input_def)
  with broker_overflow [OF sample_iter this(1)] show ?thesis by (simp add: sample_iter)
qed

end
