(* ===== verification/Worker.thy ===== *)
theory Worker
  imports Supervisor Broker
begin

text \<open>
  \<open>src/pyqgisserver/zeromq/worker.py\<close> and the message types of \<open>messages.py\<close>: the
  base request handler, which turns a response into a header message and a stream of chunks, and
  the loop of a worker. Pickled objects are values of the datatype \<open>payload\<close>, so that
  unpickling what was pickled gives it back. A write on the socket either puts a message on the
  wire or raises; \<open>sock_up n\<close> says what the \<open>n\<close>-th write of a handler does.
\<close>

section \<open>Messages\<close>

datatype hvalue = HStr string | HInt int

type_synonym headers = "(string, hvalue) odict"

type_synonym meta = "(string, int) odict"

text \<open>\<open>ReplyMessage(status, headers, data, meta)\<close> and the chunk triple \<open>(data, send_more, meta)\<close>.\<close>

datatype payload =
    PReply int headers string "meta option"
  | PChunk string bool "meta option"

text \<open>\<open>RequestMessage\<close>, as received by a worker.\<close>

record request_message =
  rq_query :: string
  rq_headers :: "(string, string) odict"
  rq_method :: string
  rq_data :: "string option"

section \<open>The request handler\<close>

record zhandler =
  hd_headers :: headers
  status_code :: int
  header_written :: bool
  client_id :: frame
  corr_id :: frame
  sent :: "(frame \<times> frame \<times> payload) list"
  writes :: nat
  sock_up :: "nat \<Rightarrow> bool"

text \<open>A handler call either completes or raises; in both cases the handler's state has moved.\<close>

type_synonym 'h outcome = "exn option \<times> 'h"

definition zhandler_init :: "frame \<Rightarrow> frame \<Rightarrow> (nat \<Rightarrow> bool) \<Rightarrow> zhandler" where
  "zhandler_init cid corr up = \<lparr>hd_headers = [], status_code = 200, header_written = False,
     client_id = cid, corr_id = corr, sent = [], writes = 0, sock_up = up\<rparr>"

definition h_write :: "payload \<Rightarrow> zhandler \<Rightarrow> zhandler outcome" where
  "h_write p h = (if sock_up h (writes h)
     then (None, h\<lparr>sent := sent h @ [(client_id h, corr_id h, p)], writes := Suc (writes h)\<rparr>)
     else (Some (OtherError ''ZMQError''), h\<lparr>writes := Suc (writes h)\<rparr>))"

definition h_send :: "string \<Rightarrow> bool \<Rightarrow> meta option \<Rightarrow> zhandler \<Rightarrow> zhandler outcome" where
  "h_send data send_more mt h =
     (if \<not> header_written h then
        (let h1 = (if send_more \<and> status_code h = 200 then h\<lparr>status_code := 206\<rparr> else h)
         in case h_write (PReply (status_code h1) (hd_headers h1) data mt) h1 of
              (Some e, h2) \<Rightarrow> (Some e, h2)
            | (None, h2) \<Rightarrow> (None, h2\<lparr>header_written := True\<rparr>))
      else if status_code h = 206 then
        (case h_write (PChunk data send_more mt) h of
              (Some e, h2) \<Rightarrow> (Some e, h2)
            | (None, h2) \<Rightarrow> (None, if \<not> send_more then h2\<lparr>status_code := 200\<rparr> else h2))
      else (None, h))"

text \<open>
  \<open>utils/stats.py\<close> and \<open>get_report\<close>: the memory figures of a process, from \<open>psutil\<close> when it is
  installed (\<open>None\<close>: it is not; no pid: the process itself), and the pid.
\<close>

definition process_stats :: "(int option \<Rightarrow> (rat \<times> rat) result) option \<Rightarrow> int option \<Rightarrow> (string, rat) odict result" where
  "process_stats psutil pid = (case psutil of
      None \<Rightarrow> Inr []
    | Some probe \<Rightarrow> rbind (probe pid) (\<lambda>(rss, percent). Inr [(''mem_usage'', rss), (''mem_percent'', percent)]))"

definition base_get_report :: "(int option \<Rightarrow> (rat \<times> rat) result) option \<Rightarrow> int \<Rightarrow> (string, rat) odict result" where
  "base_get_report psutil own = rbind (process_stats psutil None) (\<lambda>d. Inr (od_set ''pid'' (of_int own) d))"

text \<open>A worker always reports its pid, with or without figures.\<close>

lemma report_has_pid: "base_get_report psutil own = Inr d \<Longrightarrow> od_get d ''pid'' = Some (of_int own)"
  by (auto simp: base_get_report_def process_stats_def split: option.splits)

section \<open>The worker loop\<close>

text \<open>
  What one turn of the loop meets: the outcome of \<open>get()\<close> (a request, the heartbeat
  time-out, a \<open>ZMQError\<close>, or another exception such as a failed unpacking), the
  handler's \<open>handle_message\<close>, whether the two notifications get through, the broadcast
  message if any, the report, and whether the callback raises.
\<close>

datatype recv = Request frame frame request_message | Again | ZmqErr | RecvExn

record 'd worker_input =
  received :: recv
  handle :: "request_message \<Rightarrow> zhandler \<Rightarrow> zhandler outcome"
  socket_up :: "nat \<Rightarrow> bool"
  busy_sent :: bool
  done_sent :: bool
  broadcast :: "frame option"
  report_data :: 'd

datatype 'd waction =
    SendReady
  | Wire "(frame \<times> frame \<times> payload) list"
  | Notify "(int \<times> 'd sup_msg) list"
  | PostProcess bool

text \<open>
  The \<open>try\<close> block (lines 195--217) for a received request: notify busy, build the handler,
  run it. On an exception, when the header is not out, an error 500 is sent and the loop ends;
  a \<open>ZMQError\<close> raised by the handler is only logged. A second exception, in that last send,
  would leave the loop altogether; it ends the worker in the same way.
\<close>

definition serve_request ::
  "(request_message \<Rightarrow> zhandler \<Rightarrow> zhandler outcome) \<Rightarrow> zhandler \<Rightarrow> request_message \<Rightarrow> bool \<times> zhandler" where
  "serve_request hdl h rq =
     (case hdl rq h of
        (None, h1) \<Rightarrow> (True, h1)
      | (Some e, h1) \<Rightarrow>
          if e = OtherError ''ZMQError'' then (True, h1)
          else if \<not> header_written h1
          then (False, snd (h_send ''Worker internal error'' False None (h1\<lparr>status_code := 500\<rparr>)))
          else (True, h1))"

text \<open>One turn of \<open>run_worker\<close> (lines 191--239); the first component is whether the loop goes on.\<close>

definition worker_turn ::
  "bool \<Rightarrow> bool \<Rightarrow> sup_client \<Rightarrow> 'd worker_input \<Rightarrow> bool \<times> sup_client \<times> 'd waction list" where
  "worker_turn has_broadcast has_post c i =
     (let (go, c1, acts) = (case received i of
            Request cid corr rq \<Rightarrow>
              (let (c1, n1) = notify_busy (busy_sent i) c;
                   (go, h) = serve_request (handle i) (zhandler_init cid corr (socket_up i)) rq
               in (go, c1, [Notify n1, Wire (sent h)]))
          | _ \<Rightarrow> (True, c, []));
          (c2, n2) = notify_done (done_sent i) c1;
          idle = (received i = Again);
          acts1 = SendReady # acts @ [Notify n2]
      in if \<not> go then (False, c2, acts1)
         else if has_broadcast \<and> broadcast i = Some ''RESTART'' then (False, c2, acts1)
         else (let rep = (if has_broadcast \<and> broadcast i = Some ''REPORT''
                          then [Notify (send_report True (report_data i) c2)] else [])
               in (True, c2, acts1 @ rep @ (if has_post then [PostProcess idle] else []))))"

text \<open>The loop: it runs until a turn ends it or the inputs are exhausted.\<close>

fun run_worker :: "bool \<Rightarrow> bool \<Rightarrow> sup_client \<Rightarrow> 'd worker_input list \<Rightarrow> bool \<times> sup_client \<times> 'd waction list" where
  "run_worker br po c [] = (True, c, [])"
| "run_worker br po c (i # is) =
     (let (go, c1, acts) = worker_turn br po c i
      in if go then (let (g, c2, acts2) = run_worker br po c1 is in (g, c2, acts @ acts2))
         else (False, c1, acts))"

section \<open>The wire format of one response\<close>

text \<open>
  The messages of one request: nothing yet, or a header message followed by chunks. Chunks
  follow only a header with status 206, and nothing follows a chunk announced as the last one.
\<close>

fun chunks_ok :: "payload list \<Rightarrow> bool" where
  "chunks_ok [] = True"
| "chunks_ok (PReply s hs d m # ps) = False"
| "chunks_ok (PChunk d mo m # ps) = (chunks_ok ps \<and> (mo \<or> ps = []))"

fun stream_ok :: "payload list \<Rightarrow> bool" where
  "stream_ok [] = True"
| "stream_ok (PReply s hs d m # ps) = (chunks_ok ps \<and> (s = 206 \<or> ps = []))"
| "stream_ok (PChunk d mo m # ps) = False"

definition open_chunks :: "payload list \<Rightarrow> bool" where
  "open_chunks ps = list_all (\<lambda>p. case p of PChunk d mo m \<Rightarrow> mo | _ \<Rightarrow> False) ps"

lemma open_chunks_ok: "open_chunks ps \<Longrightarrow> chunks_ok (ps @ [PChunk d mo m])"
  by (induction ps) (auto simp: open_chunks_def split: payload.splits)

definition h_payloads :: "zhandler \<Rightarrow> payload list" where
  "h_payloads h = map (\<lambda>x. snd (snd x)) (sent h)"

definition wire_inv :: "zhandler \<Rightarrow> bool" where
  "wire_inv h \<longleftrightarrow> stream_ok (h_payloads h)
     \<and> list_all (\<lambda>x. fst x = client_id h \<and> fst (snd x) = corr_id h) (sent h)
     \<and> (header_written h \<longleftrightarrow> sent h \<noteq> [])
     \<and> (header_written h \<and> status_code h = 206 \<longrightarrow>
          (\<exists>hs d m ps. h_payloads h = PReply 206 hs d m # ps \<and> open_chunks ps))"

lemma wire_inv_init: "wire_inv (zhandler_init cid corr up)"
  by (simp add: wire_inv_def zhandler_init_def h_payloads_def)

lemma h_write_ok: "h_write p h = (None, h') \<Longrightarrow>
    h' = h\<lparr>sent := sent h @ [(client_id h, corr_id h, p)], writes := Suc (writes h)\<rparr>"
  by (auto simp: h_write_def split: if_splits)

lemma h_write_err: "h_write p h = (Some e, h') \<Longrightarrow> h' = h\<lparr>writes := Suc (writes h)\<rparr>"
  by (auto simp: h_write_def split: if_splits)

lemma wire_inv_send:
  assumes "wire_inv h" and "h_send data mo mt h = (r, h')"
  shows "wire_inv h'"
proof (cases "header_written h")
  case False
  with assms(1) have "sent h = []" by (simp add: wire_inv_def)
  with False assms show ?thesis
    by (auto simp: h_send_def wire_inv_def h_payloads_def Let_def open_chunks_def
        split: prod.splits option.splits if_splits dest!: h_write_ok h_write_err)
next
  case True
  show ?thesis
  proof (cases "status_code h = 206")
    case False
    with True assms show ?thesis by (auto simp: h_send_def)
  next
    case open206: True
    with True assms(1) obtain hs d m ps where
      ps: "h_payloads h = PReply 206 hs d m # ps" "open_chunks ps"
      by (auto simp: wire_inv_def)
    then have "stream_ok (h_payloads h @ [PChunk data mo mt])" by (simp add: open_chunks_ok)
    with True open206 assms ps show ?thesis
      by (auto simp: h_send_def wire_inv_def h_payloads_def Let_def open_chunks_def
          split: prod.splits option.splits if_splits dest!: h_write_ok h_write_err)
  qed
qed

section \<open>Notifications and the life of a worker\<close>

lemma notify_busy_busy: "cl_busy (fst (notify_busy ok c))"
  by (simp add: notify_busy_def Let_def)

lemma notify_done_idle: "\<not> cl_busy (fst (notify_done ok c))"
  by (simp add: notify_done_def Let_def)

lemma notify_done_idleD: "notify_done ok c = (c', ms) \<Longrightarrow> \<not> cl_busy c'"
  by (auto simp: notify_done_def Let_def split: if_splits)

lemma worker_turn_idle: "worker_turn br po c i = (go, c', acts) \<Longrightarrow> \<not> cl_busy c'"
  by (auto simp: worker_turn_def Let_def split: prod.splits if_splits dest: notify_done_idleD)

lemma run_worker_idle: "\<not> cl_busy c \<Longrightarrow> run_worker br po c is = (go, c', acts) \<Longrightarrow> \<not> cl_busy c'"
proof (induction "is" arbitrary: c go c' acts)
  case (Cons i "is")
  obtain g c1 a1 where t: "worker_turn br po c i = (g, c1, a1)" by (cases "worker_turn br po c i") auto
  then have "\<not> cl_busy c1" by (rule worker_turn_idle)
  then show ?case
    using t Cons.prems Cons.IH [of c1]
    by (cases g) (auto simp: Let_def split: prod.splits)
qed simp

fun notices :: "'d waction list \<Rightarrow> 'd sup_msg list" where
  "notices [] = []"
| "notices (Notify ms # as) = map snd ms @ notices as"
| "notices (a # as) = notices as"

section \<open>The handler of the base class\<close>

text \<open>Calls in sequence: the first that raises ends the handler.\<close>

fun h_seq :: "(zhandler \<Rightarrow> zhandler outcome) list \<Rightarrow> zhandler \<Rightarrow> zhandler outcome" where
  "h_seq [] h = (None, h)"
| "h_seq (f # fs) h = (case f h of (Some e, h1) \<Rightarrow> (Some e, h1) | (None, h1) \<Rightarrow> h_seq fs h1)"

text \<open>\<open>RequestHandler.handle_message\<close> (lines 122--129), the handler of the test worker.\<close>

definition base_handle_message :: "request_message \<Rightarrow> zhandler \<Rightarrow> zhandler outcome" where
  "base_handle_message rq h = h_seq
     [h_send (''Hello '' @ client_id h) True None, h_send ''Chunk 1'' True None,
      h_send ''Chunk 2'' True None, h_send [] False None] h"

end
