(* ===== verification/Response.thy ===== *)
theory Response
  imports Worker
begin

text \<open>
  The response adaptor of \<open>src/pyqgisserver/qgsworker.py\<close> (class \<open>Response\<close>): QGIS writes
  into a buffer, \<open>flush\<close> sends the buffer through the request handler, \<open>finish\<close> marks the
  end of the response and flushes. The buffer is Qt's \<open>QBuffer\<close>, used as a byte string that
  writes extend and \<open>clear\<close> empties. The metadata function is given by what it does when
  called: \<open>mfn = None\<close> when there is none, otherwise its result or exception.
\<close>

record response =
  rs_h :: zhandler
  buf :: string
  fin :: bool
  mfn :: "meta result option"
  extra :: headers

definition response_init :: "zhandler \<Rightarrow> meta result option \<Rightarrow> response" where
  "response_init h mf = \<lparr>rs_h = h, buf = [], fin = False, mfn = mf, extra = []\<rparr>"

definition get_metadata :: "response \<Rightarrow> meta option result" where
  "get_metadata r = (case mfn r of None \<Rightarrow> Inr None | Some (Inr m) \<Rightarrow> Inr (Some m) | Some (Inl e) \<Rightarrow> Inl e)"

definition rs_write :: "string \<Rightarrow> response \<Rightarrow> response" where
  "rs_write d r = r\<lparr>buf := buf r @ d\<rparr>"

definition setHeader :: "string \<Rightarrow> hvalue \<Rightarrow> response \<Rightarrow> response" where
  "setHeader k v r = (if \<not> header_written (rs_h r)
     then r\<lparr>rs_h := (rs_h r)\<lparr>hd_headers := od_set k v (hd_headers (rs_h r))\<rparr>\<rparr> else r)"

definition setExtraHeader :: "string \<Rightarrow> hvalue \<Rightarrow> response \<Rightarrow> response" where
  "setExtraHeader k v r = setHeader k v (r\<lparr>extra := od_set k v (extra r)\<rparr>)"

definition setStatusCode :: "int \<Rightarrow> response \<Rightarrow> response" where
  "setStatusCode code r = (if \<not> header_written (rs_h r)
     then r\<lparr>rs_h := (rs_h r)\<lparr>status_code := code\<rparr>\<rparr> else r)"

definition statusCode :: "response \<Rightarrow> int" where
  "statusCode r = status_code (rs_h r)"

definition rs_header :: "string \<Rightarrow> response \<Rightarrow> hvalue" where
  "rs_header k r = (case od_get (hd_headers (rs_h r)) k of
      Some (HStr s) \<Rightarrow> HStr s
    | Some (HInt n) \<Rightarrow> (if n = 0 then HStr [] else HInt n)
    | None \<Rightarrow> HStr [])"

definition rs_headers :: "response \<Rightarrow> headers" where
  "rs_headers r = hd_headers (rs_h r)"

definition removeHeader :: "string \<Rightarrow> response \<Rightarrow> response" where
  "removeHeader k r = r\<lparr>rs_h := (rs_h r)\<lparr>hd_headers := od_del k (hd_headers (rs_h r))\<rparr>\<rparr>"

text \<open>\<open>sendError\<close> (lines 194--204): every exception of the send is caught and logged.\<close>

definition sendError :: "int \<Rightarrow> string \<Rightarrow> response \<Rightarrow> response" where
  "sendError code message r =
     (if \<not> header_written (rs_h r) then
        (case h_send message False None ((rs_h r)\<lparr>status_code := code\<rparr>) of
            (None, h) \<Rightarrow> r\<lparr>rs_h := h, fin := True\<rparr>
          | (Some e, h) \<Rightarrow> r\<lparr>rs_h := h\<rparr>)
      else r)"

definition rs_truncate :: "response \<Rightarrow> response" where
  "rs_truncate r = r\<lparr>buf := []\<rparr>"

definition clearHeaders :: "response \<Rightarrow> response" where
  "clearHeaders r = r\<lparr>rs_h := (rs_h r)\<lparr>hd_headers := od_update [] (extra r)\<rparr>\<rparr>"

definition rs_clear :: "response \<Rightarrow> response" where
  "rs_clear r = rs_truncate (clearHeaders r)"

definition headersSent :: "response \<Rightarrow> bool" where
  "headersSent r = header_written (rs_h r)"

definition rs_send :: "string \<Rightarrow> bool \<Rightarrow> meta option \<Rightarrow> response \<Rightarrow> response outcome" where
  "rs_send d sm mt r = (case h_send d sm mt (rs_h r) of (e, h) \<Rightarrow> (e, r\<lparr>rs_h := h\<rparr>))"

text \<open>
  The body of \<open>flush\<close> (lines 138--160), up to its \<open>except\<close>. An empty buffer still sends an
  empty message; the end marker is sent when a finished response has its header out already.
\<close>

definition flush_body :: "response \<Rightarrow> response outcome" where
  "flush_body r =
     (case get_metadata r of
        Inl e \<Rightarrow> (Some e, r)
      | Inr mt \<Rightarrow>
          (let avail = length (buf r);
               r1 = (if fin r \<and> 0 < avail
                     then r\<lparr>rs_h := (rs_h r)\<lparr>hd_headers := od_set ''Content-Length'' (HInt (int avail)) (hd_headers (rs_h r))\<rparr>\<rparr>
                     else r);
               send_more = (\<not> fin r1 \<or> header_written (rs_h r1))
           in case (if 0 < avail
                    then (case rs_send (buf r1) send_more mt r1 of
                             (None, r2) \<Rightarrow> (None, r2\<lparr>buf := []\<rparr>) | out \<Rightarrow> out)
                    else rs_send [] send_more mt r1) of
                (Some e, r2) \<Rightarrow> (Some e, r2)
              | (None, r2) \<Rightarrow> if send_more \<and> fin r2 then rs_send [] False mt r2 else (None, r2)))"

text \<open>
  \<open>flush\<close> (lines 131--167): on any exception the content type is deleted, which raises
  \<open>KeyError\<close> when there is none, and error 500 is sent if the header is not out yet.
\<close>

definition flush :: "response \<Rightarrow> response outcome" where
  "flush r = (case flush_body r of
      (None, r1) \<Rightarrow> (None, r1)
    | (Some e, r1) \<Rightarrow>
        if od_has ''Content-Type'' (hd_headers (rs_h r1))
        then (None, sendError 500 ''Internal server error'' (removeHeader ''Content-Type'' r1))
        else (Some KeyError, r1))"

definition finish :: "response \<Rightarrow> response outcome" where
  "finish r = flush (r\<lparr>fin := True\<rparr>)"

section \<open>Error-free flushes\<close>

lemmas rs_simps = rs_send_def h_send_def h_write_def flush_def flush_body_def finish_def Let_def

text \<open>A response that nothing disturbs: the socket accepts every write, the metadata function returns.\<close>

definition calm :: "response \<Rightarrow> bool" where
  "calm r \<longleftrightarrow> sock_up (rs_h r) = (\<lambda>_. True) \<and> is_ok (get_metadata r)"

definition meta_of :: "response \<Rightarrow> meta option" where
  "meta_of r = (case get_metadata r of Inr m \<Rightarrow> m | Inl e \<Rightarrow> None)"

lemma calm_meta: "calm r \<Longrightarrow> get_metadata r = Inr (meta_of r)"
  by (auto simp: calm_def meta_of_def is_ok_iff)

lemma metadata_update [simp]:
  "get_metadata (r\<lparr>buf := b\<rparr>) = get_metadata r" "get_metadata (r\<lparr>fin := f\<rparr>) = get_metadata r"
  "get_metadata (r\<lparr>rs_h := h\<rparr>) = get_metadata r"
  "meta_of (r\<lparr>buf := b\<rparr>) = meta_of r" "meta_of (r\<lparr>fin := f\<rparr>) = meta_of r"
  "meta_of (r\<lparr>rs_h := h\<rparr>) = meta_of r"
  by (simp_all add: get_metadata_def meta_of_def)

lemma calm_update [simp]:
  "calm (r\<lparr>buf := b\<rparr>) = calm r" "calm (r\<lparr>fin := f\<rparr>) = calm r"
  "sock_up h = sock_up (rs_h r) \<Longrightarrow> calm (r\<lparr>rs_h := h\<rparr>) = calm r"
  by (simp_all add: calm_def)

lemma calm_up: "calm r \<Longrightarrow> sock_up (rs_h r) n"
  by (simp add: calm_def)

lemmas calm_simps = calm_up calm_meta h_payloads_def statusCode_def rs_headers_def

text \<open>First flush of an unfinished response: the header message, with 206 in place of 200.\<close>

definition stream_status :: "int \<Rightarrow> int" where
  "stream_status s = (if s = 200 then 206 else s)"

lemma flush_first:
  assumes "calm r" and "\<not> header_written (rs_h r)" and "\<not> fin r" and "sent (rs_h r) = []"
  shows "\<exists>r'. flush r = (None, r') \<and> calm r' \<and> header_written (rs_h r') \<and> \<not> fin r' \<and> buf r' = []
    \<and> h_payloads (rs_h r') = [PReply (stream_status (statusCode r)) (rs_headers r) (buf r) (meta_of r)]
    \<and> statusCode r' = stream_status (statusCode r) \<and> meta_of r' = meta_of r"
  using assms by (cases "buf r = []") (simp_all add: rs_simps calm_simps stream_status_def)

text \<open>A later flush of a streamed response sends the buffer as a chunk that announces more.\<close>

lemma flush_chunk:
  assumes "calm r" and "header_written (rs_h r)" and "\<not> fin r" and "statusCode r = 206"
  shows "\<exists>r'. flush r = (None, r') \<and> calm r' \<and> header_written (rs_h r') \<and> \<not> fin r' \<and> buf r' = []
    \<and> h_payloads (rs_h r') = h_payloads (rs_h r) @ [PChunk (buf r) True (meta_of r)]
    \<and> statusCode r' = 206 \<and> meta_of r' = meta_of r"
  using assms by (cases "buf r = []") (simp_all add: rs_simps calm_simps)

text \<open>When the header went out with another status, a later flush sends nothing: the data is lost.\<close>

lemma flush_dropped:
  assumes "calm r" and "header_written (rs_h r)" and "statusCode r \<noteq> 206"
  shows "\<exists>r'. flush r = (None, r') \<and> calm r' \<and> header_written (rs_h r') \<and> fin r' = fin r \<and> buf r' = []
    \<and> h_payloads (rs_h r') = h_payloads (rs_h r) \<and> statusCode r' = statusCode r \<and> meta_of r' = meta_of r"
  using assms by (cases "buf r = []"; cases "fin r") (simp_all add: rs_simps calm_simps)

text \<open>The final flush of a streamed response: the rest as a chunk, then the end marker.\<close>

lemma finish_stream:
  assumes "calm r" and "header_written (rs_h r)" and "statusCode r = 206"
  shows "\<exists>r'. finish r = (None, r')
    \<and> h_payloads (rs_h r') = h_payloads (rs_h r) @ [PChunk (buf r) True (meta_of r), PChunk [] False (meta_of r)]"
  using assms by (cases "buf r = []") (simp_all add: rs_simps calm_simps)

lemma finish_dropped:
  assumes "calm r" and "header_written (rs_h r)" and "statusCode r \<noteq> 206"
  shows "\<exists>r'. finish r = (None, r') \<and> h_payloads (rs_h r') = h_payloads (rs_h r)"
  using flush_dropped [of "r\<lparr>fin := True\<rparr>"] assms by (auto simp: finish_def statusCode_def)

text \<open>A response finished without an earlier flush goes out whole, with its length.\<close>

lemma finish_single:
  assumes "calm r" and "\<not> header_written (rs_h r)" and "sent (rs_h r) = []"
  shows "\<exists>r' hs. finish r = (None, r') \<and> header_written (rs_h r')
    \<and> h_payloads (rs_h r') = [PReply (statusCode r) hs (buf r) (meta_of r)]
    \<and> (buf r \<noteq> [] \<longrightarrow> od_get hs ''Content-Length'' = Some (HInt (int (length (buf r)))))"
  using assms by (cases "buf r = []") (simp_all add: rs_simps calm_simps)

section \<open>Header and error discipline\<close>

text \<open>After the header is out, status and headers can no longer change, and no error can be sent.\<close>

lemma after_header:
  assumes "header_written (rs_h r)"
  shows "setStatusCode c r = r" "setHeader k v r = r" "sendError c m r = r"
  using assms by (simp_all add: setStatusCode_def setHeader_def sendError_def)

lemma sendError_message:
  assumes "\<not> header_written (rs_h r)" and "sock_up (rs_h r) (writes (rs_h r))" and "sent (rs_h r) = []"
  shows "h_payloads (rs_h (sendError code m r)) = [PReply code (rs_headers r) m None]"
    and "header_written (rs_h (sendError code m r))" and "fin (sendError code m r)"
  using assms by (simp_all add: sendError_def rs_simps h_payloads_def rs_headers_def)

end
