(* ===== verification/Client.thy ===== *)
theory Client
  imports Worker
begin

text \<open>
  \<open>src/pyqgisserver/zeromq/client.py\<close>: the asynchronous DEALER client of the front end.
  A response handler is shared by the poller, which fills it, and by the coroutine that waits on
  it; after it leaves the client's table the coroutine still holds it. Handlers therefore live
  in a store keyed by correlation id (ids are fresh UUIDs), and the table lists the registered
  ids. Every event is one uninterrupted piece of a coroutine.
\<close>

section \<open>The response handler\<close>

datatype future = Pending | Resolved | Failed exn | Cancelled

record rhandler =
  rh_headers :: headers
  rh_future :: future
  rh_chunks :: "(string \<times> bool) list option"
  rh_has_more :: bool
  rh_data :: "string option"
  rh_meta :: "meta option"
  rh_status :: int

definition rhandler_init :: rhandler where
  "rhandler_init = \<lparr>rh_headers = [], rh_future = Pending, rh_chunks = None, rh_has_more = False,
     rh_data = None, rh_meta = None, rh_status = -1\<rparr>"

text \<open>A message body on the wire: raw bytes (the broker's \<open>ERR\<close>) or a pickled object.\<close>

datatype wire = Raw string | Pickled payload

text \<open>Setting the outcome of a future that is already done raises \<open>InvalidStateError\<close>.\<close>

definition future_done :: "future \<Rightarrow> bool" where
  "future_done f \<longleftrightarrow> f \<noteq> Pending"

definition rh_set_exception :: "exn \<Rightarrow> rhandler \<Rightarrow> rhandler outcome" where
  "rh_set_exception e h =
     (let h1 = h\<lparr>rh_has_more := False\<rparr> in
      if future_done (rh_future h1) then (Some InvalidStateError, h1)
      else (None, h1\<lparr>rh_future := Failed e\<rparr>))"

text \<open>
  \<open>_set_result\<close> (lines 67--91): the first message is a header message, later ones are chunks,
  read only while more is expected; an object of the other shape raises at unpacking.
\<close>

definition rh_set_result :: "wire \<Rightarrow> rhandler \<Rightarrow> rhandler outcome" where
  "rh_set_result w h =
     (if rh_status h = -1 then
        (case w of
           Raw s \<Rightarrow> (Some (OtherError ''UnpicklingError''), h)
         | Pickled (PChunk d mo m) \<Rightarrow> (Some ValueError, h)
         | Pickled (PReply st hs body mt) \<Rightarrow>
             (let h1 = h\<lparr>rh_headers := hs, rh_data := Some body, rh_status := st, rh_meta := mt\<rparr>;
                  h2 = (if st = 206 then h1\<lparr>rh_has_more := True, rh_chunks := Some []\<rparr> else h1)
              in if future_done (rh_future h2) then (Some InvalidStateError, h2)
                 else (None, h2\<lparr>rh_future := Resolved\<rparr>)))
      else if rh_has_more h then
        (case w of
           Raw s \<Rightarrow> (Some (OtherError ''UnpicklingError''), h)
         | Pickled (PReply st hs body mt) \<Rightarrow> (Some ValueError, h)
         | Pickled (PChunk d mo m) \<Rightarrow>
             (let h1 = h\<lparr>rh_has_more := mo\<rparr> in
              case rh_chunks h1 of
                None \<Rightarrow> (Some AttributeError, h1)
              | Some q \<Rightarrow> (None, h1\<lparr>rh_chunks := Some (q @ [(d, mo)])\<rparr>)))
      else (None, h))"

definition rh_done :: "rhandler \<Rightarrow> bool" where
  "rh_done h \<longleftrightarrow> \<not> rh_has_more h \<and> future_done (rh_future h)"

section \<open>The client\<close>

record client =
  store :: "frame \<Rightarrow> rhandler option"
  table :: "frame list"
  polling :: bool

definition client_init :: client where
  "client_init = \<lparr>store = (\<lambda>_. None), table = [], polling = False\<rparr>"

text \<open>
  One message for the poller (lines 147--164). An unknown id is logged; \<open>ERR\<close> with a rest
  fails the request; the handler leaves the table when it is done, but not when its update
  raised. Updates are written back to the store, which the waiting coroutine also reads.
\<close>

definition client_recv :: "frame \<Rightarrow> wire \<Rightarrow> string list \<Rightarrow> client \<Rightarrow> client" where
  "client_recv cid w rest c =
     (if cid \<notin> set (table c) then c
      else (case store c cid of
          None \<Rightarrow> c
        | Some h \<Rightarrow>
            (case (if rest \<noteq> [] \<and> w = Raw ''ERR'' then rh_set_exception (RequestProxyError (hd rest)) h
                   else rh_set_result w h) of
               (Some e, h1) \<Rightarrow> c\<lparr>store := (store c)(cid \<mapsto> h1)\<rparr>
             | (None, h1) \<Rightarrow>
                 (let c1 = c\<lparr>store := (store c)(cid \<mapsto> h1)\<rparr>
                  in if rh_done h1 then c1\<lparr>table := removeAll cid (table c)\<rparr> else c1))))"

text \<open>
  \<open>fetch\<close> up to its wait (lines 178--192): a refused send is a gateway error and nothing is
  registered; otherwise the handler is registered and the poller started if needed.
\<close>

definition fetch_send :: "bool \<Rightarrow> frame \<Rightarrow> client \<Rightarrow> unit result \<times> client" where
  "fetch_send send_ok cid c =
     (if cid \<in> set (table c) then (Inl AssertionError, c)
      else if \<not> send_ok then (Inl RequestGatewayError, c)
      else (Inr (), c\<lparr>store := (store c)(cid \<mapsto> rhandler_init), table := table c @ [cid], polling := True\<rparr>))"

text \<open>
  \<open>fetch\<close> after its wait (lines 195--199, 98--106): the future's value or exception, or the
  time-out, which cancels the future. Every exception removes the id from the table.
\<close>

definition fetch_resume :: "frame \<Rightarrow> client \<Rightarrow> rhandler result \<times> client" where
  "fetch_resume cid c =
     (case store c cid of
        None \<Rightarrow> (Inl KeyError, c)
      | Some h \<Rightarrow>
         (case rh_future h of
            Resolved \<Rightarrow> (Inr h, c)
          | Failed e \<Rightarrow> (Inl e, c\<lparr>table := removeAll cid (table c)\<rparr>)
          | _ \<Rightarrow> (Inl RequestTimeoutError,
                 c\<lparr>store := (store c)(cid \<mapsto> h\<lparr>rh_has_more := False, rh_future := Cancelled\<rparr>),
                   table := removeAll cid (table c)\<rparr>)))"

text \<open>
  \<open>_next_chunk\<close> (lines 108--116) as called by \<open>fetch_more\<close> (lines 201--212): the next queued
  chunk, or, on an empty queue, the time-out. A response without a queue raises.
\<close>

definition next_chunk :: "frame \<Rightarrow> client \<Rightarrow> (string \<times> bool) result \<times> client" where
  "next_chunk cid c =
     (case store c cid of
        None \<Rightarrow> (Inl KeyError, c)
      | Some h \<Rightarrow>
         (case rh_chunks h of
            None \<Rightarrow> (Inl AttributeError, c\<lparr>table := removeAll cid (table c)\<rparr>)
          | Some [] \<Rightarrow> (Inl RequestTimeoutError,
                c\<lparr>store := (store c)(cid \<mapsto> h\<lparr>rh_has_more := False\<rparr>), table := removeAll cid (table c)\<rparr>)
          | Some (x # q) \<Rightarrow> (Inr x, c\<lparr>store := (store c)(cid \<mapsto> h\<lparr>rh_chunks := Some q\<rparr>)\<rparr>)))"

text \<open>
  \<open>fetch_more\<close>: it yields the data of every chunk that announces more and stops at the first
  one that does not (whose data is not yielded). The fuel bounds the number of chunks; the queue
  length suffices, since every round takes one chunk or stops. The second component is the
  exception that ended the generator, if any.
\<close>

fun fetch_more :: "nat \<Rightarrow> frame \<Rightarrow> client \<Rightarrow> string list \<times> exn option \<times> client" where
  "fetch_more 0 cid c = ([], None, c)"
| "fetch_more (Suc n) cid c =
     (case next_chunk cid c of
        (Inl e, c1) \<Rightarrow> ([], Some e, c1)
      | (Inr (d, mo), c1) \<Rightarrow>
          if \<not> mo then ([], None, c1)
          else (let (ds, e, c2) = fetch_more n cid c1 in (d # ds, e, c2)))"

definition terminate_client :: "client \<Rightarrow> client" where
  "terminate_client c = c\<lparr>table := []\<rparr>"

section \<open>The client as a step system\<close>

datatype client_event =
    EvSend bool frame
  | EvRecv frame wire "string list"
  | EvResume frame
  | EvNext frame
  | EvTerminate

fun client_step :: "client \<Rightarrow> client_event \<Rightarrow> client" where
  "client_step c (EvSend ok cid) = snd (fetch_send ok cid c)"
| "client_step c (EvRecv cid w rest) = client_recv cid w rest c"
| "client_step c (EvResume cid) = snd (fetch_resume cid c)"
| "client_step c (EvNext cid) = snd (next_chunk cid c)"
| "client_step c EvTerminate = terminate_client c"

text \<open>
  The table names existing handlers once; a registered handler that has received nothing is
  pending, and one that expects chunks has a queue.
\<close>

definition handler_wf :: "rhandler \<Rightarrow> bool" where
  "handler_wf h \<longleftrightarrow> (rh_has_more h \<longrightarrow> rh_chunks h \<noteq> None \<and> rh_status h = 206)
     \<and> (rh_chunks h \<noteq> None \<longrightarrow> rh_status h = 206)"

definition client_inv :: "client \<Rightarrow> bool" where
  "client_inv c \<longleftrightarrow> distinct (table c) \<and> (\<forall>cid \<in> set (table c). store c cid \<noteq> None)
     \<and> (\<forall>cid h. store c cid = Some h \<longrightarrow> handler_wf h)"

lemma handler_wf_init: "handler_wf rhandler_init"
  by (simp add: handler_wf_def rhandler_init_def)

lemma rh_set_exception_wf: "handler_wf h \<Longrightarrow> rh_set_exception e h = (r, h') \<Longrightarrow> handler_wf h'"
  by (auto simp: rh_set_exception_def handler_wf_def Let_def split: if_splits)

lemma rh_set_result_wf: "handler_wf h \<Longrightarrow> rh_set_result w h = (r, h') \<Longrightarrow> handler_wf h'"
  by (auto simp: rh_set_result_def handler_wf_def Let_def split: if_splits wire.splits payload.splits option.splits)

lemma client_recv_cases:
  obtains (ignored) "client_recv cid w rest c = c"
  | (raised) h h1 e where "store c cid = Some h" "cid \<in> set (table c)"
      "client_recv cid w rest c = c\<lparr>store := (store c)(cid \<mapsto> h1)\<rparr>"
      "rh_set_exception (RequestProxyError (hd rest)) h = (Some e, h1) \<or> rh_set_result w h = (Some e, h1)"
  | (updated) h h1 where "store c cid = Some h" "cid \<in> set (table c)"
      "client_recv cid w rest c = c\<lparr>store := (store c)(cid \<mapsto> h1),
         table := (if rh_done h1 then removeAll cid (table c) else table c)\<rparr>"
      "rh_set_exception (RequestProxyError (hd rest)) h = (None, h1) \<or> rh_set_result w h = (None, h1)"
proof (cases "cid \<in> set (table c) \<and> store c cid \<noteq> None")
  case False
  then have "client_recv cid w rest c = c" by (auto simp: client_recv_def)
  then show ?thesis by (rule ignored)
next
  case True
  then obtain h where h: "store c cid = Some h" and m: "cid \<in> set (table c)" by auto
  define out where "out = (if rest \<noteq> [] \<and> w = Raw ''ERR''
    then rh_set_exception (RequestProxyError (hd rest)) h else rh_set_result w h)"
  obtain r h1 where o: "out = (r, h1)" by (cases out)
  then have or: "rh_set_exception (RequestProxyError (hd rest)) h = (r, h1) \<or> rh_set_result w h = (r, h1)"
    by (auto simp: out_def split: if_splits)
  show ?thesis
  proof (cases r)
    case None
    with h m o or show ?thesis
      by (intro updated [of h h1]) (auto simp: client_recv_def Let_def simp flip: out_def)
  next
    case (Some e)
    with h m o or show ?thesis
      by (intro raised [of h h1 e]) (auto simp: client_recv_def simp flip: out_def)
  qed
qed

lemma client_inv_update:
  assumes "client_inv c" and "handler_wf h1"
  shows "client_inv (c\<lparr>store := (store c)(cid \<mapsto> h1)\<rparr>)"
    and "client_inv (c\<lparr>store := (store c)(cid \<mapsto> h1), table := removeAll cid (table c)\<rparr>)"
  using assms by (auto simp: client_inv_def distinct_removeAll)

lemma client_step_inv: "client_inv c \<Longrightarrow> client_inv (client_step c e)"
proof (cases e)
  case (EvSend ok cid)
  moreover assume "client_inv c"
  ultimately show ?thesis by (auto simp: fetch_send_def client_inv_def handler_wf_init)
next
  case (EvRecv cid w rest)
  assume inv: "client_inv c"
  show ?thesis
  proof (cases rule: client_recv_cases [of cid w rest c])
    case ignored
    with inv EvRecv show ?thesis by simp
  next
    case (raised h h1 e)
    have "handler_wf h" using inv raised(1) unfolding client_inv_def by blast
    with raised(4) have "handler_wf h1" using rh_set_exception_wf rh_set_result_wf by blast
    then have "client_inv (c\<lparr>store := (store c)(cid \<mapsto> h1)\<rparr>)"
      by (rule client_inv_update(1) [OF inv])
    with raised(3) EvRecv show ?thesis by simp
  next
    case (updated h h1)
    have "handler_wf h" using inv updated(1) unfolding client_inv_def by blast
    with updated(4) have wf: "handler_wf h1" using rh_set_exception_wf rh_set_result_wf by blast
    show ?thesis
    proof (cases "rh_done h1")
      case True
      with client_inv_update(2) [OF inv wf] updated(3) EvRecv show ?thesis by simp
    next
      case False
      with client_inv_update(1) [OF inv wf] updated(3) EvRecv show ?thesis by simp
    qed
  qed
next
  case (EvResume cid)
  moreover assume "client_inv c"
  ultimately show ?thesis
    by (auto simp: fetch_resume_def client_inv_def handler_wf_def distinct_removeAll
        split: option.splits future.splits)
next
  case (EvNext cid)
  moreover assume "client_inv c"
  ultimately show ?thesis
    by (auto simp: next_chunk_def client_inv_def handler_wf_def distinct_removeAll
        split: option.splits list.splits)
next
  case EvTerminate
  moreover assume "client_inv c"
  ultimately show ?thesis by (auto simp: terminate_client_def client_inv_def)
qed

interpretation client_sys: step_system client_step client_inv
  by unfold_locales (rule client_step_inv)

lemma client_inv_init: "client_inv client_init"
  by (simp add: client_inv_def client_init_def)

end
