(* ===== verification/Streaming.thy ===== *)
theory Streaming
  imports Response Client
begin

text \<open>
  End to end: what QGIS writes into a worker's response (\<open>Response\<close>), the messages it becomes
  (\<open>Worker\<close>), and what the front end reads back (\<open>Client\<close> and the body loop of
  \<open>handle_request\<close> in \<open>src/pyqgisserver/handlers/asynchandler.py\<close>). The broker forwards the
  messages of a worker unchanged and in order (\<open>Broker\<close>, action \<open>Reply\<close>).
\<close>

section \<open>A response program and its messages\<close>

datatype rop = Write string | Flush

fun run_rops :: "rop list \<Rightarrow> response \<Rightarrow> response" where
  "run_rops [] r = r"
| "run_rops (Write d # ops) r = run_rops ops (rs_write d r)"
| "run_rops (Flush # ops) r = run_rops ops (snd (flush r))"

fun written :: "rop list \<Rightarrow> string" where
  "written [] = []"
| "written (Write d # ops) = d @ written ops"
| "written (Flush # ops) = written ops"

definition serve :: "rop list \<Rightarrow> response \<Rightarrow> payload list" where
  "serve ops r = h_payloads (rs_h (snd (finish (run_rops ops r))))"

lemma written_append [simp]: "written (xs @ ys) = written xs @ written ys"
  by (induction xs rule: written.induct) auto

lemma run_rops_append [simp]: "run_rops (xs @ ys) r = run_rops ys (run_rops xs r)"
  by (induction xs arbitrary: r rule: written.induct) auto

lemma run_writes: "Flush \<notin> set ops \<Longrightarrow> run_rops ops r = r\<lparr>buf := buf r @ written ops\<rparr>"
proof (induction ops arbitrary: r)
  case (Cons x ops)
  then show ?case by (cases x) (auto simp: rs_write_def)
qed simp

lemma rs_write_simps [simp]:
  "calm (rs_write d r) = calm r" "rs_h (rs_write d r) = rs_h r" "fin (rs_write d r) = fin r"
  "buf (rs_write d r) = buf r @ d" "meta_of (rs_write d r) = meta_of r" "statusCode (rs_write d r) = statusCode r"
  by (simp_all add: rs_write_def statusCode_def)

definition chunk_list :: "meta option \<Rightarrow> string list \<Rightarrow> payload list" where
  "chunk_list m ds = map (\<lambda>d. PChunk d True m) ds"

text \<open>Once a 206 header is out, everything written afterwards becomes chunks, then the end marker.\<close>

lemma serve_streamed:
  assumes "calm r" "header_written (rs_h r)" "\<not> fin r" "statusCode r = 206"
  shows "\<exists>ds. serve ops r = h_payloads (rs_h r) @ chunk_list (meta_of r) ds @ [PChunk [] False (meta_of r)]
    \<and> concat ds = buf r @ written ops"
  using assms
proof (induction ops arbitrary: r)
  case Nil
  with finish_stream [of r] show ?case
    by (intro exI [of _ "[buf r]"]) (auto simp: serve_def chunk_list_def)
next
  case (Cons x ops)
  show ?case
  proof (cases x)
    case (Write d)
    with Cons.IH [of "rs_write d r"] Cons.prems show ?thesis by (simp add: serve_def)
  next
    case Flush
    from flush_chunk [OF Cons.prems] obtain r' where r': "flush r = (None, r')" "calm r'"
      "header_written (rs_h r')" "\<not> fin r'" "buf r' = []"
      "h_payloads (rs_h r') = h_payloads (rs_h r) @ [PChunk (buf r) True (meta_of r)]"
      "statusCode r' = 206" "meta_of r' = meta_of r" by blast
    from Cons.IH [OF r'(2,3,4,7)] obtain ds where
      "serve ops r' = h_payloads (rs_h r') @ chunk_list (meta_of r') ds @ [PChunk [] False (meta_of r')]"
      "concat ds = buf r' @ written ops" by blast
    with Flush r' show ?thesis
      by (intro exI [of _ "buf r # ds"]) (simp add: serve_def chunk_list_def)
  qed
qed

lemma serve_dropped:
  assumes "calm r" "header_written (rs_h r)" "statusCode r \<noteq> 206"
  shows "serve ops r = h_payloads (rs_h r)"
  using assms
proof (induction ops arbitrary: r)
  case Nil
  with finish_dropped [of r] show ?case by (auto simp: serve_def)
next
  case (Cons x ops)
  show ?case
  proof (cases x)
    case (Write d)
    with Cons.IH [of "rs_write d r"] Cons.prems show ?thesis by (simp add: serve_def)
  next
    case Flush
    with Cons.IH [of "snd (flush r)"] Cons.prems flush_dropped [OF Cons.prems] show ?thesis
      by (auto simp: serve_def)
  qed
qed

text \<open>A response that has not been used yet.\<close>

definition fresh :: "response \<Rightarrow> bool" where
  "fresh r \<longleftrightarrow> calm r \<and> \<not> header_written (rs_h r) \<and> sent (rs_h r) = [] \<and> \<not> fin r \<and> buf r = []"

lemma serve_single:
  assumes "fresh r" and "Flush \<notin> set ops"
  shows "\<exists>hs. serve ops r = [PReply (statusCode r) hs (written ops) (meta_of r)]"
  using finish_single [of "r\<lparr>buf := written ops\<rparr>"] assms
  by (auto simp: serve_def run_writes fresh_def statusCode_def)

lemma serve_split:
  assumes "fresh r" and "Flush \<notin> set pre"
  shows "\<exists>hs r'. serve (pre @ Flush # ops) r = serve ops r' \<and> calm r' \<and> header_written (rs_h r')
    \<and> \<not> fin r' \<and> buf r' = [] \<and> statusCode r' = stream_status (statusCode r) \<and> meta_of r' = meta_of r
    \<and> h_payloads (rs_h r') = [PReply (stream_status (statusCode r)) hs (written pre) (meta_of r)]"
proof -
  let ?r = "r\<lparr>buf := written pre\<rparr>"
  from flush_first [of ?r] assms obtain r' where r': "flush ?r = (None, r')" "calm r'"
    "header_written (rs_h r')" "\<not> fin r'" "buf r' = []"
    "h_payloads (rs_h r') = [PReply (stream_status (statusCode r)) (rs_headers ?r) (written pre) (meta_of r)]"
    "statusCode r' = stream_status (statusCode r)" "meta_of r' = meta_of r"
    by (auto simp: fresh_def statusCode_def)
  moreover have "serve (pre @ Flush # ops) r = serve ops r'"
    using r'(1) assms by (simp add: serve_def run_writes fresh_def)
  ultimately show ?thesis by (intro exI conjI)
qed

section \<open>The reading side\<close>

definition deliver :: "frame \<Rightarrow> payload list \<Rightarrow> client \<Rightarrow> client" where
  "deliver cid ps c = foldl (\<lambda>c p. client_recv cid (Pickled p) [] c) c ps"

lemma deliver_simps [simp]:
  "deliver cid [] c = c"
  "deliver cid (p # ps) c = deliver cid ps (client_recv cid (Pickled p) [] c)"
  by (simp_all add: deliver_def)

lemma deliver_append: "deliver cid (ps @ qs) c = deliver cid qs (deliver cid ps c)"
  by (simp add: deliver_def)

text \<open>
  The body that \<open>handle_request\<close> (lines 122--160) writes: status and data of the reply, then, for
  a 206, the data of the chunks. The third component is the exception that interrupts it.
\<close>

definition read_body :: "nat \<Rightarrow> frame \<Rightarrow> client \<Rightarrow> int \<times> string \<times> exn option" where
  "read_body n cid c =
     (case fetch_resume cid c of
        (Inl e, c1) \<Rightarrow> (0, [], Some e)
      | (Inr h, c1) \<Rightarrow>
          (let d = (case rh_data h of None \<Rightarrow> [] | Some d \<Rightarrow> d) in
           if rh_status h = 206 then
             (case fetch_more n cid c1 of (ds, e, c2) \<Rightarrow> (206, d @ concat ds, e))
           else (rh_status h, d, None)))"

definition registered :: "frame \<Rightarrow> rhandler \<Rightarrow> client \<Rightarrow> bool" where
  "registered cid h c \<longleftrightarrow> cid \<in> set (table c) \<and> store c cid = Some h"

lemma recv_reply:
  assumes "registered cid rhandler_init c" and "s \<noteq> -1"
  shows "\<exists>h c'. client_recv cid (Pickled (PReply s hs d m)) [] c = c' \<and> store c' cid = Some h
    \<and> rh_future h = Resolved \<and> rh_status h = s \<and> rh_data h = Some d
    \<and> rh_chunks h = (if s = 206 then Some [] else None) \<and> rh_has_more h = (s = 206)
    \<and> (cid \<in> set (table c')) = (s = 206)"
  using assms
  by (auto simp: registered_def client_recv_def rh_set_result_def rhandler_init_def Let_def
      future_done_def rh_done_def)

lemma recv_chunk:
  assumes "registered cid h c" and "rh_status h = 206" and "rh_has_more h" and "rh_chunks h = Some q"
    and "rh_future h = Resolved"
  shows "\<exists>h' c'. client_recv cid (Pickled (PChunk d mo m)) [] c = c' \<and> store c' cid = Some h'
    \<and> rh_future h' = Resolved \<and> rh_status h' = 206 \<and> rh_data h' = rh_data h
    \<and> rh_chunks h' = Some (q @ [(d, mo)]) \<and> rh_has_more h' = mo \<and> (cid \<in> set (table c')) = mo"
  using assms
  by (cases mo) (auto simp: registered_def client_recv_def rh_set_result_def Let_def future_done_def rh_done_def)

lemma deliver_chunks:
  assumes "registered cid h c" and "rh_status h = 206" and "rh_has_more h" and "rh_chunks h = Some q"
    and "rh_future h = Resolved"
  shows "\<exists>h' c'. deliver cid (chunk_list m ds @ [PChunk [] False m]) c = c' \<and> store c' cid = Some h'
    \<and> rh_future h' = Resolved \<and> rh_status h' = 206 \<and> rh_data h' = rh_data h
    \<and> rh_chunks h' = Some (q @ map (\<lambda>d. (d, True)) ds @ [([], False)]) \<and> cid \<notin> set (table c')"
  using assms
proof (induction ds arbitrary: h c q)
  case Nil
  with recv_chunk [OF Nil, of "[]" False m] show ?case by (auto simp: chunk_list_def)
next
  case (Cons d ds)
  from recv_chunk [OF Cons.prems, of d True m] obtain h1 c1 where 1:
    "client_recv cid (Pickled (PChunk d True m)) [] c = c1" "registered cid h1 c1"
    "rh_status h1 = 206" "rh_has_more h1" "rh_chunks h1 = Some (q @ [(d, True)])"
    "rh_future h1 = Resolved" "rh_data h1 = rh_data h"
    by (auto simp: registered_def)
  from Cons.IH [OF 1(2-6)] 1(1,7) show ?case by (auto simp: chunk_list_def)
qed

lemma fetch_more_all:
  assumes "store c cid = Some h" and "rh_chunks h = Some (map (\<lambda>d. (d, True)) ds @ [(x, False)])"
    and "length ds < n"
  shows "\<exists>c'. fetch_more n cid c = (ds, None, c')"
  using assms
proof (induction ds arbitrary: n c h)
  case Nil
  then obtain n' where "n = Suc n'" by (cases n) auto
  with Nil show ?case by (simp add: next_chunk_def)
next
  case (Cons d ds)
  then obtain n' where n: "n = Suc n'" "length ds < n'" by (cases n) auto
  let ?h = "h\<lparr>rh_chunks := Some (map (\<lambda>d. (d, True)) ds @ [(x, False)])\<rparr>"
  have "\<exists>c'. fetch_more n' cid (c\<lparr>store := (store c)(cid \<mapsto> ?h)\<rparr>) = (ds, None, c')"
    by (rule Cons.IH [where h = ?h]) (use n in auto)
  with Cons.prems n show ?case by (auto simp: next_chunk_def)
qed

section \<open>What arrives\<close>

lemma read_reply:
  assumes "registered cid rhandler_init c" and "s \<noteq> -1" and "s \<noteq> 206"
  shows "read_body n cid (deliver cid [PReply s hs d m] c) = (s, d, None)
    \<and> cid \<notin> set (table (deliver cid [PReply s hs d m] c))"
  using recv_reply [OF assms(1,2), of hs d m] assms(3)
  by (auto simp: read_body_def fetch_resume_def)

lemma read_stream:
  assumes "registered cid rhandler_init c" and "length ds < n"
  shows "read_body n cid (deliver cid (PReply 206 hs d m # chunk_list m' ds @ [PChunk [] False m']) c)
      = (206, d @ concat ds, None)
    \<and> cid \<notin> set (table (deliver cid (PReply 206 hs d m # chunk_list m' ds @ [PChunk [] False m']) c))"
proof -
  from recv_reply [OF assms(1), of 206 hs d m] obtain h c1 where 1:
    "client_recv cid (Pickled (PReply 206 hs d m)) [] c = c1" "registered cid h c1" "rh_status h = 206"
    "rh_has_more h" "rh_chunks h = Some []" "rh_future h = Resolved" "rh_data h = Some d"
    by (auto simp: registered_def)
  from deliver_chunks [OF 1(2-6), of m' ds] obtain h' c2 where 2:
    "deliver cid (chunk_list m' ds @ [PChunk [] False m']) c1 = c2" "store c2 cid = Some h'"
    "rh_future h' = Resolved" "rh_status h' = 206" "rh_data h' = rh_data h"
    "rh_chunks h' = Some (map (\<lambda>d. (d, True)) ds @ [([], False)])" "cid \<notin> set (table c2)"
    by auto
  from fetch_more_all [OF 2(2,6) assms(2)] obtain c3 where "fetch_more n cid c2 = (ds, None, c3)" by blast
  with 1(1,7) 2 show ?thesis by (simp add: read_body_def fetch_resume_def)
qed

lemma first_flush:
  obtains "Flush \<notin> set ops" | pre post where "ops = pre @ Flush # post" "Flush \<notin> set pre"
  by (metis split_list_first)

lemma stream_delivered:
  assumes "fresh r" and "statusCode r = 200" and "registered cid rhandler_init c"
    and "length (serve ops r) \<le> n"
  shows "read_body n cid (deliver cid (serve ops r) c)
      = (if Flush \<in> set ops then 206 else 200, written ops, None)
    \<and> cid \<notin> set (table (deliver cid (serve ops r) c))"
proof (rule first_flush [of ops])
  assume no: "Flush \<notin> set ops"
  from serve_single [OF assms(1) no] assms(2) obtain hs
    where "serve ops r = [PReply 200 hs (written ops) (meta_of r)]" by auto
  with no read_reply [OF assms(3), of 200] show ?thesis by simp
next
  fix pre post assume ops: "ops = pre @ Flush # post" "Flush \<notin> set pre"
  from serve_split [OF assms(1) ops(2), of post] assms(2) obtain hs r' where r':
    "serve ops r = serve post r'" "calm r'" "header_written (rs_h r')" "\<not> fin r'" "buf r' = []"
    "statusCode r' = 206" "meta_of r' = meta_of r"
    "h_payloads (rs_h r') = [PReply 206 hs (written pre) (meta_of r)]"
    by (auto simp: ops(1) stream_status_def)
  from serve_streamed [OF r'(2,3,4,6), of post] r' obtain ds where ds:
    "serve ops r = PReply 206 hs (written pre) (meta_of r) # chunk_list (meta_of r) ds @ [PChunk [] False (meta_of r)]"
    "concat ds = written post" by auto
  from ds(1) assms(4) have "length ds < n" by (simp add: chunk_list_def)
  from read_stream [OF assms(3) this] ds ops show ?thesis by simp
qed

text \<open>
  C7: a response produced with status 200, with any interleaving of writes and flushes before
  it is finished, reaches the front end whole: reading the worker's messages gives exactly the
  bytes written, in order, without an error, and the exchange leaves the client's table. The
  status on the wire is 206 when the response was flushed before its end, else 200.
\<close>

theorem stream_roundtrip:
  assumes "fresh r" and "statusCode r = 200" and "registered cid rhandler_init c"
    and "length (serve ops r) \<le> n"
  shows "read_body n cid (deliver cid (serve ops r) c)
      = (if Flush \<in> set ops then 206 else 200, written ops, None)
    \<and> cid \<notin> set (table (deliver cid (serve ops r) c))"
  by (rule stream_delivered [OF assms])

definition sample_response :: "int \<Rightarrow> response" where
  "sample_response s = setStatusCode s (response_init (zhandler_init ''c'' ''m'' (\<lambda>_. True)) None)"

definition sample_client :: client where
  "sample_client = snd (fetch_send True ''m'' client_init)"

lemma sample_facts:
  "fresh (sample_response s)" "statusCode (sample_response s) = s" "registered ''m'' rhandler_init sample_client"
  by (simp_all add: sample_response_def sample_client_def fresh_def calm_def get_metadata_def response_init_def
      zhandler_init_def setStatusCode_def statusCode_def registered_def fetch_send_def client_init_def)

theorem stream_roundtrip_witness:
  "read_body 9 ''m'' (deliver ''m'' (serve [Write ''ab'', Flush, Write ''c'', Flush, Write ''d''] (sample_response 200)) sample_client)
     = (206, ''abcd'', None)"
proof -
  have "length (serve [Write ''ab'', Flush, Write ''c'', Flush, Write ''d''] (sample_response 200)) \<le> 9"
    by (simp add: serve_def sample_response_def response_init_def zhandler_init_def setStatusCode_def
        rs_write_def rs_simps get_metadata_def h_payloads_def)
  from stream_roundtrip [OF sample_facts(1) sample_facts(2) sample_facts(3) this] show ?thesis by simp
qed

text \<open>
  C39: a response whose status is neither 200 nor 206 and that is flushed before its end arrives
  truncated: the front end reads only what was written before the first flush, with no error,
  because \<open>send\<close> sends chunks only under status 206.
\<close>

theorem stream_truncated:
  assumes "fresh r" and "statusCode r \<notin> {-1, 200, 206}" and "registered cid rhandler_init c"
    and "Flush \<notin> set pre"
  shows "read_body n cid (deliver cid (serve (pre @ Flush # post) r) c) = (statusCode r, written pre, None)"
proof -
  from serve_split [OF assms(1,4), of post] assms(2) obtain hs r' where r':
    "serve (pre @ Flush # post) r = serve post r'" "calm r'" "header_written (rs_h r')"
    "statusCode r' \<noteq> 206" "h_payloads (rs_h r') = [PReply (statusCode r) hs (written pre) (meta_of r)]"
    by (auto simp: stream_status_def)
  from serve_dropped [OF r'(2,3,4), of post] r'(1,5)
  have "serve (pre @ Flush # post) r = [PReply (statusCode r) hs (written pre) (meta_of r)]" by simp
  with read_reply [OF assms(3)] assms(2) show ?thesis by simp
qed

theorem stream_truncated_witness:
  "read_body 9 ''m'' (deliver ''m'' (serve ([Write ''ab''] @ Flush # [Write ''cd'']) (sample_response 404)) sample_client)
     = (404, ''ab'', None)"
  using stream_truncated [OF sample_facts(1) _ sample_facts(3), of 404 "[Write ''ab'']"]
  by (simp add: sample_facts)

text \<open>
  a response given status 206 explicitly and finished without an earlier flush is one
  message with no end marker; the front end takes it for a stream, waits for a chunk that never
  comes and ends in a time-out.
\<close>

theorem explicit_206_times_out:
  assumes "fresh r" and "statusCode r = 206" and "registered cid rhandler_init c"
    and "Flush \<notin> set ops" and "0 < n"
  shows "read_body n cid (deliver cid (serve ops r) c) = (206, written ops, Some RequestTimeoutError)"
proof -
  from serve_single [OF assms(1,4)] assms(2) obtain hs
    where s: "serve ops r = [PReply 206 hs (written ops) (meta_of r)]" by auto
  from recv_reply [OF assms(3), of 206 hs "written ops" "meta_of r"] obtain h c' where
    "client_recv cid (Pickled (PReply 206 hs (written ops) (meta_of r))) [] c = c'" "store c' cid = Some h"
    "rh_future h = Resolved" "rh_status h = 206" "rh_data h = Some (written ops)" "rh_chunks h = Some []"
    by auto
  with s assms(5) show ?thesis
    by (cases n) (auto simp: read_body_def fetch_resume_def next_chunk_def)
qed

theorem explicit_206_times_out_witness:
  "read_body 9 ''m'' (deliver ''m'' (serve [Write ''ab''] (sample_response 206)) sample_client)
     = (206, ''ab'', Some RequestTimeoutError)"
  using explicit_206_times_out [OF sample_facts(1) sample_facts(2) sample_facts(3), of "[Write ''ab'']" 9] by simp

end
