(* ===== verification/Lru.thy ===== *)
theory Lru
  imports Prelude
begin

text \<open>
  \<open>src/pyqgisserver/utils/lru.py\<close>: the LRU cache on an \<open>OrderedDict\<close>. The table
  lists entries from the least to the most recently used; the capacity is Python's integer.
  The abstract specification is the recency list (most recent first): insertion puts the entry
  in front and truncates, access moves it to the front.
\<close>

record ('k, 'v) lru =
  table :: "('k, 'v) odict"
  capacity :: int

section \<open>Operations\<close>

text \<open>\<open>OrderedDict.move_to_end\<close> and the two eviction loops of the class.\<close>

definition move_to_end :: "'k \<Rightarrow> ('k, 'v) odict \<Rightarrow> ('k, 'v) odict result" where
  "move_to_end k d = (case od_get d k of None \<Rightarrow> Inl KeyError | Some v \<Rightarrow> Inr (od_del k d @ [(k, v)]))"

text \<open>\<open>while len(table) >= capacity: table.popitem(last=False)\<close>; popping an empty table raises.\<close>

fun evict_ge :: "int \<Rightarrow> ('k, 'v) odict \<Rightarrow> ('k, 'v) odict result" where
  "evict_ge n [] = (if 0 \<ge> n then Inl KeyError else Inr [])"
| "evict_ge n (x # xs) = (if int (length (x # xs)) \<ge> n then evict_ge n xs else Inr (x # xs))"

text \<open>\<open>while len(d) > size: d.popitem(last=False)\<close>.\<close>

fun evict_gt :: "int \<Rightarrow> ('k, 'v) odict \<Rightarrow> ('k, 'v) odict result" where
  "evict_gt n [] = (if 0 > n then Inl KeyError else Inr [])"
| "evict_gt n (x # xs) = (if int (length (x # xs)) > n then evict_gt n xs else Inr (x # xs))"

definition lru_size :: "int option \<Rightarrow> ('k, 'v) lru \<Rightarrow> (int \<times> ('k, 'v) lru) result" where
  "lru_size sz c = (case sz of
       None \<Rightarrow> Inr (capacity c, c)
     | Some n \<Rightarrow>
         if \<not> n > 0 then Inl AssertionError
         else rbind (if n < capacity c then evict_gt n (table c) else Inr (table c))
                (\<lambda>d. Inr (n, c\<lparr>table := d, capacity := n\<rparr>)))"

definition lru_init :: "int \<Rightarrow> ('k, 'v) lru result" where
  "lru_init n = rbind (lru_size (Some n) \<lparr>table = [], capacity = n\<rparr>) (\<lambda>(_, c). Inr c)"

definition lru_len :: "('k, 'v) lru \<Rightarrow> nat" where
  "lru_len c = length (table c)"

definition lru_clear :: "('k, 'v) lru \<Rightarrow> ('k, 'v) lru" where
  "lru_clear c = c\<lparr>table := []\<rparr>"

definition lru_contains :: "'k \<Rightarrow> ('k, 'v) lru \<Rightarrow> bool" where
  "lru_contains k c = od_has k (table c)"

definition lru_peek :: "'k \<Rightarrow> ('k, 'v) lru \<Rightarrow> 'v option" where
  "lru_peek k c = od_get (table c) k"

definition lru_getitem :: "'k \<Rightarrow> ('k, 'v) lru \<Rightarrow> ('v \<times> ('k, 'v) lru) result" where
  "lru_getitem k c = rbind (move_to_end k (table c)) (\<lambda>d.
     case od_get d k of None \<Rightarrow> Inl KeyError | Some v \<Rightarrow> Inr (v, c\<lparr>table := d\<rparr>))"

definition lru_setitem :: "'k \<Rightarrow> 'v \<Rightarrow> ('k, 'v) lru \<Rightarrow> ('k, 'v) lru result" where
  "lru_setitem k v c =
     (let d = (if od_has k (table c) then od_del k (table c) else table c)
      in rbind (evict_ge (capacity c) d) (\<lambda>d'. Inr (c\<lparr>table := od_set k v d'\<rparr>)))"

definition lru_delitem :: "'k \<Rightarrow> ('k, 'v) lru \<Rightarrow> ('k, 'v) lru result" where
  "lru_delitem k c = (if od_has k (table c) then Inr (c\<lparr>table := od_del k (table c)\<rparr>) else Inl KeyError)"

definition lru_items :: "('k, 'v) lru \<Rightarrow> ('k \<times> 'v) list" where
  "lru_items c = rev (table c)"

definition lru_keys :: "('k, 'v) lru \<Rightarrow> 'k list" where
  "lru_keys c = rev (od_keys (table c))"

definition lru_values :: "('k, 'v) lru \<Rightarrow> 'v list" where
  "lru_values c = rev (map snd (table c))"

section \<open>Well-formedness\<close>

definition lru_wf :: "('k, 'v) lru \<Rightarrow> bool" where
  "lru_wf c \<longleftrightarrow> od_wf (table c) \<and> 0 < capacity c \<and> int (length (table c)) \<le> capacity c"

named_theorems lru_defs
declare lru_len_def [lru_defs] lru_clear_def [lru_defs] lru_contains_def [lru_defs]
  lru_peek_def [lru_defs] lru_items_def [lru_defs] lru_keys_def [lru_defs] lru_values_def [lru_defs]

text \<open>The eviction loops drop a prefix, and stop without error when the bound is positive.\<close>

lemma evict_ge_eq:
  "0 < n \<Longrightarrow> evict_ge n d = Inr (drop (nat (int (length d) - n + 1)) d)"
proof (induction n d rule: evict_ge.induct)
  case (2 n x xs)
  then show ?case
    by (auto simp: Suc_nat_eq_nat_zadd1 nat_diff_distrib' drop_Cons' nat_le_iff intro!: arg_cong2 [of _ _ _ _ drop])
qed simp

lemma evict_gt_eq:
  "0 < n \<Longrightarrow> evict_gt n d = Inr (drop (nat (int (length d) - n)) d)"
proof (induction n d rule: evict_gt.induct)
  case (2 n x xs)
  then show ?case
    by (auto simp: drop_Cons' nat_le_iff intro!: arg_cong2 [of _ _ _ _ drop])
qed simp

lemma od_wf_drop: "od_wf d \<Longrightarrow> od_wf (drop n d)"
  by (simp add: od_wf_def od_keys_def drop_map [symmetric])

lemma od_has_drop: "\<not> od_has k d \<Longrightarrow> \<not> od_has k (drop n d)"
  by (auto simp: od_has_iff od_keys_def dest: in_set_dropD)

lemma od_has_del [simp]: "\<not> od_has k (od_del k d)"
  by (simp add: od_has_def)

lemma delete_filter: "od_del k d = filter (\<lambda>(j, w). j \<noteq> k) d"
  by (auto simp: AList.delete_eq case_prod_unfold intro: filter_cong)

text \<open>The table that an insertion leaves, for a positive capacity.\<close>

lemma lru_setitem_eq:
  assumes "0 < capacity c"
  shows "lru_setitem k v c = Inr (c\<lparr>table :=
     drop (nat (int (length (od_del k (table c))) - capacity c + 1)) (od_del k (table c)) @ [(k, v)]\<rparr>)"
proof -
  have d: "(if od_has k (table c) then od_del k (table c) else table c) = od_del k (table c)"
    by (simp add: od_has_def delete_idem map_of_eq_None_iff)
  have "\<And>n. k \<notin> set (od_keys (drop n (od_del k (table c))))"
    by (metis od_has_del od_has_drop od_has_iff)
  then show ?thesis
    by (simp add: lru_setitem_def d Let_def evict_ge_eq assms od_keys_set_new)
qed

section \<open>The recency list\<close>

text \<open>
  The abstract cache: entries from the most to the least recently used. An insertion puts the
  entry in front, drops the key's old entry and truncates to the capacity; an access moves the
  entry to the front.
\<close>

definition rl_put :: "nat \<Rightarrow> 'k \<Rightarrow> 'v \<Rightarrow> ('k \<times> 'v) list \<Rightarrow> ('k \<times> 'v) list" where
  "rl_put n k v xs = take n ((k, v) # filter (\<lambda>(j, w). j \<noteq> k) xs)"

definition rl_touch :: "'k \<Rightarrow> ('k \<times> 'v) list \<Rightarrow> ('k \<times> 'v) list" where
  "rl_touch k xs = (case map_of xs k of None \<Rightarrow> xs | Some v \<Rightarrow> (k, v) # filter (\<lambda>(j, w). j \<noteq> k) xs)"

lemma rev_drop_take: "rev (drop n d) = take (length d - n) (rev d)"
  by (cases "n \<le> length d") (simp_all add: take_rev)

lemma od_wf_append_new: "od_wf d \<Longrightarrow> k \<notin> set (od_keys d) \<Longrightarrow> od_wf (d @ [(k, v)])"
  by (simp add: od_wf_def od_keys_def)

lemma lru_setitem_items:
  assumes "lru_wf c" and "lru_setitem k v c = Inr c'"
  shows "lru_items c' = rl_put (nat (capacity c)) k v (lru_items c)"
proof -
  define d where "d = od_del k (table c)"
  define n where "n = nat (int (length d) - capacity c + 1)"
  have cap: "0 < capacity c" using assms(1) by (simp add: lru_wf_def)
  have "lru_items c' = (k, v) # take (length d - n) (rev d)"
    using assms(2) lru_setitem_eq [OF cap, of k v]
    by (auto simp: lru_items_def rev_drop_take [symmetric] simp flip: d_def n_def)
  also have "\<dots> = take (Suc (length d - n)) ((k, v) # rev d)" by simp
  also have "\<dots> = take (nat (capacity c)) ((k, v) # rev d)"
  proof (cases "int (length d) < capacity c")
    case True
    then show ?thesis by (simp add: n_def nat_less_iff Suc_leI)
  next
    case False
    then have "Suc (length d - n) = nat (capacity c)" using cap by (simp add: n_def)
    then show ?thesis by simp
  qed
  also have "rev d = filter (\<lambda>(j, w). j \<noteq> k) (lru_items c)"
    by (simp add: d_def lru_items_def delete_filter rev_filter)
  finally show ?thesis by (simp add: rl_put_def)
qed

lemma lru_setitem_ok:
  assumes "lru_wf c"
  obtains c' where "lru_setitem k v c = Inr c'" "lru_wf c'" "capacity c' = capacity c"
proof -
  define d where "d = od_del k (table c)"
  define n where "n = nat (int (length d) - capacity c + 1)"
  have cap: "0 < capacity c" and wf: "od_wf (drop n d)"
    using assms by (auto simp: lru_wf_def d_def intro: od_wf_drop)
  have "k \<notin> set (od_keys (drop n d))"
    by (metis od_has_del od_has_drop od_has_iff d_def)
  with wf have "od_wf (drop n d @ [(k, v)])" by (rule od_wf_append_new)
  moreover have "int (length (drop n d @ [(k, v)])) \<le> capacity c"
    using cap by (simp add: n_def)
  ultimately show ?thesis
    using that lru_setitem_eq [OF cap, of k v] cap
    by (simp add: lru_wf_def d_def n_def)
qed

lemma lru_getitem_miss: "\<not> lru_contains k c \<Longrightarrow> lru_getitem k c = Inl KeyError"
  by (simp add: lru_getitem_def move_to_end_def lru_contains_def od_has_def)

lemma length_delete_present: "od_wf d \<Longrightarrow> od_has k d \<Longrightarrow> length (od_del k d) = length d - 1"
proof (induction d)
  case (Cons kv d)
  obtain a b where kv: "kv = (a, b)" by (cases kv)
  show ?case
  proof (cases "a = k")
    case True
    with Cons.prems kv have "\<not> od_has k d" by (auto simp: od_wf_def od_keys_def od_has_iff)
    then show ?thesis
      using True kv by (simp add: od_has_def delete_idem map_of_eq_None_iff)
  next
    case False
    with Cons kv have "length (od_del k d) = length d - 1" and "d \<noteq> []"
      by (auto simp: od_wf_def od_keys_def od_has_iff)
    then show ?thesis using False kv by (cases d) auto
  qed
qed (simp add: od_has_def)

lemma lru_getitem_hit:
  assumes "lru_wf c" and "lru_peek k c = Some v"
  obtains c' where "lru_getitem k c = Inr (v, c')" "lru_wf c'" "capacity c' = capacity c"
    "lru_items c' = rl_touch k (lru_items c)"
proof -
  define d where "d = od_del k (table c) @ [(k, v)]"
  have wf: "od_wf (table c)" and hit: "od_get (table c) k = Some v"
    using assms by (auto simp: lru_wf_def lru_peek_def)
  have "k \<notin> set (od_keys (od_del k (table c)))" by (metis od_has_del od_has_iff)
  with wf have "od_wf d" by (simp add: d_def od_wf_append_new)
  moreover have "length d = length (table c)"
    using wf hit length_delete_present [of "table c" k]
    by (cases "table c") (auto simp: d_def od_has_def)
  ultimately have "lru_wf (c\<lparr>table := d\<rparr>)" using assms(1) by (simp add: lru_wf_def)
  moreover have "lru_getitem k c = Inr (v, c\<lparr>table := d\<rparr>)"
    using hit by (simp add: lru_getitem_def move_to_end_def d_def map_add_def map_of_append)
  moreover have "lru_items (c\<lparr>table := d\<rparr>) = rl_touch k (lru_items c)"
    using hit wf by (simp add: lru_items_def rl_touch_def d_def map_of_rev delete_filter rev_filter)
  ultimately show ?thesis by (intro that) auto
qed

lemma lru_peek_items: "lru_wf c \<Longrightarrow> lru_peek k c = map_of (lru_items c) k"
  by (simp add: lru_peek_def lru_items_def map_of_rev lru_wf_def)

lemma lru_keys_items: "lru_keys c = map fst (lru_items c)"
  by (simp add: lru_keys_def lru_items_def od_keys_def rev_map)

lemma lru_init_ok: "0 < n \<Longrightarrow> lru_init n = Inr \<lparr>table = [], capacity = n\<rparr>"
  by (simp add: lru_init_def lru_size_def)

lemma lru_init_bad: "n \<le> 0 \<Longrightarrow> lru_init n = Inl AssertionError"
  by (simp add: lru_init_def lru_size_def)

lemma lru_wf_init: "lru_init n = Inr c \<Longrightarrow> lru_wf c"
  by (cases "0 < n") (auto simp: lru_init_ok lru_init_bad lru_wf_def)

lemma lru_size_shrink:
  assumes "lru_wf c" and "0 < n"
  obtains c' where "lru_size (Some n) c = Inr (n, c')" "lru_wf c'" "capacity c' = n"
    "lru_items c' = take (nat n) (lru_items c)"
proof (cases "n < capacity c")
  case True
  define m where "m = nat (int (length (table c)) - n)"
  have "lru_size (Some n) c = Inr (n, c\<lparr>table := drop m (table c), capacity := n\<rparr>)"
    using True assms(2) by (simp add: lru_size_def evict_gt_eq m_def)
  moreover have "lru_wf (c\<lparr>table := drop m (table c), capacity := n\<rparr>)"
    using assms by (auto simp: lru_wf_def od_wf_drop m_def)
  moreover have "length (table c) - m = (if int (length (table c)) \<le> n then length (table c) else nat n)"
    using assms(2) by (auto simp: m_def)
  then have "lru_items (c\<lparr>table := drop m (table c), capacity := n\<rparr>) = take (nat n) (lru_items c)"
    by (auto simp: lru_items_def rev_drop_take)
  ultimately show ?thesis by (intro that) auto
next
  case False
  then show ?thesis
    using assms by (intro that [of "c\<lparr>capacity := n\<rparr>"]) (auto simp: lru_size_def lru_wf_def lru_items_def)
qed

lemma lru_delitem_ok:
  "lru_wf c \<Longrightarrow> lru_delitem k c = Inr c' \<Longrightarrow> lru_wf c'"
  by (auto simp: lru_delitem_def lru_wf_def length_delete_present split: if_splits)

section \<open>The cache as a keyed store\<close>

definition lru_put :: "'k \<Rightarrow> 'v \<Rightarrow> ('k, 'v) lru \<Rightarrow> ('k, 'v) lru" where
  "lru_put k v c = (case lru_setitem k v c of Inl e \<Rightarrow> c | Inr c' \<Rightarrow> c')"

lemma lru_put_eq: "lru_wf c \<Longrightarrow> lru_setitem k v c = Inr (lru_put k v c)"
  by (auto simp: lru_put_def elim: lru_setitem_ok [of c k v])

lemma lru_put_wf: "lru_wf c \<Longrightarrow> lru_wf (lru_put k v c)"
  by (metis Inr_inject lru_put_eq lru_setitem_ok)

lemma lru_put_items: "lru_wf c \<Longrightarrow> lru_items (lru_put k v c) = rl_put (nat (capacity c)) k v (lru_items c)"
  by (rule lru_setitem_items) (simp_all add: lru_put_eq)

lemma lru_put_capacity: "lru_wf c \<Longrightarrow> capacity (lru_put k v c) = capacity c"
  by (metis Inr_inject lru_put_eq lru_setitem_ok)

lemma map_of_take_Some: "map_of (take n xs) k = Some v \<Longrightarrow> map_of xs k = Some v"
  by (metis append_take_drop_id map_add_SomeD map_of_append map_add_find_right map_add_Some_iff)

lemma map_of_filter_neq: "map_of (filter (\<lambda>(j, w). j \<noteq> k) xs) j = (if j = k then None else map_of xs j)"
  by (induction xs) auto

interpretation lru: keyed_store "\<lambda>c k. lru_peek k c" lru_put lru_wf
proof
  fix s :: "('a, 'b) lru" and k v assume s: "lru_wf s"
  show "lru_wf (lru_put k v s)" using s by (rule lru_put_wf)
  have n: "0 < nat (capacity s)" using s by (simp add: lru_wf_def)
  show "lru_peek k (lru_put k v s) = Some v"
    using n by (simp add: lru_peek_items lru_put_wf s lru_put_items rl_put_def take_Cons')
  fix j w assume "j \<noteq> k" and "lru_peek j (lru_put k v s) = Some w"
  with s show "lru_peek j s = Some w"
    by (auto simp: lru_peek_items lru_put_wf lru_put_items rl_put_def map_of_filter_neq
        dest: map_of_take_Some)
qed

section \<open>Runs refine the recency list\<close>

text \<open>
  A client's sequence of operations. A call that raises (a missing key, a non-positive size)
  leaves the cache as it was, and the abstract list too.
\<close>

datatype ('k, 'v) lru_op = OpSet 'k 'v | OpGet 'k | OpDel 'k | OpSize int | OpClear

fun lru_step :: "('k, 'v) lru \<Rightarrow> ('k, 'v) lru_op \<Rightarrow> ('k, 'v) lru" where
  "lru_step c (OpSet k v) = (case lru_setitem k v c of Inl e \<Rightarrow> c | Inr c' \<Rightarrow> c')"
| "lru_step c (OpGet k) = (case lru_getitem k c of Inl e \<Rightarrow> c | Inr (v, c') \<Rightarrow> c')"
| "lru_step c (OpDel k) = (case lru_delitem k c of Inl e \<Rightarrow> c | Inr c' \<Rightarrow> c')"
| "lru_step c (OpSize n) = (case lru_size (Some n) c of Inl e \<Rightarrow> c | Inr (m, c') \<Rightarrow> c')"
| "lru_step c OpClear = lru_clear c"

fun rl_step :: "int \<times> ('k \<times> 'v) list \<Rightarrow> ('k, 'v) lru_op \<Rightarrow> int \<times> ('k \<times> 'v) list" where
  "rl_step (n, xs) (OpSet k v) = (n, rl_put (nat n) k v xs)"
| "rl_step (n, xs) (OpGet k) = (n, rl_touch k xs)"
| "rl_step (n, xs) (OpDel k) = (n, filter (\<lambda>(j, w). j \<noteq> k) xs)"
| "rl_step (n, xs) (OpSize m) = (if m > 0 then (m, take (nat m) xs) else (n, xs))"
| "rl_step (n, xs) OpClear = (n, [])"

definition lru_abs :: "('k, 'v) lru \<Rightarrow> int \<times> ('k \<times> 'v) list" where
  "lru_abs c = (capacity c, lru_items c)"

lemma lru_step_get_abs:
  assumes "lru_wf c"
  shows "lru_wf (lru_step c (OpGet k)) \<and> lru_abs (lru_step c (OpGet k)) = rl_step (lru_abs c) (OpGet k)"
proof (cases "lru_peek k c")
  case None
  then have "\<not> lru_contains k c" by (simp add: lru_contains_def od_has_def lru_peek_def)
  with None assms show ?thesis
    by (simp add: lru_getitem_miss lru_abs_def rl_touch_def lru_peek_items)
next
  case (Some v)
  with assms obtain c' where "lru_getitem k c = Inr (v, c')" "lru_wf c'" "capacity c' = capacity c"
    "lru_items c' = rl_touch k (lru_items c)"
    by (rule lru_getitem_hit)
  then show ?thesis by (simp add: lru_abs_def)
qed

lemma lru_step_size_abs:
  assumes "lru_wf c"
  shows "lru_wf (lru_step c (OpSize n)) \<and> lru_abs (lru_step c (OpSize n)) = rl_step (lru_abs c) (OpSize n)"
proof (cases "0 < n")
  case True
  with assms obtain c' where "lru_size (Some n) c = Inr (n, c')" "lru_wf c'" "capacity c' = n"
    "lru_items c' = take (nat n) (lru_items c)"
    by (rule lru_size_shrink)
  then show ?thesis using True by (simp add: lru_abs_def)
next
  case False
  with assms show ?thesis by (simp add: lru_size_def lru_abs_def)
qed

lemma lru_step_del_abs:
  assumes "lru_wf c"
  shows "lru_wf (lru_step c (OpDel k)) \<and> lru_abs (lru_step c (OpDel k)) = rl_step (lru_abs c) (OpDel k)"
proof (cases "od_has k (table c)")
  case True
  with assms show ?thesis
    by (simp add: lru_delitem_def lru_abs_def lru_items_def delete_filter rev_filter)
      (metis True delete_filter lru_delitem_def lru_delitem_ok)
next
  case False
  then have "filter (\<lambda>(j, w). j \<noteq> k) (lru_items c) = lru_items c"
    by (auto simp: filter_id_conv lru_items_def od_has_iff od_keys_def rev_image_eqI)
  with False assms show ?thesis by (simp add: lru_delitem_def lru_abs_def)
qed

lemma lru_step_abs:
  assumes "lru_wf c"
  shows "lru_wf (lru_step c x) \<and> lru_abs (lru_step c x) = rl_step (lru_abs c) x"
proof (cases x)
  case (OpSet k v)
  with assms show ?thesis
    by (simp add: lru_put_eq lru_put_wf lru_abs_def lru_put_items lru_put_capacity)
next
  case OpClear
  with assms show ?thesis by (simp add: lru_clear_def lru_abs_def lru_wf_def lru_items_def)
next
  case (OpGet k)
  with assms show ?thesis by (simp only: lru_step_get_abs)
next
  case (OpDel k)
  with assms show ?thesis by (simp only: lru_step_del_abs)
next
  case (OpSize n)
  with assms show ?thesis by (simp only: lru_step_size_abs)
qed

interpretation lru_sys: functional_refinement lru_step lru_wf lru_abs rl_step
  by unfold_locales (simp_all add: lru_step_abs)

text \<open>
  C13: every sequence of assignments, accesses, deletions, resizings and clears keeps the cache
  within its (positive) capacity without duplicate keys, and its content, read from the most to
  the least recently used, is the one the abstract recency list computes: insertion in front and
  truncation, access moves to the front.
\<close>

theorem lru_run_refines:
  assumes "lru_wf c"
  shows "lru_wf (foldl lru_step c ops) \<and> lru_abs (foldl lru_step c ops) = foldl rl_step (lru_abs c) ops"
  using lru_sys.inv_run [OF assms] lru_sys.abs_run [OF assms] by blast

theorem lru_run_refines_witness:
  "lru_items (foldl lru_step \<lparr>table = [], capacity = 3\<rparr>
      [OpSet ''k1'' (1::nat), OpSet ''k2'' 2, OpSet ''k3'' 3, OpGet ''k1'', OpSet ''k4'' 4])
    = [(''k4'', 4), (''k1'', 1), (''k3'', 3)]"
proof -
  have "lru_wf (\<lparr>table = [], capacity = 3\<rparr> :: (string, nat) lru)" by (simp add: lru_wf_def)
  from lru_run_refines [OF this, of
      "[OpSet ''k1'' 1, OpSet ''k2'' 2, OpSet ''k3'' 3, OpGet ''k1'', OpSet ''k4'' 4]"]
  show ?thesis by (simp add: lru_abs_def lru_items_def rl_put_def rl_touch_def take_Cons')
qed

text \<open>
  a successful access returns the stored value and makes the key the most recently used
  one; an access to a missing key raises \<open>KeyError\<close>.
\<close>

theorem lru_getitem_spec:
  assumes "lru_wf c"
  shows "(case lru_peek k c of
      None \<Rightarrow> lru_getitem k c = Inl KeyError
    | Some v \<Rightarrow> (\<exists>c'. lru_getitem k c = Inr (v, c') \<and> hd (lru_keys c') = k
          \<and> set (lru_items c') = set (lru_items c) \<and> lru_len c' = lru_len c))"
proof (cases "lru_peek k c")
  case None
  then show ?thesis
    by (simp add: lru_getitem_miss lru_contains_def od_has_def lru_peek_def)
next
  case (Some v)
  with assms obtain c' where c': "lru_getitem k c = Inr (v, c')" "lru_items c' = rl_touch k (lru_items c)"
    by (auto elim: lru_getitem_hit)
  have hit: "map_of (lru_items c) k = Some v" using Some assms by (simp add: lru_peek_items)
  have wf: "od_wf (lru_items c)"
    using assms by (simp add: lru_wf_def od_wf_def od_keys_def lru_items_def rev_map [symmetric])
  from c' hit have eq: "lru_items c' = (k, v) # od_del k (lru_items c)"
    by (simp add: rl_touch_def delete_filter)
  have "set (lru_items c') = set (lru_items c)"
    using hit wf by (auto simp: eq delete_filter od_wf_def od_keys_def dest: map_of_SomeD
        eq_key_imp_eq_value)
  moreover have len: "length (lru_items c') = length (lru_items c)"
    using length_delete_present [OF wf, of k] hit by (cases "lru_items c") (auto simp: eq od_has_def)
  moreover have "hd (lru_keys c') = k" by (simp add: lru_keys_items eq)
  moreover have "lru_len c' = lru_len c" using len by (simp add: lru_len_def lru_items_def)
  ultimately show ?thesis using Some c'(1) by simp
qed

theorem lru_getitem_spec_witness:
  "(case lru_peek ''a'' \<lparr>table = [(''a'', 1::nat), (''b'', 2)], capacity = 2\<rparr> of
      None \<Rightarrow> lru_getitem ''a'' \<lparr>table = [(''a'', 1::nat), (''b'', 2)], capacity = 2\<rparr> = Inl KeyError
    | Some v \<Rightarrow> (\<exists>c'. lru_getitem ''a'' \<lparr>table = [(''a'', 1::nat), (''b'', 2)], capacity = 2\<rparr> = Inr (v, c')
          \<and> hd (lru_keys c') = ''a''
          \<and> set (lru_items c') = set (lru_items \<lparr>table = [(''a'', 1::nat), (''b'', 2)], capacity = 2\<rparr>)
          \<and> lru_len c' = lru_len \<lparr>table = [(''a'', 1::nat), (''b'', 2)], capacity = 2\<rparr>))"
  by (rule lru_getitem_spec) (simp add: lru_wf_def od_wf_def od_keys_def)

end
