(* ===== verification/UrlLib.thy ===== *)
theory UrlLib
  imports Prelude
begin

text \<open>
  What the program uses of the Python standard library for URLs and paths:
  \<open>urllib.parse\<close> (\<open>urlparse\<close>, \<open>urlunparse\<close>, \<open>urljoin\<close>,
  \<open>parse_qs\<close>, the attributes of a network location) as CPython 3.11 has it, and
  \<open>pathlib.PurePosixPath\<close>. None of it is code of the repository, so none of it is mapped.

  Strings are byte strings (UTF-8 for what is not ASCII). Not modelled: the validity test of a
  bracketed IPv6 host and the NFKC test of a non-ASCII host, which can only raise
  \<open>ValueError\<close>, and the replacement of ill-formed UTF-8 in percent escapes.
\<close>

section \<open>Parsing a URL\<close>

record url =
  u_scheme :: string
  u_netloc :: string
  u_path :: string
  u_params :: string
  u_query :: string
  u_fragment :: string

definition uses_relative :: "string list" where
  "uses_relative = ['''', ''ftp'', ''http'', ''gopher'', ''nntp'', ''imap'', ''wais'', ''file'', ''https'',
     ''shttp'', ''mms'', ''prospero'', ''rtsp'', ''rtsps'', ''rtspu'', ''sftp'', ''svn'', ''svn+ssh'', ''ws'', ''wss'']"

definition uses_netloc :: "string list" where
  "uses_netloc = ['''', ''ftp'', ''http'', ''gopher'', ''nntp'', ''telnet'', ''imap'', ''wais'', ''file'', ''mms'',
     ''https'', ''shttp'', ''snews'', ''prospero'', ''rtsp'', ''rtsps'', ''rtspu'', ''rsync'', ''svn'', ''svn+ssh'',
     ''sftp'', ''nfs'', ''git'', ''git+ssh'', ''ws'', ''wss'']"

definition uses_params :: "string list" where
  "uses_params = ['''', ''ftp'', ''hdl'', ''prospero'', ''http'', ''imap'', ''https'', ''shttp'', ''rtsp'',
     ''rtsps'', ''rtspu'', ''sip'', ''sips'', ''mms'', ''sftp'', ''tel'']"

definition is_alpha :: "char \<Rightarrow> bool" where
  "is_alpha c = (let n = (of_char c :: nat) in (65 \<le> n \<and> n \<le> 90) \<or> (97 \<le> n \<and> n \<le> 122))"

definition is_digit :: "char \<Rightarrow> bool" where
  "is_digit c = (let n = (of_char c :: nat) in 48 \<le> n \<and> n \<le> 57)"

definition scheme_char :: "char \<Rightarrow> bool" where
  "scheme_char c = (is_alpha c \<or> is_digit c \<or> c \<in> {CHR ''+'', CHR ''-'', CHR ''.''})"

definition c0_space :: "char list" where
  "c0_space = map char_of [0::nat..<33]"

text \<open>Tabulators and line ends are removed from every URL.\<close>

definition url_junk :: "char \<Rightarrow> bool" where
  "url_junk c = (c \<in> {CHR 0x09, CHR 0x0A, CHR 0x0D})"

definition clean_url :: "string \<Rightarrow> string" where
  "clean_url s = filter (\<lambda>c. \<not> url_junk c) (lstrip_chars c0_space s)"

definition split_scheme :: "string \<Rightarrow> string \<Rightarrow> string \<times> string" where
  "split_scheme dflt s =
     (let p = before CHR '':'' s
      in if CHR '':'' \<in> set s \<and> p \<noteq> [] \<and> is_alpha (hd s) \<and> list_all scheme_char p
         then (py_lower p, after CHR '':'' s) else (dflt, s))"

definition net_end :: "char \<Rightarrow> bool" where
  "net_end c = (c \<in> {CHR ''/'', CHR ''?'', CHR ''#''})"

definition split_netloc :: "string \<Rightarrow> string \<times> string" where
  "split_netloc s =
     (if starts_with ''//'' s
      then (takeWhile (\<lambda>c. \<not> net_end c) (drop 2 s), dropWhile (\<lambda>c. \<not> net_end c) (drop 2 s))
      else ([], s))"

text \<open>\<open>;parameters\<close> are looked for in the last segment of the path.\<close>

definition last_segment :: "string \<Rightarrow> string" where
  "last_segment s = rev (before CHR ''/'' (rev s))"

definition split_params :: "string \<Rightarrow> string \<times> string" where
  "split_params p =
     (let seg = last_segment p in
      if CHR '';'' \<in> set seg
      then (take (length p - length seg) p @ before CHR '';'' seg, after CHR '';'' seg)
      else (p, []))"

definition urlparse_dflt :: "string \<Rightarrow> string \<Rightarrow> url result" where
  "urlparse_dflt dflt s =
     (let (scheme, s1) = split_scheme dflt (clean_url s);
          (netloc, s2) = split_netloc s1;
          s3 = before CHR ''#'' s2;
          path = before CHR ''?'' s3;
          (path', params) = (if scheme \<in> set uses_params then split_params path else (path, []))
      in if (CHR ''['' \<in> set netloc) \<noteq> (CHR '']'' \<in> set netloc) then Inl ValueError
         else Inr \<lparr>u_scheme = scheme, u_netloc = netloc, u_path = path', u_params = params,
                    u_query = after CHR ''?'' s3, u_fragment = after CHR ''#'' s2\<rparr>)"

abbreviation urlparse :: "string \<Rightarrow> url result" where
  "urlparse \<equiv> urlparse_dflt []"

section \<open>Building and joining URLs\<close>

definition urlunsplit :: "string \<Rightarrow> string \<Rightarrow> string \<Rightarrow> string \<Rightarrow> string \<Rightarrow> string" where
  "urlunsplit scheme netloc path query fragment =
     (let p1 = (if netloc \<noteq> [] \<or> (scheme \<noteq> [] \<and> scheme \<in> set uses_netloc) \<or> starts_with ''//'' path
                then ''//'' @ netloc @ (if path \<noteq> [] \<and> \<not> starts_with ''/'' path then ''/'' @ path else path)
                else path);
          p2 = (if scheme \<noteq> [] then scheme @ '':'' @ p1 else p1);
          p3 = (if query \<noteq> [] then p2 @ ''?'' @ query else p2)
      in if fragment \<noteq> [] then p3 @ ''#'' @ fragment else p3)"

definition urlunparse :: "url \<Rightarrow> string" where
  "urlunparse u = urlunsplit (u_scheme u) (u_netloc u)
     (if u_params u \<noteq> [] then u_path u @ '';'' @ u_params u else u_path u) (u_query u) (u_fragment u)"

text \<open>The loop over the segments of a joined path.\<close>

fun resolve_dots :: "string list \<Rightarrow> string list \<Rightarrow> string list" where
  "resolve_dots acc [] = acc"
| "resolve_dots acc (s # segs) =
     (if s = ''..'' then resolve_dots (butlast acc) segs
      else if s = ''.'' then resolve_dots acc segs
      else resolve_dots (acc @ [s]) segs)"

text \<open>\<open>segments[1:-1] = filter(None, segments[1:-1])\<close>.\<close>

definition drop_empty_inner :: "string list \<Rightarrow> string list" where
  "drop_empty_inner segs =
     (if length segs \<le> 2 then segs
      else hd segs # filter (\<lambda>s. s \<noteq> []) (butlast (tl segs)) @ [last segs])"

definition join_path :: "string \<Rightarrow> string \<Rightarrow> string" where
  "join_path bpath path =
     (let bparts = split_on CHR ''/'' bpath;
          bparts' = (if last bparts \<noteq> [] then butlast bparts else bparts);
          segs = (if starts_with ''/'' path then split_on CHR ''/'' path
                  else drop_empty_inner (bparts' @ split_on CHR ''/'' path));
          res = resolve_dots [] segs;
          res' = (if last segs \<in> {''.'', ''..''} then res @ [[]] else res);
          joined = join_with CHR ''/'' res'
      in if joined = [] then ''/'' else joined)"

definition urljoin :: "string \<Rightarrow> string \<Rightarrow> string result" where
  "urljoin base ref =
     (if base = [] then Inr ref else if ref = [] then Inr base
      else rbind (urlparse base) (\<lambda>b. rbind (urlparse_dflt (u_scheme b) ref) (\<lambda>r.
        if u_scheme r \<noteq> u_scheme b \<or> u_scheme r \<notin> set uses_relative then Inr ref
        else if u_scheme r \<in> set uses_netloc \<and> u_netloc r \<noteq> [] then Inr (urlunparse r)
        else (let r1 = (if u_scheme r \<in> set uses_netloc then r\<lparr>u_netloc := u_netloc b\<rparr> else r)
              in if u_path r = [] \<and> u_params r = []
                 then Inr (urlunparse (r1\<lparr>u_path := u_path b, u_params := u_params b,
                        u_query := (if u_query r = [] then u_query b else u_query r)\<rparr>))
                 else Inr (urlunparse (r1\<lparr>u_path := join_path (u_path b) (u_path r)\<rparr>))))))"

section \<open>Queries\<close>

definition hex_val :: "char \<Rightarrow> nat option" where
  "hex_val c = (let n = (of_char c :: nat) in
     if 48 \<le> n \<and> n \<le> 57 then Some (n - 48)
     else if 65 \<le> n \<and> n \<le> 70 then Some (n - 55)
     else if 97 \<le> n \<and> n \<le> 102 then Some (n - 87) else None)"

fun unquote :: "string \<Rightarrow> string" where
  "unquote (c # a # b # s) =
     (case (c = CHR ''%'', hex_val a, hex_val b) of
        (True, Some x, Some y) \<Rightarrow> char_of (16 * x + y) # unquote s
      | _ \<Rightarrow> c # unquote (a # b # s))"
| "unquote s = s"

definition unquote_plus :: "string \<Rightarrow> string" where
  "unquote_plus s = unquote (replace_char CHR ''+'' CHR '' '' s)"

text \<open>Pairs without a value are dropped; repeated names collect their values in order.\<close>

definition parse_qsl :: "string \<Rightarrow> (string \<times> string) list" where
  "parse_qsl q = map (\<lambda>nv. (unquote_plus (before CHR ''='' nv), unquote_plus (after CHR ''='' nv)))
     (filter (\<lambda>nv. after CHR ''='' nv \<noteq> []) (split_on CHR ''&'' q))"

fun collect_qs :: "(string, string list) odict \<Rightarrow> (string \<times> string) list \<Rightarrow> (string, string list) odict" where
  "collect_qs d [] = d"
| "collect_qs d ((k, v) # kvs) =
     (case od_get d k of None \<Rightarrow> collect_qs (od_set k [v] d) kvs
      | Some vs \<Rightarrow> collect_qs (od_set k (vs @ [v]) d) kvs)"

definition parse_qs :: "string \<Rightarrow> (string, string list) odict" where
  "parse_qs q = collect_qs [] (parse_qsl q)"

section \<open>The parts of a network location\<close>

definition user_info :: "string \<Rightarrow> string option \<times> string option" where
  "user_info netloc =
     (if CHR ''@'' \<in> set netloc then
        (let info = rev (after CHR ''@'' (rev netloc))
         in (Some (before CHR '':'' info),
             if CHR '':'' \<in> set info then Some (after CHR '':'' info) else None))
      else (None, None))"

definition host_info :: "string \<Rightarrow> string \<times> string option" where
  "host_info netloc =
     (let h = rev (before CHR ''@'' (rev netloc));
          (host, port) =
            (if CHR ''['' \<in> set h
             then (let br = after CHR ''['' h in (before CHR '']'' br, after CHR '':'' (after CHR '']'' br)))
             else (before CHR '':'' h, after CHR '':'' h))
      in (host, if port = [] then None else Some port))"

definition u_username :: "url \<Rightarrow> string option" where
  "u_username u = fst (user_info (u_netloc u))"

definition u_password :: "url \<Rightarrow> string option" where
  "u_password u = snd (user_info (u_netloc u))"

definition u_hostname :: "url \<Rightarrow> string option" where
  "u_hostname u = (let h = fst (host_info (u_netloc u)) in
     if h = [] then None
     else Some (py_lower (before CHR ''%'' h) @ (if CHR ''%'' \<in> set h then CHR ''%'' # after CHR ''%'' h else [])))"

definition digits_val :: "string \<Rightarrow> int" where
  "digits_val s = foldl (\<lambda>n c. 10 * n + (int (of_char c) - 48)) 0 s"

definition u_port :: "url \<Rightarrow> int option result" where
  "u_port u = (case snd (host_info (u_netloc u)) of None \<Rightarrow> Inr None
     | Some p \<Rightarrow> if list_all is_digit p \<and> digits_val p \<le> 65535 then Inr (Some (digits_val p)) else Inl ValueError)"

section \<open>Paths\<close>

text \<open>A path is its root (empty, one or two slashes) and its parts, without empty and dot parts.\<close>

record ppath =
  pp_root :: string
  pp_parts :: "string list"

definition to_path :: "string \<Rightarrow> ppath" where
  "to_path s =
     \<lparr>pp_root = (if starts_with ''//'' s \<and> \<not> starts_with ''///'' s then ''//''
                 else if starts_with ''/'' s then ''/'' else []),
      pp_parts = filter (\<lambda>p. p \<noteq> [] \<and> p \<noteq> ''.'') (split_on CHR ''/'' s)\<rparr>"

definition path_str :: "ppath \<Rightarrow> string" where
  "path_str p = (if pp_root p = [] \<and> pp_parts p = [] then ''.'' else pp_root p @ join_with CHR ''/'' (pp_parts p))"

definition is_absolute :: "ppath \<Rightarrow> bool" where
  "is_absolute p = (pp_root p \<noteq> [])"

text \<open>\<open>p.relative_to(base)\<close> does not raise.\<close>

definition is_relative_to :: "ppath \<Rightarrow> ppath \<Rightarrow> bool" where
  "is_relative_to p base = (pp_root p = pp_root base \<and> prefix (pp_parts base) (pp_parts p))"

definition pp_name :: "ppath \<Rightarrow> string" where
  "pp_name p = (if pp_parts p = [] then [] else last (pp_parts p))"

text \<open>The suffix of a name: from its last dot, unless that is its first or its last character.\<close>

definition name_suffix :: "string \<Rightarrow> string" where
  "name_suffix n =
     (let tail = before CHR ''.'' (rev n); stem = length n - length tail
      in if CHR ''.'' \<in> set n \<and> 1 < stem \<and> tail \<noteq> [] then CHR ''.'' # rev tail else [])"

definition pp_suffix :: "ppath \<Rightarrow> string" where
  "pp_suffix p = name_suffix (pp_name p)"

definition with_suffix :: "string \<Rightarrow> ppath \<Rightarrow> ppath result" where
  "with_suffix sfx p =
     (if pp_name p = [] then Inl ValueError
      else Inr (p\<lparr>pp_parts := butlast (pp_parts p)
                   @ [take (length (pp_name p) - length (pp_suffix p)) (pp_name p) @ sfx]\<rparr>))"

text \<open>What the operating system makes of parent references when no link is involved.\<close>

fun collapse :: "string list \<Rightarrow> string list \<Rightarrow> string list" where
  "collapse acc [] = acc"
| "collapse acc (p # ps) = collapse (if p = ''..'' then butlast acc else acc @ [p]) ps"

definition real_parts :: "ppath \<Rightarrow> string list" where
  "real_parts p = collapse [] (pp_parts p)"

section \<open>Lemmas\<close>

lemma resolve_dots_no_dots:
  "s \<in> set (resolve_dots acc segs) \<Longrightarrow> s \<in> set acc \<or> (s \<in> set segs \<and> s \<noteq> ''..'' \<and> s \<noteq> ''.'')"
  by (induction acc segs rule: resolve_dots.induct) (auto split: if_splits dest: in_set_butlastD)

lemma set_drop_empty_inner: "set (drop_empty_inner segs) \<subseteq> set segs"
proof (cases "length segs \<le> 2")
  case False
  then have ne: "segs \<noteq> []" "tl segs \<noteq> []" by (cases segs; auto)+
  with False show ?thesis
    by (auto simp: drop_empty_inner_def dest: in_set_butlastD list.set_sel(2))
qed (simp add: drop_empty_inner_def)

lemma collapse_no_dots: "''..'' \<notin> set ps \<Longrightarrow> collapse acc ps = acc @ ps"
  by (induction ps arbitrary: acc) auto

lemma real_parts_no_dots: "''..'' \<notin> set (pp_parts p) \<Longrightarrow> real_parts p = pp_parts p"
  by (simp add: real_parts_def collapse_no_dots)

lemma collapse_append: "collapse acc (xs @ ys) = collapse (collapse acc xs) ys"
  by (induction xs arbitrary: acc) auto

text \<open>Nothing but the characters of the two paths and slashes occur in a joined path.\<close>

lemma join_with_set: "c \<in> set (join_with d ws) \<Longrightarrow> c = d \<or> (\<exists>w \<in> set ws. c \<in> set w)"
  using set_join_with [of d ws] by auto

lemma split_on_set: "w \<in> set (split_on d s) \<Longrightarrow> c \<in> set w \<Longrightarrow> c \<in> set s"
proof -
  assume w: "w \<in> set (split_on d s)" and c: "c \<in> set w"
  have "set w \<subseteq> set s" if "w \<in> set (split_on d s)" for w
    using that by (induction s arbitrary: w) (fastforce split: list.splits if_splits)+
  with w c show ?thesis by blast
qed

end
