(* ===== verification/Aliases.thy ===== *)
theory Aliases
  imports UrlLib
begin

text \<open>
  The resolution of project keys in \<open>src/pyqgisserver/qgscache/cachemanager.py\<close>:
  \<open>_merge_qs\<close>, \<open>resolve_alias\<close> and the default alias of the \<open>file\<close> scheme. The
  options of the section \<open>projects.schemes\<close> are a function \<open>conf\<close> from the option name
  (\<open>None\<close> for \<open>KeyError\<close>).
\<close>

section \<open>Merging queries\<close>

definition query_text :: "(string, string list) odict \<Rightarrow> string" where
  "query_text d = join_with CHR ''&'' (map (\<lambda>(k, vs). k @ ''='' @ hd vs) d)"

definition merge_qs :: "string \<Rightarrow> string \<Rightarrow> string" where
  "merge_qs query1 query2 = query_text (od_update (parse_qs query2) (parse_qs query1))"

section \<open>Aliases\<close>

type_synonym aliases = "(string, string) odict"

definition file_alias :: "string \<Rightarrow> string" where
  "file_alias rootdir = ''file:///'' @ strip_chars ''/'' rootdir @ ''/''"

text \<open>
  \<open>str.format(path=...)\<close> for the field \<open>{path}\<close> and doubled braces; every other field or a
  lone brace is an error.
\<close>

function format_path :: "string \<Rightarrow> string \<Rightarrow> string result" where
  "format_path p s =
     (if s = [] then Inr []
      else if starts_with ''{{'' s then rbind (format_path p (drop 2 s)) (\<lambda>t. Inr (CHR ''{'' # t))
      else if starts_with ''}}'' s then rbind (format_path p (drop 2 s)) (\<lambda>t. Inr (CHR ''}'' # t))
      else if starts_with ''{path}'' s then rbind (format_path p (drop 6 s)) (\<lambda>t. Inr (p @ t))
      else if hd s = CHR ''{'' then Inl KeyError
      else if hd s = CHR ''}'' then Inl ValueError
      else rbind (format_path p (tl s)) (\<lambda>t. Inr (hd s # t)))"
  by pat_completeness auto

termination
  by (relation "measure (\<lambda>(p, s). length s)") auto

declare format_path.simps [simp del]

text \<open>
  The lookup of the base URL: the table first, then the configuration, which fills the table. \<open>conf\<close>
  is the getter of the section of schemes; only its \<open>KeyError\<close>, no such scheme, is caught.
\<close>

definition find_alias :: "(string \<Rightarrow> string result) \<Rightarrow> string \<Rightarrow> aliases \<Rightarrow> string result \<times> aliases" where
  "find_alias conf scheme al =
     (let known = (case od_get al scheme of None \<Rightarrow> [] | Some b \<Rightarrow> b)
      in if known \<noteq> [] then (Inr known, al)
         else (case conf (py_lower (replace_char CHR ''-'' CHR ''_'' scheme)) of
                 Inl e \<Rightarrow> (if e = KeyError then Inr [] else Inl e, al)
               | Inr b \<Rightarrow> (Inr b, od_set scheme b al)))"

definition apply_alias :: "string \<Rightarrow> url \<Rightarrow> url result" where
  "apply_alias baseurl u =
     (if occurs_in ''{path}'' baseurl then rbind (format_path (u_path u) baseurl) urlparse
      else rbind (urlparse baseurl) (\<lambda>b.
        (let query = merge_qs (u_query b) (u_query u);
             b1 = (if starts_with ''/'' (u_path b) then b else b\<lparr>u_path := CHR ''/'' # u_path b\<rparr>)
         in rbind (urljoin (urlunparse b1) (u_path u @ ''?'' @ query)) (\<lambda>s.
              rbind (urlparse s) (\<lambda>r.
                if is_relative_to (to_path (u_path r)) (to_path (u_path b1)) then Inr r
                else Inl PathNotAllowedError)))))"

definition resolve_alias ::
  "(string \<Rightarrow> string result) \<Rightarrow> string \<Rightarrow> string \<Rightarrow> aliases \<Rightarrow> url result \<times> aliases" where
  "resolve_alias conf default_scheme key al =
     (case urlparse key of
        Inl e \<Rightarrow> (Inl e, al)
      | Inr u \<Rightarrow>
          (let scheme = (if u_scheme u \<noteq> [] then u_scheme u else default_scheme);
               (base, al1) = find_alias conf scheme al
           in (rbind base (\<lambda>baseurl. if baseurl \<noteq> [] then apply_alias baseurl u else Inr u), al1)))"

section \<open>Parsing what was built\<close>

definition plain_chars :: "string \<Rightarrow> bool" where
  "plain_chars s = (\<forall>c \<in> set s. c \<noteq> CHR ''?'' \<and> c \<noteq> CHR ''#'' \<and> \<not> url_junk c)"

lemma urlparse_parts_plain:
  "urlparse_dflt d s = Inr r \<Longrightarrow> plain_chars (u_path r)"
proof -
  assume "urlparse_dflt d s = Inr r"
  have cl: "\<not> url_junk c" if "c \<in> set (clean_url s)" for c
    using that by (auto simp: clean_url_def)
  have sch: "set (snd (split_scheme d s)) \<subseteq> set s" for s
    by (auto simp: split_scheme_def Let_def after_def dest: in_set_dropD set_dropWhileD)
  have net: "set (snd (split_netloc s)) \<subseteq> set s" for s
    by (auto simp: split_netloc_def dest: in_set_dropD set_dropWhileD)
  have seg: "set (fst (split_params p)) \<subseteq> set p" for p
    using set_before [of "CHR '';''" "last_segment p"] set_before [of "CHR ''/''" "rev p"]
    by (auto simp: split_params_def Let_def last_segment_def dest: in_set_takeD)
  define s2 where "s2 = snd (split_netloc (snd (split_scheme d (clean_url s))))"
  define pth where "pth = before CHR ''?'' (before CHR ''#'' s2)"
  have p: "set pth \<subseteq> set (clean_url s)" and "CHR ''?'' \<notin> set pth" and "CHR ''#'' \<notin> set pth"
    using sch [of "clean_url s"] net [of "snd (split_scheme d (clean_url s))"]
      set_before [of "CHR ''?''" "before CHR ''#'' s2"] set_before [of "CHR ''#''" s2]
      before_no_sep [of "CHR ''?''" "before CHR ''#'' s2"] before_no_sep [of "CHR ''#''" s2]
    unfolding pth_def s2_def by auto
  then have pl: "plain_chars q" if "set q \<subseteq> set pth" for q
    using that cl by (auto simp: plain_chars_def)
  from \<open>urlparse_dflt d s = Inr r\<close> have "set (u_path r) \<subseteq> set pth"
    using seg [of pth] by (auto simp: urlparse_dflt_def Let_def pth_def s2_def split: prod.splits if_splits)
  then show ?thesis by (rule pl)
qed

text \<open>What may follow a path in a URL: nothing, a query or a fragment.\<close>

definition url_tail :: "string \<Rightarrow> bool" where
  "url_tail t = (t = [] \<or> hd t = CHR ''?'' \<or> hd t = CHR ''#'')"

definition rooted :: "string \<Rightarrow> bool" where
  "rooted p = (p = [] \<or> hd p = CHR ''/'')"

definition net_chars :: "string \<Rightarrow> bool" where
  "net_chars s = (plain_chars s \<and> CHR ''/'' \<notin> set s \<and> CHR ''['' \<notin> set s \<and> CHR '']'' \<notin> set s)"

abbreviation url_filter :: "string \<Rightarrow> string" where
  "url_filter \<equiv> filter (\<lambda>c. \<not> url_junk c)"

lemma url_filter_plain: "plain_chars p \<Longrightarrow> url_filter p = p"
  by (auto simp: plain_chars_def filter_id_conv)

lemma url_tail_filter: "url_tail t \<Longrightarrow> url_tail (url_filter t) \<and> (url_filter t = [] \<longleftrightarrow> t = [])"
  by (cases t) (auto simp: url_tail_def url_junk_def)

lemma url_tail_cases:
  "url_tail t \<Longrightarrow> t = [] \<or> (\<exists>q. t = CHR ''?'' # q) \<or> (\<exists>f. t = CHR ''#'' # f)"
  by (cases t) (auto simp: url_tail_def)

lemma plain_absent: "plain_chars p \<Longrightarrow> CHR ''?'' \<notin> set p \<and> CHR ''#'' \<notin> set p"
  by (auto simp: plain_chars_def)

lemma path_before_tail:
  assumes "plain_chars p" and "url_tail t"
  shows "before CHR ''?'' (before CHR ''#'' (p @ t)) = p"
proof -
  have 1: "CHR ''?'' \<notin> set p" "CHR ''#'' \<notin> set p" using assms(1) by (auto simp: plain_chars_def)
  from url_tail_cases [OF assms(2)] consider "t = []" | q where "t = CHR ''?'' # q" | f where "t = CHR ''#'' # f"
    by blast
  then show ?thesis
  proof cases
    case 1
    with \<open>CHR ''?'' \<notin> set p\<close> \<open>CHR ''#'' \<notin> set p\<close> show ?thesis by (simp add: before_absent)
  next
    case 2
    have "before CHR ''#'' (p @ CHR ''?'' # q) = p @ CHR ''?'' # before CHR ''#'' q"
      using 1 by (simp add: before_def takeWhile_append)
    with 1 2 show ?thesis by (simp add: before_append_sep)
  next
    case 3
    with 1 show ?thesis by (simp add: before_append_sep before_absent)
  qed
qed

lemma split_netloc_rooted:
  assumes "net_chars net" and "rooted p" and "url_tail t"
  shows "split_netloc (''//'' @ net @ p @ t) = (net, p @ t)"
proof -
  have n: "\<not> net_end c" if "c \<in> set net" for c
    using assms(1) that unfolding net_chars_def plain_chars_def net_end_def by auto
  have "p @ t = [] \<or> net_end (hd (p @ t))"
    using assms(2,3) unfolding rooted_def url_tail_def net_end_def by (cases p) auto
  then have "takeWhile (\<lambda>c. \<not> net_end c) (p @ t) = []" "dropWhile (\<lambda>c. \<not> net_end c) (p @ t) = p @ t"
    by (cases "p @ t"; simp)+
  then have "takeWhile (\<lambda>c. \<not> net_end c) (net @ p @ t) = net" "dropWhile (\<lambda>c. \<not> net_end c) (net @ p @ t) = p @ t"
    using takeWhile_append2 [of net "\<lambda>c. \<not> net_end c" "p @ t"]
      dropWhile_append2 [of net "\<lambda>c. \<not> net_end c" "p @ t"] n by auto
  then show ?thesis unfolding split_netloc_def by (simp add: starts_with_def)
qed

lemma not_junk [simp]: "is_alpha c \<Longrightarrow> \<not> url_junk c" "\<not> url_junk CHR '':''" "\<not> url_junk CHR ''/''"
  "\<not> url_junk CHR ''?''" "\<not> url_junk CHR ''#''" "\<not> url_junk CHR ''f''" "\<not> url_junk CHR ''i''"
  "\<not> url_junk CHR ''l''" "\<not> url_junk CHR ''e''" "\<not> url_junk CHR ''.''"
  by (auto simp: url_junk_def is_alpha_def)

lemma c0_space_codes: "c \<in> set c0_space \<longleftrightarrow> (of_char c :: nat) < 33"
  by (auto simp: c0_space_def image_iff intro: bexI [of _ "of_char c :: nat"])

lemma clean_url_file:
  assumes "plain_chars net" and "plain_chars p"
  shows "clean_url (''file://'' @ net @ p @ t) = ''file://'' @ net @ p @ url_filter t"
proof -
  have "lstrip_chars c0_space (''file://'' @ net @ p @ t) = ''file://'' @ net @ p @ t"
    by (simp add: lstrip_chars_def c0_space_codes)
  with assms show ?thesis by (simp add: clean_url_def url_filter_plain)
qed

lemma split_scheme_file: "split_scheme d (''file:'' @ t) = (''file'', t)"
proof -
  have "before CHR '':'' (''file'' @ CHR '':'' # t) = ''file''" "after CHR '':'' (''file'' @ CHR '':'' # t) = t"
    by (rule before_append_sep after_append_sep; simp)+
  moreover have "list_all scheme_char ''file''" "is_alpha CHR ''f''" "py_lower ''file'' = ''file''" by code_simp+
  ultimately show ?thesis by (simp add: split_scheme_def)
qed

text \<open>A \<open>file\<close> URL with a rooted path is parsed into its pieces.\<close>

lemma urlparse_file:
  assumes "net_chars net" and "plain_chars p" and "rooted p" and "url_tail t"
  shows "\<exists>r. urlparse_dflt d (''file://'' @ net @ p @ t) = Inr r \<and> u_scheme r = ''file'' \<and> u_netloc r = net
     \<and> u_path r = p \<and> u_params r = [] \<and> (t = [] \<longrightarrow> u_query r = [] \<and> u_fragment r = [])"
proof -
  have f: "url_tail (url_filter t)" "url_filter t = [] \<longleftrightarrow> t = []" using url_tail_filter [OF assms(4)] by auto
  have c: "clean_url (''file://'' @ net @ p @ t) = ''file:'' @ ''//'' @ net @ p @ url_filter t"
    using clean_url_file assms by (simp add: net_chars_def)
  have br: "CHR ''['' \<notin> set net" "CHR '']'' \<notin> set net" using assms(1) by (auto simp: net_chars_def)
  have np: "''file'' \<notin> set uses_params" by (simp add: uses_params_def)
  show ?thesis
    unfolding urlparse_dflt_def c split_scheme_file Let_def
    using split_netloc_rooted [OF assms(1,3) f(1)] path_before_tail [OF assms(2) f(1)] br np f(2) plain_absent [OF assms(2)]
    by (auto simp: after_absent before_absent)
qed

text \<open>A reference without a colon in its path has no scheme; what the query holds does not matter.\<close>

lemma split_scheme_ref:
  assumes "CHR '':'' \<notin> set p"
  shows "split_scheme d (p @ CHR ''?'' # q) = (d, p @ CHR ''?'' # q)"
proof (cases "CHR '':'' \<in> set q")
  case True
  have "before CHR '':'' (p @ CHR ''?'' # q) = p @ CHR ''?'' # before CHR '':'' q"
    using assms by (simp add: before_def takeWhile_append)
  moreover have "\<not> scheme_char CHR ''?''" by code_simp
  ultimately show ?thesis by (simp add: split_scheme_def Let_def)
next
  case False
  with assms show ?thesis by (simp add: split_scheme_def)
qed

lemma dropWhile_stop: "\<not> P c \<Longrightarrow> dropWhile P (p @ c # q) = dropWhile P p @ c # q"
  by (induction p) auto

lemma clean_url_ref:
  assumes "plain_chars p"
  shows "clean_url (p @ CHR ''?'' # q) = lstrip_chars c0_space p @ CHR ''?'' # url_filter q"
proof -
  have "lstrip_chars c0_space (p @ CHR ''?'' # q) = lstrip_chars c0_space p @ CHR ''?'' # q"
    unfolding lstrip_chars_def by (rule dropWhile_stop) (simp add: c0_space_codes)
  moreover have "plain_chars (lstrip_chars c0_space p)"
    using assms by (auto simp: plain_chars_def lstrip_chars_def dest: set_dropWhileD)
  ultimately show ?thesis by (simp add: clean_url_def url_filter_plain)
qed

lemma starts_with_slashes:
  "\<not> starts_with ''//'' p \<Longrightarrow> \<not> starts_with ''//'' (p @ CHR ''?'' # q)"
  by (cases p; cases "tl p") (auto simp: starts_with_def)

lemma urlparse_ref:
  assumes "plain_chars p" and "CHR '':'' \<notin> set p" and "\<not> starts_with ''//'' (lstrip_chars c0_space p)"
  shows "\<exists>r. urlparse_dflt ''file'' (p @ CHR ''?'' # q) = Inr r \<and> u_scheme r = ''file'' \<and> u_netloc r = []
     \<and> u_path r = lstrip_chars c0_space p \<and> u_params r = []"
proof -
  let ?p = "lstrip_chars c0_space p" and ?q = "url_filter q"
  have pl: "plain_chars ?p" and col: "CHR '':'' \<notin> set ?p"
    using assms(1,2) by (auto simp: plain_chars_def lstrip_chars_def dest: set_dropWhileD)
  have t: "url_tail (CHR ''?'' # ?q)" by (simp add: url_tail_def)
  have np: "''file'' \<notin> set uses_params" by (simp add: uses_params_def)
  have net: "split_netloc (?p @ CHR ''?'' # ?q) = ([], ?p @ CHR ''?'' # ?q)"
    using starts_with_slashes [OF assms(3), of ?q] by (simp add: split_netloc_def)
  show ?thesis
    unfolding urlparse_dflt_def clean_url_ref [OF assms(1)] split_scheme_ref [OF col] Let_def
    using net path_before_tail [OF pl t] np by auto
qed

lemma urlparse_netref:
  assumes "net_chars net" and "plain_chars p" and "rooted p" and "CHR '':'' \<notin> set (net @ p)"
  shows "\<exists>r. urlparse_dflt ''file'' (''//'' @ net @ p @ ''?'') = Inr r \<and> u_scheme r = ''file'' \<and> u_netloc r = net
     \<and> u_path r = p \<and> u_params r = [] \<and> u_query r = [] \<and> u_fragment r = []"
proof -
  have pl: "plain_chars (''//'' @ net @ p)"
    using assms(1,2) by (auto simp: net_chars_def plain_chars_def url_junk_def)
  have col: "CHR '':'' \<notin> set (''//'' @ net @ p)" using assms(4) by auto
  have "lstrip_chars c0_space (''//'' @ net @ p) = ''//'' @ net @ p"
    by (simp add: lstrip_chars_def c0_space_codes)
  then have c: "clean_url (''//'' @ net @ p @ ''?'') = ''//'' @ net @ p @ ''?''"
    using clean_url_ref [OF pl, of "[]"] by simp
  have sp: "split_scheme ''file'' (''//'' @ net @ p @ ''?'') = (''file'', ''//'' @ net @ p @ ''?'')"
    using split_scheme_ref [OF col, of "''file''" "[]"] by simp
  have br: "CHR ''['' \<notin> set net" "CHR '']'' \<notin> set net" using assms(1) by (auto simp: net_chars_def)
  have np: "''file'' \<notin> set uses_params" by (simp add: uses_params_def)
  have t: "url_tail ''?''" by (simp add: url_tail_def)
  have h: "before CHR ''#'' (p @ ''?'') = p @ ''?''" "after CHR ''#'' (p @ ''?'') = []" "after CHR ''?'' (p @ ''?'') = []"
    using plain_absent [OF assms(2)] after_append_sep [of "CHR ''?''" p "[]"]
    by (auto intro: before_absent after_absent)
  show ?thesis
    unfolding urlparse_dflt_def c sp Let_def
    using split_netloc_rooted [OF assms(1,3) t] path_before_tail [OF assms(2) t] br np h by auto
qed

section \<open>Joined paths\<close>

lemma join_with_eq_Nil: "join_with c ws = [] \<longleftrightarrow> ws = [] \<or> ws = [[]]"
  by (induction ws rule: induct_list012) auto

lemma path_parts_split:
  "pp_parts (to_path s) = filter (\<lambda>p. p \<noteq> [] \<and> p \<noteq> ''.'') (split_on CHR ''/'' s)"
  by (simp add: to_path_def)

text \<open>Joining leaves no parent reference.\<close>

definition join_segments :: "string \<Rightarrow> string \<Rightarrow> string list" where
  "join_segments bpath path =
     (let bparts = split_on CHR ''/'' bpath;
          bparts' = (if last bparts \<noteq> [] then butlast bparts else bparts)
      in (if starts_with ''/'' path then split_on CHR ''/'' path
          else drop_empty_inner (bparts' @ split_on CHR ''/'' path)))"

lemma join_segments_no_sep: "w \<in> set (join_segments b p) \<Longrightarrow> CHR ''/'' \<notin> set w \<and> set w \<subseteq> set b \<union> set p"
proof -
  assume w: "w \<in> set (join_segments b p)"
  have "set (join_segments b p) \<subseteq> set (split_on CHR ''/'' b) \<union> set (split_on CHR ''/'' p)"
  proof -
    have "set (drop_empty_inner (xs @ ys)) \<subseteq> set xs \<union> set ys" for xs ys
      using set_drop_empty_inner [of "xs @ ys"] by simp
    moreover have "set (butlast (split_on CHR ''/'' b)) \<subseteq> set (split_on CHR ''/'' b)"
      by (auto dest: in_set_butlastD)
    ultimately show ?thesis unfolding join_segments_def Let_def by (auto split: if_splits)
  qed
  with w show ?thesis using split_on_no_sep split_on_set by fastforce
qed

lemma join_path_eq:
  "\<exists>ws. set ws \<subseteq> {[]} \<union> {w \<in> set (join_segments b p). w \<noteq> ''..'' \<and> w \<noteq> ''.''}
     \<and> join_path b p = (if join_with CHR ''/'' ws = [] then ''/'' else join_with CHR ''/'' ws)"
proof -
  let ?segs = "join_segments b p"
  let ?ws = "if last ?segs \<in> {''.'', ''..''} then resolve_dots [] ?segs @ [[]] else resolve_dots [] ?segs"
  have "join_path b p = (if join_with CHR ''/'' ?ws = [] then ''/'' else join_with CHR ''/'' ?ws)"
    by (simp add: join_path_def join_segments_def Let_def)
  moreover have "set ?ws \<subseteq> {[]} \<union> {w \<in> set ?segs. w \<noteq> ''..'' \<and> w \<noteq> ''.''}"
    using resolve_dots_no_dots [of _ "[]" ?segs] by auto
  ultimately show ?thesis by blast
qed

lemma join_path_no_dots: "''..'' \<notin> set (pp_parts (to_path (join_path b p)))"
proof -
  obtain ws where ws: "set ws \<subseteq> {[]} \<union> {w \<in> set (join_segments b p). w \<noteq> ''..'' \<and> w \<noteq> ''.''}"
    and j: "join_path b p = (if join_with CHR ''/'' ws = [] then ''/'' else join_with CHR ''/'' ws)"
    using join_path_eq by blast
  have "set (split_on CHR ''/'' (join_path b p)) \<subseteq> insert [] (set ws)"
  proof (cases "join_with CHR ''/'' ws = []")
    case False
    moreover have "\<forall>w \<in> set ws. CHR ''/'' \<notin> set w" using ws join_segments_no_sep by fastforce
    moreover from False have "ws \<noteq> []" by (auto simp: join_with_eq_Nil)
    ultimately show ?thesis using j split_join by (metis set_subset_Cons subset_insertI)
  qed (simp add: j)
  with ws show ?thesis by (auto simp: path_parts_split)
qed

lemma plain_chars_mono: "plain_chars t \<Longrightarrow> set s \<subseteq> set t \<Longrightarrow> plain_chars s"
  unfolding plain_chars_def by blast

lemma join_path_plain: "plain_chars b \<Longrightarrow> plain_chars p \<Longrightarrow> plain_chars (join_path b p)"
proof -
  assume pl: "plain_chars b" "plain_chars p"
  obtain ws where ws: "set ws \<subseteq> {[]} \<union> {w \<in> set (join_segments b p). w \<noteq> ''..'' \<and> w \<noteq> ''.''}"
    and j: "join_path b p = (if join_with CHR ''/'' ws = [] then ''/'' else join_with CHR ''/'' ws)"
    using join_path_eq by blast
  have "set (join_path b p) \<subseteq> insert CHR ''/'' (set b \<union> set p)"
  proof
    fix c assume "c \<in> set (join_path b p)"
    with j have "c = CHR ''/'' \<or> c \<in> set (join_with CHR ''/'' ws)" by (auto split: if_splits)
    then consider "c = CHR ''/''" | w where "w \<in> set ws" "c \<in> set w" using join_with_set by blast
    then show "c \<in> insert CHR ''/'' (set b \<union> set p)"
    proof cases
      case 2
      then have "w \<in> set (join_segments b p)" using ws by auto
      from join_segments_no_sep [OF this] 2 show ?thesis by blast
    qed simp
  qed
  moreover have "plain_chars (CHR ''/'' # b @ p)" using pl by (auto simp: plain_chars_def)
  ultimately show ?thesis using plain_chars_mono by fastforce
qed

section \<open>The alias of the file scheme\<close>

definition base_path :: "string \<Rightarrow> string" where
  "base_path rootdir = CHR ''/'' # strip_chars ''/'' rootdir @ ''/''"

lemma file_alias_eq: "file_alias rootdir = ''file://'' @ [] @ base_path rootdir @ []"
  by (simp add: file_alias_def base_path_def)

lemma base_path_plain: "plain_chars rootdir \<Longrightarrow> plain_chars (base_path rootdir)"
proof -
  assume pl: "plain_chars rootdir"
  have "set (strip_chars cs s) \<subseteq> set s" for cs s
    by (auto simp: strip_chars_def lstrip_chars_def rstrip_chars_def dest!: set_dropWhileD)
  then have "set (base_path rootdir) \<subseteq> set (CHR ''/'' # rootdir)" by (auto simp: base_path_def)
  moreover have "plain_chars (CHR ''/'' # rootdir)" using pl by (simp add: plain_chars_def)
  ultimately show ?thesis by (rule plain_chars_mono [rotated])
qed

lemma net_chars_Nil: "net_chars []"
  by (simp add: net_chars_def plain_chars_def)


definition root_it :: "string \<Rightarrow> string" where
  "root_it p = (if p \<noteq> [] \<and> \<not> starts_with ''/'' p then CHR ''/'' # p else p)"

lemma root_it_rooted: "rooted (root_it p)"
  by (cases p) (auto simp: root_it_def rooted_def starts_with_def)

lemma root_it_plain: "plain_chars p \<Longrightarrow> plain_chars (root_it p)"
  by (auto simp: root_it_def plain_chars_def)

lemma root_it_parts: "pp_parts (to_path (root_it p)) = pp_parts (to_path p)"
  by (simp add: root_it_def path_parts_split)

lemma urlunparse_file:
  assumes "u_scheme u = ''file''" and "u_params u = []"
  shows "\<exists>t. urlunparse u = ''file://'' @ u_netloc u @ root_it (u_path u) @ t \<and> url_tail t
     \<and> (u_query u = [] \<and> u_fragment u = [] \<longrightarrow> t = [])"
proof -
  have f: "''file'' \<in> set uses_netloc" by (simp add: uses_netloc_def)
  show ?thesis
    using assms f
    by (auto simp: urlunparse_def urlunsplit_def Let_def root_it_def url_tail_def)
qed

text \<open>The alias is parsed into the root's path, and built back as it was.\<close>

lemma urlparse_file_alias:
  assumes "plain_chars (base_path rootdir)"
  shows "\<exists>b. urlparse (file_alias rootdir) = Inr b \<and> u_scheme b = ''file'' \<and> u_netloc b = []
     \<and> u_path b = base_path rootdir \<and> u_params b = [] \<and> u_query b = []
     \<and> starts_with ''/'' (u_path b) \<and> urlunparse b = file_alias rootdir"
proof -
  have "rooted (base_path rootdir)" by (simp add: rooted_def base_path_def)
  from urlparse_file [OF net_chars_Nil assms this, of "[]" "[]"] obtain b where
    b: "urlparse (file_alias rootdir) = Inr b" "u_scheme b = ''file''" "u_netloc b = []"
      "u_path b = base_path rootdir" "u_params b = []" "u_query b = []" "u_fragment b = []"
    by (auto simp: url_tail_def file_alias_eq)
  have bs: "starts_with ''/'' (u_path b)" by (simp add: b(4) base_path_def starts_with_def)
  have "urlunparse b = file_alias rootdir"
    using urlunparse_file [OF b(2,5)] b bs by (auto simp: file_alias_eq root_it_def)
  with b bs show ?thesis by blast
qed

lemma urlparse_urlunparse_file:
  assumes "u_scheme u = ''file''" and "u_params u = []" and "net_chars (u_netloc u)" and "plain_chars (u_path u)"
    and "urlparse (urlunparse u) = Inr r"
  shows "u_scheme r = ''file'' \<and> u_netloc r = u_netloc u \<and> u_path r = root_it (u_path u)"
proof -
  obtain t where t: "urlunparse u = ''file://'' @ u_netloc u @ root_it (u_path u) @ t" "url_tail t"
    using urlunparse_file [OF assms(1,2)] by blast
  from urlparse_file [OF assms(3) root_it_plain [OF assms(4)] root_it_rooted t(2), of "[]"] assms(5) t(1)
  show ?thesis by auto
qed

lemma urljoin_file:
  assumes "urlparse base = Inr b" and "base \<noteq> []" and "ref \<noteq> []"
    and "u_scheme b = ''file''" and "u_netloc b = []" and "u_params b = []"
    and "urlparse_dflt ''file'' ref = Inr r" and "u_scheme r = ''file''" and "u_netloc r = []" and "u_params r = []"
  shows "\<exists>j. urljoin base ref = Inr (urlunparse j) \<and> u_scheme j = ''file'' \<and> u_netloc j = [] \<and> u_params j = []
     \<and> u_path j = (if u_path r = [] then u_path b else join_path (u_path b) (u_path r))"
proof -
  have f: "''file'' \<in> set uses_netloc" "''file'' \<in> set uses_relative" by (simp_all add: uses_netloc_def uses_relative_def)
  show ?thesis
  proof (cases "u_path r = []")
    case True
    with assms f show ?thesis
      by (intro exI [of _ "r\<lparr>u_netloc := [], u_path := u_path b, u_params := u_params b,
                        u_query := (if u_query r = [] then u_query b else u_query r)\<rparr>"])
        (auto simp: urljoin_def Let_def)
  next
    case False
    with assms f show ?thesis
      by (intro exI [of _ "r\<lparr>u_netloc := [], u_path := join_path (u_path b) (u_path r)\<rparr>"])
        (auto simp: urljoin_def Let_def)
  qed
qed

text \<open>How the alias of the file scheme treats a URL whose path is a plain reference.\<close>

lemma apply_file_alias:
  assumes "plain_chars rootdir" and "\<not> occurs_in ''{path}'' (file_alias rootdir)"
    and "plain_chars (u_path u)" and "CHR '':'' \<notin> set (u_path u)"
    and "\<not> starts_with ''//'' (lstrip_chars c0_space (u_path u))"
    and "apply_alias (file_alias rootdir) u = Inr r"
  shows "u_scheme r = ''file'' \<and> u_netloc r = []
    \<and> is_relative_to (to_path (u_path r)) (to_path (base_path rootdir))
    \<and> (pp_parts (to_path (u_path r)) = pp_parts (to_path (base_path rootdir))
       \<or> ''..'' \<notin> set (pp_parts (to_path (u_path r))))"
proof -
  obtain b where b: "urlparse (file_alias rootdir) = Inr b" "u_scheme b = ''file''" "u_netloc b = []"
      "u_path b = base_path rootdir" "u_params b = []" and bs: "starts_with ''/'' (u_path b)"
      and ub: "urlunparse b = file_alias rootdir"
    using urlparse_file_alias [OF base_path_plain [OF assms(1)]] by blast
  define ref where "ref = u_path u @ ''?'' @ merge_qs (u_query b) (u_query u)"
  obtain q where q: "urlparse_dflt ''file'' ref = Inr q" "u_scheme q = ''file''" "u_netloc q = []"
      "u_path q = lstrip_chars c0_space (u_path u)" "u_params q = []"
    using urlparse_ref [OF assms(3,4,5)] by (auto simp: ref_def)
  have ne: "file_alias rootdir \<noteq> []" "ref \<noteq> []" by (simp_all add: file_alias_def ref_def)
  obtain j where j: "urljoin (file_alias rootdir) ref = Inr (urlunparse j)" "u_scheme j = ''file''" "u_netloc j = []"
      "u_params j = []" "u_path j = (if u_path q = [] then u_path b else join_path (u_path b) (u_path q))"
    using urljoin_file [OF b(1) ne b(2,3,5) q(1,2,3,5)] by blast
  have r: "urlparse (urlunparse j) = Inr r" "is_relative_to (to_path (u_path r)) (to_path (base_path rootdir))"
    using assms(2,6) b(1,4) bs ub j(1) by (auto simp: apply_alias_def Let_def ref_def split: if_splits)
  have pq: "plain_chars (u_path q)" by (rule urlparse_parts_plain [OF q(1)])
  have "plain_chars (u_path j)"
    using j(5) pq base_path_plain [OF assms(1)] join_path_plain b(4) by auto
  from urlparse_urlunparse_file [OF j(2,4) _ this r(1)] j(3) net_chars_Nil
  have pr: "u_scheme r = ''file''" "u_netloc r = []" "u_path r = root_it (u_path j)" by auto
  have "pp_parts (to_path (u_path r)) = pp_parts (to_path (base_path rootdir))
       \<or> ''..'' \<notin> set (pp_parts (to_path (u_path r)))"
    using j(5) b(4) join_path_no_dots by (auto simp: pr(3) root_it_parts)
  with pr r(2) show ?thesis by simp
qed

text \<open>The start of resolution for a key of the file scheme, or without scheme.\<close>

lemma resolve_alias_file:
  assumes "urlparse key = Inr u" and "u_scheme u = ''file'' \<or> u_scheme u = [] \<and> dflt = ''file''"
    and "od_get al ''file'' = Some (file_alias rootdir)"
  shows "resolve_alias conf dflt key al = (apply_alias (file_alias rootdir) u, al)"
proof -
  have "find_alias conf ''file'' al = (Inr (file_alias rootdir), al)"
    using assms(3) by (simp add: find_alias_def file_alias_def)
  with assms(1,2) show ?thesis
    by (auto simp: resolve_alias_def Let_def file_alias_def)
qed

section \<open>Properties\<close>

text \<open>
  C12:  Confinement. A key of the file scheme (or without scheme, when file is the default) whose path
  is a plain reference (no colon, no leading double slash after blanks) resolves, when it
  resolves, to a file URL without host, whose path is the root directory's path followed by
  parts none of which is a parent reference: the operating system cannot leave the root by it.
\<close>
theorem file_key_confined:
  assumes "urlparse key = Inr u" and "u_scheme u = ''file'' \<or> u_scheme u = [] \<and> dflt = ''file''"
    and "od_get al ''file'' = Some (file_alias rootdir)"
    and "plain_chars rootdir" and "\<not> occurs_in ''{path}'' (file_alias rootdir)"
    and "CHR '':'' \<notin> set (u_path u)" and "\<not> starts_with ''//'' (lstrip_chars c0_space (u_path u))"
    and "resolve_alias conf dflt key al = (Inr r, al')"
  shows "u_scheme r = ''file'' \<and> u_netloc r = []
    \<and> (\<exists>rest. pp_parts (to_path (u_path r)) = pp_parts (to_path (base_path rootdir)) @ rest
            \<and> ''..'' \<notin> set rest)"
proof -
  have "apply_alias (file_alias rootdir) u = Inr r"
    using assms(8) resolve_alias_file [OF assms(1,2,3)] by simp
  from apply_file_alias [OF assms(4,5) urlparse_parts_plain [OF assms(1)] assms(6,7) this]
  show ?thesis by (auto simp: is_relative_to_def prefix_def)
qed

lemma file_key_confined_witness:
  "\<exists>r. resolve_alias (\<lambda>s. Inl KeyError) ''file'' ''a/../../data/./town'' [(''file'', file_alias ''/srv/data/'')] = (Inr r, [(''file'', file_alias ''/srv/data/'')])
     \<and> u_netloc r = [] \<and> pp_parts (to_path (u_path r)) = [''srv'', ''data'', ''town'']
     \<and> (\<exists>rest. pp_parts (to_path (u_path r)) = [''srv'', ''data''] @ rest \<and> ''..'' \<notin> set rest)"
proof -
  let ?al = "[(''file'', file_alias ''/srv/data/'')]"
  let ?u = "\<lparr>u_scheme = [], u_netloc = [], u_path = ''a/../../data/./town'', u_params = [], u_query = [], u_fragment = []\<rparr>"
  let ?r = "\<lparr>u_scheme = ''file'', u_netloc = [], u_path = ''/srv/data/town'', u_params = [], u_query = [], u_fragment = []\<rparr>"
  have 1: "urlparse ''a/../../data/./town'' = Inr ?u" by code_simp
  have 2: "resolve_alias (\<lambda>s. Inl KeyError) ''file'' ''a/../../data/./town'' ?al = (Inr ?r, ?al)" by code_simp
  have 3: "plain_chars ''/srv/data/''" "\<not> occurs_in ''{path}'' (file_alias ''/srv/data/'')" by code_simp+
  have 4: "\<not> starts_with ''//'' (lstrip_chars c0_space ''a/../../data/./town'')" by code_simp
  have 5: "pp_parts (to_path (base_path ''/srv/data/'')) = [''srv'', ''data'']"
    "pp_parts (to_path ''/srv/data/town'') = [''srv'', ''data'', ''town'']" by code_simp+
  from file_key_confined [OF 1 _ _ 3 _ _ 2] 4 5 have
    "\<exists>rest. pp_parts (to_path (u_path ?r)) = [''srv'', ''data''] @ rest \<and> ''..'' \<notin> set rest" by simp
  with 2 5 show ?thesis by (intro exI [of _ ?r]) simp
qed

text \<open>Names of files and directories, and the paths made of them.\<close>

definition name_ok :: "string \<Rightarrow> bool" where
  "name_ok w = (w \<noteq> [] \<and> w \<noteq> ''.'' \<and> w \<noteq> ''..'' \<and> plain_chars w \<and> CHR ''/'' \<notin> set w \<and> CHR '':'' \<notin> set w)"

definition abs_path :: "string list \<Rightarrow> string" where
  "abs_path ws = CHR ''/'' # join_with CHR ''/'' ws"

definition climb :: "string list \<Rightarrow> string list \<Rightarrow> string list" where
  "climb rs ts = rs @ replicate (length rs) ''..'' @ ts"

lemma climb_names: "list_all name_ok rs \<Longrightarrow> list_all name_ok ts \<Longrightarrow> w \<in> set (climb rs ts) \<Longrightarrow>
    w \<noteq> [] \<and> w \<noteq> ''.'' \<and> plain_chars w \<and> CHR ''/'' \<notin> set w \<and> CHR '':'' \<notin> set w"
proof -
  assume h: "list_all name_ok rs" "list_all name_ok ts" "w \<in> set (climb rs ts)"
  have d: "plain_chars ''..''" by (simp add: plain_chars_def)
  from h have "name_ok w \<or> w = ''..''" by (auto simp: climb_def list_all_iff)
  with d show ?thesis by (auto simp: name_ok_def)
qed

lemma parts_of_names:
  assumes "ws \<noteq> []" and "\<forall>w \<in> set ws. w \<noteq> [] \<and> w \<noteq> ''.'' \<and> CHR ''/'' \<notin> set w"
  shows "pp_parts (to_path (abs_path ws)) = ws" and "pp_root (to_path (abs_path ws)) = ''/''"
    and "pp_parts (to_path (abs_path ws @ ''/'')) = ws" and "pp_root (to_path (abs_path ws @ ''/'')) = ''/''"
proof -
  have sep: "split_on CHR ''/'' (join_with CHR ''/'' ws) = ws" using assms by (intro split_join) auto
  have j: "join_with CHR ''/'' ws @ ''/'' = join_with CHR ''/'' (ws @ [[]])"
    using assms(1) by (induction ws rule: induct_list012) auto
  have sep2: "split_on CHR ''/'' (join_with CHR ''/'' ws @ ''/'') = ws @ [[]]"
    unfolding j using assms by (intro split_join) auto
  have f: "filter (\<lambda>p. p \<noteq> [] \<and> p \<noteq> ''.'') ws = ws" using assms(2) by (auto simp: filter_id_conv)
  show "pp_parts (to_path (abs_path ws)) = ws" "pp_parts (to_path (abs_path ws @ ''/'')) = ws"
    by (simp_all add: path_parts_split abs_path_def sep sep2 f)
  obtain v vs where v: "ws = v # vs" using assms(1) by (cases ws) auto
  then obtain c cs where c: "v = c # cs" "c \<noteq> CHR ''/''" using assms(2) by (cases v) auto
  with v have "join_with CHR ''/'' ws = c # tl (join_with CHR ''/'' ws)" by (cases vs) auto
  with c(2) show "pp_root (to_path (abs_path ws)) = ''/''" "pp_root (to_path (abs_path ws @ ''/'')) = ''/''"
    by (simp_all add: to_path_def abs_path_def starts_with_def) (metis append_Cons list.inject take_Suc_Cons)+
qed

lemma collapse_climb:
  assumes "''..'' \<notin> set rs" and "''..'' \<notin> set ts"
  shows "collapse [] (climb rs ts) = ts"
proof -
  have "collapse acc (replicate n ''..'') = take (length acc - n) acc" for acc n
    by (induction n arbitrary: acc) (auto simp: butlast_conv_take min_def)
  with assms show ?thesis by (simp add: climb_def collapse_append collapse_no_dots)
qed

lemma abs_path_chars:
  "\<forall>w \<in> set ws. plain_chars w \<and> CHR '':'' \<notin> set w \<Longrightarrow> plain_chars (abs_path ws) \<and> CHR '':'' \<notin> set (abs_path ws)"
proof -
  assume h: "\<forall>w \<in> set ws. plain_chars w \<and> CHR '':'' \<notin> set w"
  have "c = CHR ''/'' \<or> (\<exists>w \<in> set ws. c \<in> set w)" if "c \<in> set (abs_path ws)" for c
    using that join_with_set [of c "CHR ''/''" ws] by (auto simp: abs_path_def)
  with h show ?thesis unfolding plain_chars_def using not_junk(3) by fastforce
qed

lemma names_path_plain: "list_all name_ok rs \<Longrightarrow> plain_chars (abs_path rs @ ''/'')"
proof -
  assume "list_all name_ok rs"
  then have "plain_chars (abs_path rs)" using abs_path_chars [of rs] by (simp add: list_all_iff name_ok_def)
  then show ?thesis by (rule plain_chars_mono) (simp add: abs_path_def)
qed

lemma escape_key_url:
  assumes "plain_chars p"
  shows "\<exists>u. urlparse (''file:////h'' @ p) = Inr u \<and> u_scheme u = ''file'' \<and> u_path u = ''//h'' @ p \<and> u_query u = []"
proof -
  have pp: "plain_chars (''//h'' @ p)" using assms by (simp add: plain_chars_def url_junk_def)
  have rt: "rooted (''//h'' @ p)" by (simp add: rooted_def)
  have t: "url_tail []" by (simp add: url_tail_def)
  from urlparse_file [OF net_chars_Nil pp rt t, of "[]"] obtain u where
    "urlparse (''file://'' @ [] @ (''//h'' @ p) @ []) = Inr u" "u_scheme u = ''file''" "u_path u = ''//h'' @ p" "u_query u = []"
    by blast
  then show ?thesis by (intro exI [of _ u]) simp
qed

text \<open>
  C37:  Escape. A key of the file scheme whose path starts with four slashes is not confined: the
  part after them is taken for a network location, and such a reference is joined without removing
  parent references, which the lexical test of \<open>relative_to\<close> accepts. For every root directory
  and every path \<open>ts\<close> of the machine, the key \<open>file:////h\<close> followed by the root, as many
  parent references and the path is resolved, to a URL whose path the operating system reads as
  \<open>ts\<close>.
\<close>
theorem file_key_escape:
  assumes "list_all name_ok rs" and "rs \<noteq> []" and "list_all name_ok ts"
    and "strip_chars ''/'' rootdir = join_with CHR ''/'' rs"
    and "\<not> occurs_in ''{path}'' (file_alias rootdir)"
    and "od_get al ''file'' = Some (file_alias rootdir)"
  shows "\<exists>r. resolve_alias conf dflt (''file:////h'' @ abs_path (climb rs ts)) al = (Inr r, al)
    \<and> u_scheme r = ''file'' \<and> pp_root (to_path (u_path r)) = ''/'' \<and> real_parts (to_path (u_path r)) = ts"
proof -
  let ?p = "abs_path (climb rs ts)"
  note names = climb_names [OF assms(1,3)]
  have pl: "plain_chars ?p" "CHR '':'' \<notin> set ?p" using abs_path_chars [of "climb rs ts"] names by auto
  have rt: "rooted ?p" "root_it ?p = ?p" by (simp_all add: rooted_def abs_path_def root_it_def starts_with_def)
  have net: "net_chars ''h''" by (simp add: net_chars_def plain_chars_def url_junk_def)
  obtain u where u: "urlparse (''file:////h'' @ ?p) = Inr u" "u_scheme u = ''file''" "u_path u = ''//h'' @ ?p" "u_query u = []"
    using escape_key_url [OF pl(1)] by blast
  have bp: "base_path rootdir = abs_path rs @ ''/''" by (simp add: base_path_def assms(4) abs_path_def)
  have bpl: "plain_chars (base_path rootdir)" unfolding bp by (rule names_path_plain [OF assms(1)])
  obtain b where b: "urlparse (file_alias rootdir) = Inr b" "u_scheme b = ''file''" "u_path b = base_path rootdir"
      "u_query b = []" and bs: "starts_with ''/'' (u_path b)" and ub: "urlunparse b = file_alias rootdir"
    using urlparse_file_alias [OF bpl] by blast
  have col: "CHR '':'' \<notin> set (''h'' @ ?p)" using pl(2) by simp
  obtain q where q: "urlparse_dflt ''file'' (''//'' @ ''h'' @ ?p @ ''?'') = Inr q" "u_scheme q = ''file''" "u_netloc q = ''h''"
      "u_path q = ?p" "u_params q = []"
    using urlparse_netref [OF net pl(1) rt(1) col] by blast
  have mq: "merge_qs [] [] = []" by code_simp
  have f: "''file'' \<in> set uses_netloc" "''file'' \<in> set uses_relative" by (simp_all add: uses_netloc_def uses_relative_def)
  have j: "urljoin (file_alias rootdir) (u_path u @ ''?'' @ merge_qs (u_query b) (u_query u)) = Inr (urlunparse q)"
    using b(1,2) q f by (simp add: urljoin_def u(3,4) b(4) mq file_alias_def)
  obtain t where t: "urlunparse q = ''file://'' @ ''h'' @ ?p @ t" "url_tail t"
    using urlunparse_file [OF q(2,5)] q(3,4) rt(2) by auto
  obtain r where r: "urlparse (urlunparse q) = Inr r" "u_scheme r = ''file''" "u_path r = ?p"
    using urlparse_file [OF net pl(1) rt(1) t(2), of "[]"] t(1) by auto
  have cl: "climb rs ts \<noteq> []" "\<forall>w \<in> set (climb rs ts). w \<noteq> [] \<and> w \<noteq> ''.'' \<and> CHR ''/'' \<notin> set w"
    using assms(2) names by (auto simp: climb_def)
  have rl: "\<forall>w \<in> set rs. w \<noteq> [] \<and> w \<noteq> ''.'' \<and> CHR ''/'' \<notin> set w"
    using assms(1) by (auto simp: list_all_iff name_ok_def)
  note parts = parts_of_names [OF cl] parts_of_names [OF assms(2) rl]
  have rel: "is_relative_to (to_path (u_path r)) (to_path (base_path rootdir))"
    by (simp add: is_relative_to_def r(3) bp parts) (simp add: climb_def)
  have "apply_alias (file_alias rootdir) u = Inr r"
    using assms(5) b(1,3) bs ub j r(1) rel by (simp add: apply_alias_def Let_def)
  then have res: "resolve_alias conf dflt (''file:////h'' @ ?p) al = (Inr r, al)"
    using resolve_alias_file [OF u(1) _ assms(6)] u(2) by simp
  have "''..'' \<notin> set rs" "''..'' \<notin> set ts" using assms(1,3) by (auto simp: list_all_iff name_ok_def)
  then have "real_parts (to_path (u_path r)) = ts" by (simp add: real_parts_def r(3) parts collapse_climb)
  with res r(2) show ?thesis by (intro exI [of _ r]) (simp add: r(3) parts)
qed

lemma file_key_escape_witness:
  "\<exists>r. resolve_alias (\<lambda>s. Inl KeyError) ''file'' ''file:////h/srv/data/../../etc/secret'' [(''file'', file_alias ''/srv/data/'')]
       = (Inr r, [(''file'', file_alias ''/srv/data/'')])
     \<and> u_scheme r = ''file'' \<and> real_parts (to_path (u_path r)) = [''etc'', ''secret'']"
proof -
  have 1: "list_all name_ok [''srv'', ''data'']" "list_all name_ok [''etc'', ''secret'']" by code_simp+
  have 2: "strip_chars ''/'' ''/srv/data/'' = join_with CHR ''/'' [''srv'', ''data'']"
    "\<not> occurs_in ''{path}'' (file_alias ''/srv/data/'')" by code_simp+
  have 3: "abs_path (climb [''srv'', ''data''] [''etc'', ''secret'']) = ''/srv/data/../../etc/secret''" by code_simp
  from file_key_escape [OF 1(1) _ 1(2) 2, of "[(''file'', file_alias ''/srv/data/'')]" "\<lambda>s. Inl KeyError" "''file''"] 3
  show ?thesis by auto
qed

section \<open>Templates and queries\<close>

lemma format_path_lit: "CHR ''{'' \<notin> set s \<Longrightarrow> CHR ''}'' \<notin> set s \<Longrightarrow> format_path p s = Inr s"
proof (induction s)
  case Nil
  then show ?case by (simp add: format_path.simps)
next
  case (Cons c s)
  then have "format_path p (c # s) = rbind (format_path p s) (\<lambda>t. Inr (c # t))"
    by (subst format_path.simps) (auto simp: starts_with_def)
  with Cons show ?case by simp
qed

lemma format_path_field:
  "CHR ''{'' \<notin> set s \<Longrightarrow> CHR ''}'' \<notin> set s \<Longrightarrow> format_path p (''{path}'' @ s) = Inr (p @ s)"
  by (subst format_path.simps) (auto simp: starts_with_def format_path_lit)

lemma format_path_template:
  "CHR ''{'' \<notin> set pre \<Longrightarrow> CHR ''}'' \<notin> set pre \<Longrightarrow> CHR ''{'' \<notin> set post \<Longrightarrow> CHR ''}'' \<notin> set post \<Longrightarrow>
     format_path p (pre @ ''{path}'' @ post) = Inr (pre @ p @ post)"
proof (induction pre)
  case Nil
  then show ?case using format_path_field [of post p] by simp
next
  case (Cons c pre)
  then have "format_path p (c # pre @ ''{path}'' @ post) = rbind (format_path p (pre @ ''{path}'' @ post)) (\<lambda>t. Inr (c # t))"
    by (subst format_path.simps) (auto simp: starts_with_def)
  with Cons show ?case by simp
qed

lemma occurs_in_append: "occurs_in p (u @ p @ v)"
proof (induction u)
  case Nil
  have "starts_with p (p @ v)" by simp
  then show ?case by (cases "p @ v") auto
qed simp

text \<open>
   Template aliases. An alias with one \<open>{path}\<close> field is the text of the template with the
  path of the key put in place of the field, unquoted, and parsed: an ampersand in the path of the
  key starts a new query parameter of the target.
\<close>
theorem template_alias_verbatim:
  assumes "CHR ''{'' \<notin> set (pre @ post)" and "CHR ''}'' \<notin> set (pre @ post)"
  shows "apply_alias (pre @ ''{path}'' @ post) u = urlparse (pre @ u_path u @ post)"
  using assms format_path_template [of pre post "u_path u"] occurs_in_append [of "''{path}''" pre post]
  by (simp add: apply_alias_def)

lemma template_alias_verbatim_witness:
  "\<exists>u r. urlparse ''pg:town&schema=secret'' = Inr u
     \<and> apply_alias ''postgres:///?service=s&project={path}'' u = Inr r
     \<and> u_scheme r = ''postgres'' \<and> parse_qs (u_query r)
         = [(''service'', [''s'']), (''project'', [''town'']), (''schema'', [''secret''])]"
proof -
  let ?u = "\<lparr>u_scheme = ''pg'', u_netloc = [], u_path = ''town&schema=secret'', u_params = [], u_query = [], u_fragment = []\<rparr>"
  have "CHR ''{'' \<notin> set (''postgres:///?service=s&project='' @ [])" "CHR ''}'' \<notin> set (''postgres:///?service=s&project='' @ [])"
    by simp_all
  from template_alias_verbatim [OF this, of ?u]
  have "apply_alias ''postgres:///?service=s&project={path}'' ?u = urlparse ''postgres:///?service=s&project=town&schema=secret''"
    by simp
  moreover have "\<exists>r. urlparse ''postgres:///?service=s&project=town&schema=secret'' = Inr r \<and> u_scheme r = ''postgres''
      \<and> parse_qs (u_query r) = [(''service'', [''s'']), (''project'', [''town'']), (''schema'', [''secret''])]"
    by (rule exI [of _ "\<lparr>u_scheme = ''postgres'', u_netloc = [], u_path = ''/'', u_params = [],
          u_query = ''service=s&project=town&schema=secret'', u_fragment = []\<rparr>"]) code_simp
  moreover have "urlparse ''pg:town&schema=secret'' = Inr ?u" by code_simp
  ultimately show ?thesis by metis
qed

definition qs_plain :: "string \<Rightarrow> bool" where
  "qs_plain w = (\<forall>c \<in> set w. c \<noteq> CHR ''&'' \<and> c \<noteq> CHR ''='' \<and> c \<noteq> CHR ''%'' \<and> c \<noteq> CHR ''+'')"

lemma unquote_plain: "CHR ''%'' \<notin> set s \<Longrightarrow> unquote s = s"
  by (induction s rule: unquote.induct) auto

lemma unquote_plus_plain: "qs_plain s \<Longrightarrow> unquote_plus s = s"
proof -
  assume p: "qs_plain s"
  then have "replace_char CHR ''+'' CHR '' '' s = s"
    by (auto simp: replace_char_def qs_plain_def map_idI)
  with p show ?thesis unfolding unquote_plus_def by (auto simp: qs_plain_def intro: unquote_plain)
qed

definition qs_ok :: "(string, string list) odict \<Rightarrow> bool" where
  "qs_ok d = (distinct (map fst d) \<and> (\<forall>(k, vs) \<in> set d. qs_plain k \<and> vs \<noteq> [] \<and> qs_plain (hd vs) \<and> hd vs \<noteq> []))"

lemma collect_qs_fresh:
  "distinct (map fst kvs) \<Longrightarrow> fst ` set kvs \<inter> fst ` set d = {} \<Longrightarrow>
     collect_qs d kvs = d @ map (\<lambda>(k, v). (k, [v])) kvs"
proof (induction kvs arbitrary: d)
  case (Cons kv kvs)
  obtain k v where kv: "kv = (k, v)" by (cases kv)
  with Cons.prems have n: "od_get d k = None" by (auto simp: map_of_eq_None_iff)
  then have "od_set k [v] d = d @ [(k, [v])]"
    by (intro od_keys_set_new) (auto simp: od_keys_def map_of_eq_None_iff)
  moreover have "collect_qs (d @ [(k, [v])]) kvs = (d @ [(k, [v])]) @ map (\<lambda>(k, v). (k, [v])) kvs"
    using Cons.prems kv by (intro Cons.IH) auto
  ultimately show ?case using kv n by simp
qed simp

text \<open>What \<open>query_text\<close> builds is read back, when names and values need no quoting.\<close>

lemma parse_query_text:
  assumes "qs_ok d"
  shows "parse_qs (query_text d) = map (\<lambda>(k, vs). (k, [hd vs])) d"
proof (cases "d = []")
  case True
  then show ?thesis by (simp add: query_text_def parse_qs_def parse_qsl_def after_def)
next
  case False
  let ?ws = "map (\<lambda>(k, vs). k @ ''='' @ hd vs) d"
  have "\<forall>w \<in> set ?ws. CHR ''&'' \<notin> set w" using assms by (fastforce simp: qs_ok_def qs_plain_def)
  with False have sp: "split_on CHR ''&'' (query_text d) = ?ws"
    unfolding query_text_def by (intro split_join) auto
  have kv: "before CHR ''='' (k @ ''='' @ hd vs) = k \<and> after CHR ''='' (k @ ''='' @ hd vs) = hd vs \<and> hd vs \<noteq> []
      \<and> unquote_plus k = k \<and> unquote_plus (hd vs) = hd vs" if "(k, vs) \<in> set d" for k vs
  proof -
    have q: "qs_plain k" "qs_plain (hd vs)" "hd vs \<noteq> []" using assms that by (auto simp: qs_ok_def)
    then have "CHR ''='' \<notin> set k" by (auto simp: qs_plain_def)
    with q show ?thesis by (simp add: before_append_sep after_append_sep unquote_plus_plain)
  qed
  have fl: "filter (\<lambda>nv. after CHR ''='' nv \<noteq> []) ?ws = ?ws" using kv by (auto simp: filter_id_conv)
  have mp: "map (\<lambda>nv. (unquote_plus (before CHR ''='' nv), unquote_plus (after CHR ''='' nv))) ?ws
      = map (\<lambda>(k, vs). (k, hd vs)) d"
    using kv by (auto simp: case_prod_unfold)
  have "parse_qsl (query_text d) = map (\<lambda>(k, vs). (k, hd vs)) d"
    unfolding parse_qsl_def sp fl mp by (rule refl)
  moreover have "map fst (map (\<lambda>(k, vs). (k, hd vs)) d) = map fst d" by (simp add: case_prod_unfold comp_def)
  ultimately show ?thesis
    using assms collect_qs_fresh [of "map (\<lambda>(k, vs). (k, hd vs)) d" "[]"]
    by (simp add: parse_qs_def qs_ok_def case_prod_unfold comp_def)
qed

lemma qs_ok_set: "qs_ok d \<Longrightarrow> qs_plain k \<Longrightarrow> vs \<noteq> [] \<Longrightarrow> qs_plain (hd vs) \<Longrightarrow> hd vs \<noteq> [] \<Longrightarrow> qs_ok (od_set k vs d)"
  unfolding qs_ok_def by (auto simp: distinct_update dest!: in_set_od_set)

lemma qs_ok_update: "qs_ok d \<Longrightarrow> qs_ok e \<Longrightarrow> qs_ok (od_update d e)"
proof (induction e arbitrary: d)
  case (Cons kv e)
  obtain j v where kv: "kv = (j, v)" by (cases kv)
  have "qs_plain j" "v \<noteq> []" "qs_plain (hd v)" "hd v \<noteq> []" "qs_ok e"
    using Cons.prems(2) by (simp_all add: kv qs_ok_def)
  then have "qs_ok (od_update (od_set j v d) e)" using Cons.prems(1) by (intro Cons.IH qs_ok_set)
  then show ?case by (simp add: od_update_def kv)
qed (simp add: od_update_def)

lemma map_of_heads: "map_of (map (\<lambda>(k, vs). (k, [hd vs])) d) k = map_option (\<lambda>vs. [hd vs]) (map_of d k)"
  by (induction d) auto

text \<open>
   Precedence of alias parameters. When no name and value of the two queries needs quoting, the
  merged query, parsed again, gives each name of the alias its first value there, and every other
  name the first value of the key's query. Theorem \<open>alias_bypass\<close> shows what happens when something does.
\<close>
theorem merge_qs_precedence:
  assumes "qs_ok (parse_qs query1)" and "qs_ok (parse_qs query2)"
  shows "od_get (parse_qs (merge_qs query1 query2)) k =
    (case od_get (parse_qs query1) k of
       Some vs \<Rightarrow> Some [hd vs]
     | None \<Rightarrow> map_option (\<lambda>vs. [hd vs]) (od_get (parse_qs query2) k))"
proof -
  have d: "distinct (map fst (parse_qs query1))" using assms(1) by (simp add: qs_ok_def)
  have "map_of (rev (parse_qs query1)) = map_of (parse_qs query1)"
    using d by (subst map_of_inject_set) (simp_all flip: rev_map)
  with qs_ok_update [OF assms(2,1)] show ?thesis
    by (simp add: merge_qs_def parse_query_text map_of_heads od_get_od_update split: option.splits)
qed

lemma merge_qs_precedence_witness:
  "od_get (parse_qs (merge_qs ''schema=public&dbname=gis'' ''project=town&schema=secret'')) ''schema'' = Some [''public'']"
proof -
  have q: "qs_ok (parse_qs ''schema=public&dbname=gis'')" "qs_ok (parse_qs ''project=town&schema=secret'')"
    "od_get (parse_qs ''schema=public&dbname=gis'') ''schema'' = Some [''public'']" by code_simp+
  show ?thesis using merge_qs_precedence [OF q(1,2), of "''schema''"] q(3) by simp
qed

text \<open>
   Bypass. A percent-encoded ampersand in the key's query is decoded by \<open>parse_qs\<close> and
  written back bare by \<open>_merge_qs\<close>; the key's pairs come first, so the smuggled parameter is
  read before the one the alias imposes. And a key of the file scheme whose path is itself a URL of
  another scheme leaves the alias with that scheme, host and query.
\<close>
theorem alias_bypass:
  "od_get (parse_qs (merge_qs ''schema=public'' ''project=town%26schema=secret'')) ''schema'' = Some [''secret'', ''public'']
   \<and> fst (resolve_alias conf ''file'' ''file:postgres://evil/srv/data/?project=p'' [(''file'', file_alias ''/srv/data'')])
       = Inr \<lparr>u_scheme = ''postgres'', u_netloc = ''evil'', u_path = ''/srv/data/'', u_params = [],
              u_query = ''project=p'', u_fragment = []\<rparr>"
proof
  show "od_get (parse_qs (merge_qs ''schema=public'' ''project=town%26schema=secret'')) ''schema''
      = Some [''secret'', ''public'']" by code_simp
  let ?u = "\<lparr>u_scheme = ''file'', u_netloc = [], u_path = ''postgres://evil/srv/data/'', u_params = [],
              u_query = ''project=p'', u_fragment = []\<rparr>"
  have u: "urlparse ''file:postgres://evil/srv/data/?project=p'' = Inr ?u" by code_simp
  have "apply_alias (file_alias ''/srv/data'') ?u
    = Inr \<lparr>u_scheme = ''postgres'', u_netloc = ''evil'', u_path = ''/srv/data/'', u_params = [],
              u_query = ''project=p'', u_fragment = []\<rparr>" by code_simp
  then show "fst (resolve_alias conf ''file'' ''file:postgres://evil/srv/data/?project=p'' [(''file'', file_alias ''/srv/data'')])
       = Inr \<lparr>u_scheme = ''postgres'', u_netloc = ''evil'', u_path = ''/srv/data/'', u_params = [],
              u_query = ''project=p'', u_fragment = []\<rparr>"
    using resolve_alias_file [OF u] by simp
qed

end
