(* ===== verification/QgisProject.thy ===== *)
theory QgisProject
  imports UrlLib
begin

text \<open>
  Projects and how they are read: \<open>CacheDetails\<close>, \<open>read_project\<close>,
  \<open>prepare_project\<close>, \<open>BadLayerHandler\<close> and \<open>get_project_summary\<close> of
  \<open>src/pyqgisserver/qgscache/cachemanager.py\<close>, and the \<open>ProtocolHandler\<close> interface of
  \<open>handlers/proto.py\<close>.

  A QGIS project is a record of what the program looks at. What \<open>QgsProject.read\<close> does is
  QGIS code: it is the parameter \<open>qgis_read\<close> of the environment, a function of the file name
  and the read flags giving the project, whether the read succeeded and the calls QGIS made to
  the bad layer handler. A moment of the outside world (file times, database, QGIS) is an
  \<open>env\<close>, which every operation that looks outside takes as an argument. Times are
  microseconds.
\<close>

section \<open>Projects\<close>

record layer =
  l_id :: string
  l_name :: string
  l_source :: string
  l_crs :: string
  l_valid :: bool
  l_spatial :: bool

record qproject =
  p_file :: string
  p_serial :: nat
  p_last_modified :: "int option"
  p_layers :: "layer list"
  p_crs :: string
  p_restricted :: "string list"
  p_entries :: "(string \<times> string, string) odict"

datatype read_flag = TrustLayerMetadata | DontLoadLayouts | ForceReadOnlyLayers

text \<open>A layer element passed to the handler: \<open>None\<close> for a null node, else its name if it has one.\<close>

type_synonym bad_layer = "string option option"

record read_outcome =
  ro_ok :: bool
  ro_project :: qproject
  ro_bad_calls :: "bad_layer list list"

record env =
  file_mtime :: "string \<Rightarrow> int option"
  qgis_read :: "string \<Rightarrow> read_flag list \<Rightarrow> read_outcome"
  storage_mtime :: "string \<Rightarrow> int option option"

record cm_options =
  strict_check :: bool
  trust_layer_metadata :: bool
  disable_getprint :: bool
  disable_owsurls :: bool
  read_only_layers :: bool

section \<open>Bad layers\<close>

text \<open>Each call replaces the set of names; a layer without name is not counted.\<close>

definition handleBadLayers :: "bad_layer list \<Rightarrow> string list" where
  "handleBadLayers layers = remdups (concat (map (\<lambda>lyr. case lyr of Some (Some n) \<Rightarrow> [n] | _ \<Rightarrow> []) layers))"

definition bad_layer_names :: "bad_layer list list \<Rightarrow> string list" where
  "bad_layer_names calls = foldl (\<lambda>acc layers. handleBadLayers layers) [] calls"

definition validateLayers :: "string list \<Rightarrow> qproject \<Rightarrow> bool" where
  "validateLayers names p = (if names \<noteq> [] then set names \<subseteq> set (p_restricted p) else True)"

section \<open>Reading a project\<close>

definition prepare_project :: "cm_options \<Rightarrow> qproject \<Rightarrow> qproject" where
  "prepare_project opts p =
     (if disable_owsurls opts
      then foldl (\<lambda>q k. q\<lparr>p_entries := od_set (k, ''/'') [] (p_entries q)\<rparr>) p
             [''WMSUrl'', ''WFSUrl'', ''WCSUrl'', ''WMTSUrl'']
      else p)"

definition read_flags :: "cm_options \<Rightarrow> read_flag list" where
  "read_flags opts =
     (if trust_layer_metadata opts then [TrustLayerMetadata] else [])
     @ (if disable_getprint opts then [DontLoadLayouts] else [])
     @ (if read_only_layers opts then [ForceReadOnlyLayers] else [])"

definition read_project :: "env \<Rightarrow> cm_options \<Rightarrow> string \<Rightarrow> qproject result" where
  "read_project w opts uri =
     (let r = qgis_read w uri (read_flags opts) in
      if \<not> ro_ok r then Inl RuntimeError
      else if strict_check opts \<and> \<not> validateLayers (bad_layer_names (ro_bad_calls r)) (ro_project r)
      then Inl StrictCheckingError
      else Inr (prepare_project opts (ro_project r)))"

lemma read_project_result:
  "is_ok (read_project w opts uri) \<or> read_project w opts uri \<in> {Inl RuntimeError, Inl StrictCheckingError}"
  by (auto simp: read_project_def Let_def)

lemma read_project_Inl:
  "read_project w opts uri = Inl e \<Longrightarrow> e = RuntimeError \<or> e = StrictCheckingError"
  by (auto simp: read_project_def Let_def split: if_splits)

lemma set_handleBadLayers: "n \<in> set (handleBadLayers ls) \<longleftrightarrow> Some (Some n) \<in> set ls"
  by (force simp: handleBadLayers_def split: option.splits)

lemma bad_layer_names_last: "bad_layer_names (calls @ [ls]) = handleBadLayers ls"
  by (simp add: bad_layer_names_def)

lemma prepare_project_other:
  "p_layers (prepare_project opts p) = p_layers p \<and> p_file (prepare_project opts p) = p_file p
     \<and> p_last_modified (prepare_project opts p) = p_last_modified p"
  by (simp add: prepare_project_def)

lemma prepare_project_urls:
  "disable_owsurls opts \<Longrightarrow> k \<in> {''WMSUrl'', ''WFSUrl'', ''WCSUrl'', ''WMTSUrl''} \<Longrightarrow>
     od_get (p_entries (prepare_project opts p)) (k, ''/'') = Some []"
  by (cases "k = ''WMSUrl''"; cases "k = ''WFSUrl''"; cases "k = ''WCSUrl''"; cases "k = ''WMTSUrl''")
    (simp_all add: prepare_project_def)

lemma validate_last:
  "validateLayers (bad_layer_names calls) q \<longleftrightarrow>
     (calls \<noteq> [] \<longrightarrow> (\<forall>n. Some (Some n) \<in> set (last calls) \<longrightarrow> n \<in> set (p_restricted q)))"
proof (cases calls rule: rev_cases)
  case Nil
  then show ?thesis by (simp add: validateLayers_def bad_layer_names_def)
next
  case (snoc cs ls)
  have "validateLayers (handleBadLayers ls) q \<longleftrightarrow> (\<forall>n \<in> set (handleBadLayers ls). n \<in> set (p_restricted q))"
    by (auto simp: validateLayers_def)
  with snoc show ?thesis by (simp add: bad_layer_names_last set_handleBadLayers Ball_def)
qed

text \<open>
  Strict mode. A project is returned exactly when QGIS could read it and, with
  \<open>strict_check\<close> on, every layer that the last report of QGIS names as bad is hidden from the
  WMS (restricted); only the last report counts. What is returned is the project QGIS read, with
  its service URLs emptied when the options ask for it.
\<close>
theorem strict_mode_spec:
  "let r = qgis_read w uri (read_flags opts); calls = ro_bad_calls r in
   (read_project w opts uri = Inr p) \<longleftrightarrow>
     ro_ok r \<and> p = prepare_project opts (ro_project r)
     \<and> (strict_check opts \<and> calls \<noteq> [] \<longrightarrow>
          (\<forall>n. Some (Some n) \<in> set (last calls) \<longrightarrow> n \<in> set (p_restricted (ro_project r))))"
  by (auto simp: read_project_def Let_def validate_last)

definition sample_project :: "string \<Rightarrow> string list \<Rightarrow> qproject" where
  "sample_project f hidden = \<lparr>p_file = f, p_serial = 1, p_last_modified = Some 7, p_layers = [], p_crs = ''EPSG:4326'',
     p_restricted = hidden, p_entries = []\<rparr>"

definition strict_options :: cm_options where
  "strict_options = \<lparr>strict_check = True, trust_layer_metadata = False, disable_getprint = True,
     disable_owsurls = True, read_only_layers = True\<rparr>"

definition env_bad_layers :: "string list \<Rightarrow> env" where
  "env_bad_layers hidden = \<lparr>file_mtime = (\<lambda>f. None),
     qgis_read = (\<lambda>f fl. \<lparr>ro_ok = True, ro_project = sample_project f hidden,
        ro_bad_calls = [[Some (Some ''roads''), None, Some None]]\<rparr>),
     storage_mtime = (\<lambda>u. None)\<rparr>"

lemma strict_mode_spec_witness:
  "read_project (env_bad_layers [''roads'']) strict_options ''/p.qgs''
     = Inr (prepare_project strict_options (sample_project ''/p.qgs'' [''roads'']))
   \<and> read_project (env_bad_layers [''rivers'']) strict_options ''/p.qgs''
     \<noteq> Inr (prepare_project strict_options (sample_project ''/p.qgs'' [''rivers'']))"
  using strict_mode_spec [of "env_bad_layers [''roads'']" "''/p.qgs''" strict_options
      "prepare_project strict_options (sample_project ''/p.qgs'' [''roads''])"]
    strict_mode_spec [of "env_bad_layers [''rivers'']" "''/p.qgs''" strict_options
      "prepare_project strict_options (sample_project ''/p.qgs'' [''rivers''])"]
  by (simp add: env_bad_layers_def Let_def sample_project_def strict_options_def)

section \<open>Summaries\<close>

record summary =
  sm_cache_key :: string
  sm_filename :: string
  sm_bad_layers_count :: nat
  sm_layers :: "layer list"
  sm_crs :: string
  sm_last_modified :: "int option"

definition get_project_summary :: "string \<Rightarrow> qproject \<Rightarrow> summary" where
  "get_project_summary key p =
     \<lparr>sm_cache_key = key, sm_filename = p_file p,
      sm_bad_layers_count = length (filter (\<lambda>l. \<not> l_valid l) (p_layers p)),
      sm_layers = p_layers p, sm_crs = p_crs p, sm_last_modified = p_last_modified p\<rparr>"

section \<open>The interface of protocol handlers\<close>

text \<open>
  \<open>get_modified_time(url)\<close> and \<open>get_project(url, project, timestamp)\<close>; the cache
  passes the project and its timestamp together or not at all.
\<close>

record phandler =
  ph_mtime :: "url \<Rightarrow> int result"
  ph_get :: "url \<Rightarrow> (qproject \<times> int) option \<Rightarrow> (qproject \<times> int) result"

text \<open>
  What the cache relies on: when a handler gives back the timestamp it was passed, the project is
  the one it was passed; and a project it was not passed comes with the date of the resource.
\<close>

locale protocol_handler =
  fixes get :: "url \<Rightarrow> (qproject \<times> int) option \<Rightarrow> (qproject \<times> int) result"
    and mtime :: "url \<Rightarrow> int result"
  assumes same_stamp: "get u (Some (p, t)) = Inr (q, t) \<Longrightarrow> q = p"
    and fresh_stamp: "get u None = Inr (q, t) \<Longrightarrow> mtime u = Inr t"
    and newer_stamp: "get u (Some (p, t)) = Inr (q, t') \<Longrightarrow> mtime u = Inr m \<Longrightarrow> t < m \<Longrightarrow> t' = m"
begin

lemma changed_project_new_stamp: "get u (Some (p, t)) = Inr (q, t') \<Longrightarrow> q \<noteq> p \<Longrightarrow> t' \<noteq> t"
  using same_stamp by blast

text \<open>A resource that does not change is read once: the second call returns the same project.\<close>

lemma get_again:
  "get u None = Inr (q, t) \<Longrightarrow> get u (Some (q, t)) = Inr (q', t') \<Longrightarrow> t' = t \<Longrightarrow> q' = q"
  using same_stamp by blast

end

end
