(* ===== verification/FileHandler.thy ===== *)
theory FileHandler
  imports QgisProject
begin

text \<open>
  \<open>src/pyqgisserver/qgscache/handlers/file_handler.py\<close>: the handler of the \<open>file\<close>
  scheme. \<open>is_file\<close> and \<open>stat\<close> are the environment's \<open>file_mtime\<close>: a path is a
  regular file when it has a modification time.
\<close>

definition ALLOWED_SFX :: "string list" where
  "ALLOWED_SFX = [''.qgs'', ''.qgz'']"

definition is_file :: "env \<Rightarrow> ppath \<Rightarrow> bool" where
  "is_file w p = (file_mtime w (path_str p) \<noteq> None)"

definition st_mtime :: "env \<Rightarrow> ppath \<Rightarrow> int" where
  "st_mtime w p = the (file_mtime w (path_str p))"

text \<open>The loop over the suffixes: the path is replaced at each turn, the first file ends it.\<close>

fun probe :: "env \<Rightarrow> ppath \<Rightarrow> string list \<Rightarrow> ppath option result" where
  "probe w p [] = Inr None"
| "probe w p (sfx # sfxs) =
     rbind (with_suffix sfx p) (\<lambda>q. if is_file w q then Inr (Some q) else probe w q sfxs)"

definition check_file :: "env \<Rightarrow> ppath \<Rightarrow> ppath option result" where
  "check_file w p =
     (if \<not> is_absolute p then Inl ValueError
      else if pp_suffix p \<notin> set ALLOWED_SFX then probe w p ALLOWED_SFX
      else Inr (if is_file w p then Some p else None))"

definition file_modified_time :: "env \<Rightarrow> url \<Rightarrow> int result" where
  "file_modified_time w u = rbind (check_file w (to_path (u_path u)))
     (\<lambda>r. case r of None \<Rightarrow> Inl FileNotFoundError | Some p \<Rightarrow> Inr (st_mtime w p))"

text \<open>
  \<open>get_project\<close>. Without a URL, the name of the project (a string, not a path) is passed to
  \<open>_check_file\<close>, whose first line asks it for \<open>is_absolute\<close>.
\<close>

definition file_get_project ::
  "env \<Rightarrow> cm_options \<Rightarrow> url option \<Rightarrow> qproject option \<Rightarrow> int option \<Rightarrow> (qproject option \<times> int option) result" where
  "file_get_project w opts u project timestamp =
     rbind (case u of
              Some l \<Rightarrow> check_file w (to_path (u_path l))
            | None \<Rightarrow> (case project of Some p \<Rightarrow> Inl AttributeError | None \<Rightarrow> Inl ValueError))
       (\<lambda>path. case path of
          None \<Rightarrow> Inl FileNotFoundError
        | Some p \<Rightarrow>
            (let m = st_mtime w p in
             if timestamp = None \<or> the timestamp < m
             then rbind (read_project w opts (path_str p)) (\<lambda>q. Inr (Some q, Some m))
             else Inr (project, timestamp)))"

text \<open>The two calls the cache makes.\<close>

definition file_handler :: "env \<Rightarrow> cm_options \<Rightarrow> phandler" where
  "file_handler w opts =
     \<lparr>ph_mtime = file_modified_time w,
      ph_get = (\<lambda>u d. case d of
          None \<Rightarrow> rbind (file_get_project w opts (Some u) None None) (\<lambda>(p, t). Inr (the p, the t))
        | Some (q, s) \<Rightarrow> rbind (file_get_project w opts (Some u) (Some q) (Some s)) (\<lambda>(p, t). Inr (the p, the t)))\<rparr>"

section \<open>Lemmas\<close>

lemma probe_is_file: "probe w p ss = Inr (Some q) \<Longrightarrow> is_file w q"
  by (induction ss arbitrary: p) (auto split: if_splits)

lemma check_file_is_file: "check_file w p = Inr (Some q) \<Longrightarrow> is_file w q"
  by (auto simp: check_file_def dest: probe_is_file split: if_splits)

lemma with_suffix_parts:
  "with_suffix sfx p = Inr q \<Longrightarrow> pp_root q = pp_root p \<and> butlast (pp_parts q) = butlast (pp_parts p)
     \<and> length (pp_parts q) = length (pp_parts p)"
  by (auto simp: with_suffix_def pp_name_def split: if_splits)

lemma probe_dir:
  "probe w p ss = Inr (Some q) \<Longrightarrow> pp_root q = pp_root p \<and> butlast (pp_parts q) = butlast (pp_parts p)
     \<and> length (pp_parts q) = length (pp_parts p)"
proof (induction ss arbitrary: p)
  case (Cons s ss)
  from Cons.prems obtain r where r: "with_suffix s p = Inr r"
    and rest: "(if is_file w r then Inr (Some r) else probe w r ss) = Inr (Some q)" by auto
  show ?case
  proof (cases "is_file w r")
    case True
    with r rest show ?thesis by (auto dest: with_suffix_parts)
  next
    case False
    with rest have "probe w r ss = Inr (Some q)" by simp
    from Cons.IH [OF this] with_suffix_parts [OF r] show ?thesis by simp
  qed
qed simp

text \<open>What is served lies in the directory that was asked for.\<close>

lemma check_file_dir:
  "check_file w p = Inr (Some q) \<Longrightarrow> pp_root q = pp_root p \<and> butlast (pp_parts q) = butlast (pp_parts p)
     \<and> length (pp_parts q) = length (pp_parts p)"
  by (auto simp: check_file_def dest: probe_dir split: if_splits)

lemma file_get_url:
  "file_get_project w opts (Some u) pr ts = Inr (p', t') \<Longrightarrow>
     \<exists>q. check_file w (to_path (u_path u)) = Inr (Some q) \<and>
       ((ts = None \<or> the ts < st_mtime w q) \<and> t' = Some (st_mtime w q)
           \<and> (\<exists>r. read_project w opts (path_str q) = Inr r \<and> p' = Some r)
        \<or> \<not> (ts = None \<or> the ts < st_mtime w q) \<and> p' = pr \<and> t' = ts)"
  by (auto simp: file_get_project_def Let_def split: option.splits if_splits)

lemma file_handler_new:
  "ph_get (file_handler w opts) u None = Inr (p, t) \<Longrightarrow>
     \<exists>q. check_file w (to_path (u_path u)) = Inr (Some q) \<and> t = st_mtime w q
       \<and> read_project w opts (path_str q) = Inr p"
  by (auto simp: file_handler_def dest!: file_get_url)

lemma file_handler_old:
  "ph_get (file_handler w opts) u (Some (p, t)) = Inr (p', t') \<Longrightarrow>
     \<exists>q. check_file w (to_path (u_path u)) = Inr (Some q) \<and>
       (t < st_mtime w q \<and> t' = st_mtime w q \<and> read_project w opts (path_str q) = Inr p'
        \<or> st_mtime w q \<le> t \<and> p' = p \<and> t' = t)"
  by (auto simp: file_handler_def dest!: file_get_url)

interpretation fileh: protocol_handler "ph_get (file_handler w opts)" "ph_mtime (file_handler w opts)"
proof
  show "ph_get (file_handler w opts) u (Some (p, t)) = Inr (q, t) \<Longrightarrow> q = p" for u p t q
    by (auto dest: file_handler_old)
  show "ph_get (file_handler w opts) u None = Inr (q, t) \<Longrightarrow> ph_mtime (file_handler w opts) u = Inr t" for u q t
    by (drule file_handler_new) (auto simp: file_handler_def file_modified_time_def)
  show "ph_get (file_handler w opts) u (Some (p, t)) = Inr (q, t') \<Longrightarrow>
      ph_mtime (file_handler w opts) u = Inr m \<Longrightarrow> t < m \<Longrightarrow> t' = m" for u p t q t' m
    by (drule file_handler_old) (auto simp: file_handler_def file_modified_time_def)
qed

section \<open>Properties\<close>

text \<open>
  C35:  The file handler. A call with a URL either raises, or finds a file in the directory of the
  URL's path (the path itself when its suffix is allowed, else the path with its suffix replaced)
  and returns: the project just read with the file's date, when there was no timestamp or an older
  one; exactly what it was passed otherwise. A file put back with an older date is not read again.
\<close>
theorem file_get_project_spec:
  assumes "file_get_project w opts (Some u) project timestamp = Inr (p', t')"
  shows "\<exists>q. is_file w q \<and> pp_root q = pp_root (to_path (u_path u))
    \<and> butlast (pp_parts q) = butlast (pp_parts (to_path (u_path u)))
    \<and> (if timestamp = None \<or> the timestamp < st_mtime w q
       then t' = Some (st_mtime w q) \<and> (\<exists>r. read_project w opts (path_str q) = Inr r \<and> p' = Some r)
       else p' = project \<and> t' = timestamp)"
  using file_get_url [OF assms] check_file_is_file check_file_dir by (metis (no_types, lifting))

definition one_file :: "string \<Rightarrow> env" where
  "one_file f = \<lparr>file_mtime = (\<lambda>g. if g = f then Some 5 else None),
     qgis_read = (\<lambda>g fl. \<lparr>ro_ok = True, ro_project = sample_project g [], ro_bad_calls = []\<rparr>),
     storage_mtime = (\<lambda>u. None)\<rparr>"

definition file_url :: "string \<Rightarrow> url" where
  "file_url p = \<lparr>u_scheme = ''file'', u_netloc = [], u_path = p, u_params = [], u_query = [], u_fragment = []\<rparr>"

lemma file_get_project_spec_witness:
  "\<exists>q. is_file (one_file ''/d/town.qgz'') q \<and> pp_root q = ''/'' \<and> butlast (pp_parts q) = [''d'']
     \<and> st_mtime (one_file ''/d/town.qgz'') q = 5"
proof -
  have p: "to_path ''/d/town'' = \<lparr>pp_root = ''/'', pp_parts = [''d'', ''town'']\<rparr>" by code_simp
  have "file_get_project (one_file ''/d/town.qgz'') strict_options (Some (file_url ''/d/town'')) None None
      = Inr (Some (prepare_project strict_options (sample_project ''/d/town.qgz'' [])), Some 5)"
    by code_simp
  from file_get_project_spec [OF this] p show ?thesis by (auto simp: file_url_def)
qed

text \<open>
   Suffixes are replaced, not appended. Two different project names that differ only in what
  follows the last dot are served from the same file: a request for \<open>stem.ext\<close> is answered with
  the project \<open>stem.qgs\<close>, for every stem without dot and slash and every non-empty extension
  other than the allowed ones.
\<close>
theorem suffix_collision:
  assumes "stem \<noteq> []" and "ext \<noteq> []" and "CHR ''.'' \<notin> set stem" and "CHR ''.'' \<notin> set ext"
    and "CHR ''.'' # ext \<notin> set ALLOWED_SFX"
    and "is_file w \<lparr>pp_root = ''/'', pp_parts = dir @ [stem @ ''.qgs'']\<rparr>"
  shows "check_file w \<lparr>pp_root = ''/'', pp_parts = dir @ [stem @ CHR ''.'' # ext]\<rparr>
       = Inr (Some \<lparr>pp_root = ''/'', pp_parts = dir @ [stem @ ''.qgs'']\<rparr>)"
    (is "check_file w ?p = Inr (Some ?q)")
proof -
  have "before CHR ''.'' (rev ext @ CHR ''.'' # rev stem) = rev ext"
    using assms(4) by (intro before_append_sep) simp
  then have sfx: "name_suffix (stem @ CHR ''.'' # ext) = CHR ''.'' # ext"
    using assms(1,2) by (cases stem) (simp_all add: name_suffix_def Let_def)
  then have "with_suffix ''.qgs'' ?p = Inr ?q"
    by (simp add: with_suffix_def pp_name_def pp_suffix_def)
  with assms(5,6) sfx show ?thesis
    by (simp add: check_file_def is_absolute_def pp_suffix_def pp_name_def ALLOWED_SFX_def)
qed

lemma suffix_collision_witness:
  "check_file (one_file ''/d/town.qgs'') \<lparr>pp_root = ''/'', pp_parts = [''d'', ''town.v2'']\<rparr>
     = Inr (Some \<lparr>pp_root = ''/'', pp_parts = [''d'', ''town.qgs'']\<rparr>)"
proof -
  have "is_file (one_file ''/d/town.qgs'') \<lparr>pp_root = ''/'', pp_parts = [''d''] @ [''town'' @ ''.qgs'']\<rparr>"
    by (simp add: is_file_def path_str_def one_file_def)
  then show ?thesis
    using suffix_collision [of "''town''" "''v2''" "one_file ''/d/town.qgs''" "[''d'']"]
    by (simp add: ALLOWED_SFX_def)
qed

end
