(* ===== verification/PostgresHandler.thy ===== *)
theory PostgresHandler
  imports QgisProject
begin

text \<open>
  \<open>src/pyqgisserver/qgscache/handlers/postgres_handler.py\<close>: the handler of the
  \<open>postgres\<close> scheme. The database is the parameter \<open>pg\<close>: what a connection with the
  given parameters answers to one statement. Connection parameters, the statement and the URL
  given to QGIS are separated out as \<open>pg_request\<close>, the part that needs no database.
\<close>

definition ALLOWED_SECURE_PARAMS :: "string list" where
  "ALLOWED_SECURE_PARAMS = [''service'', ''project'', ''dbname'', ''schema'']"

record conn_params =
  cp_host :: "string option"
  cp_port :: "int option"
  cp_user :: "string option"
  cp_password :: "string option"
  cp_database :: "string option"
  cp_options :: "(string, string) odict"

text \<open>A row with its \<open>last_modified_time\<close>, no row, or the two families of database errors.\<close>

datatype pg_answer = PgRow int | PgNoRow | PgOperationalError | PgError

type_synonym pg_server = "conn_params \<Rightarrow> string \<Rightarrow> pg_answer"

definition query_params :: "bool \<Rightarrow> string \<Rightarrow> (string, string) odict" where
  "query_params insecure q =
     map (\<lambda>(k, vs). (k, hd vs)) (filter (\<lambda>(k, vs). insecure \<or> k \<in> set ALLOWED_SECURE_PARAMS) (parse_qs q))"

definition reserved_params :: "string list" where
  "reserved_params = [''host'', ''port'', ''user'', ''password'', ''database'']"

definition params_query :: "(string, string) odict \<Rightarrow> string" where
  "params_query ps = join_with CHR ''&'' (map (\<lambda>(k, v). k @ ''='' @ v) ps)"

definition pg_netloc :: "bool \<Rightarrow> url \<Rightarrow> string" where
  "pg_netloc insecure u =
     (if insecure then u_netloc u
      else (case u_username u of Some n \<Rightarrow> if n = [] then [] else n @ ''@'' | None \<Rightarrow> []))"

text \<open>
  \<open>_check_unsafe_url\<close> up to the connection: parameters, statement, URL for QGIS. A keyword
  given twice to \<open>dict\<close> is a \<open>TypeError\<close>, a bad port a \<open>ValueError\<close>.
\<close>

definition pg_request :: "bool \<Rightarrow> url \<Rightarrow> (conn_params \<times> string \<times> string) result" where
  "pg_request insecure u =
     (let params = query_params insecure (u_query u);
          prjname = (case od_get params ''project'' of Some v \<Rightarrow> v | None \<Rightarrow> strip_chars ''/'' (u_path u));
          params1 = od_del ''project'' params
      in if prjname = [] then Inl FileNotFoundError
         else (let schema = (case od_get params1 ''schema'' of Some v \<Rightarrow> v | None \<Rightarrow> ''public'');
                   params2 = od_del ''schema'' params1;
                   database = od_get params2 ''dbname'';
                   params3 = od_del ''dbname'' params2
               in rbind (u_port u) (\<lambda>port.
                    if \<exists>k \<in> set reserved_params. od_has k params3 then Inl TypeError
                    else (let cp = \<lparr>cp_host = u_hostname u, cp_port = port, cp_user = u_username u,
                                cp_password = u_password u, cp_database = database, cp_options = params3\<rparr>;
                              params4 = od_set ''schema'' schema (od_set ''project'' prjname params3);
                              params5 = (case database of Some d \<Rightarrow> if d = [] then params4 else od_set ''dbname'' d params4
                                         | None \<Rightarrow> params4);
                              sql = ''select metadata from '' @ schema @ ''.qgis_projects where name='' @ [CHR 39]
                                    @ prjname @ [CHR 39]
                          in Inr (cp, sql, ''postgresql://'' @ pg_netloc insecure u @ ''/?'' @ params_query params5)))))"

definition check_unsafe_url :: "pg_server \<Rightarrow> bool \<Rightarrow> url \<Rightarrow> (string \<times> int) result" where
  "check_unsafe_url pg insecure u =
     rbind (pg_request insecure u) (\<lambda>(cp, sql, urlstr).
       case pg cp sql of
         PgRow m \<Rightarrow> Inr (urlstr, m)
       | PgNoRow \<Rightarrow> Inl FileNotFoundError
       | PgOperationalError \<Rightarrow> Inl FileNotFoundError
       | PgError \<Rightarrow> Inl RuntimeError)"

definition pg_modified_time :: "pg_server \<Rightarrow> bool \<Rightarrow> url \<Rightarrow> int result" where
  "pg_modified_time pg insecure u = rbind (check_unsafe_url pg insecure u) (\<lambda>(s, m). Inr m)"

definition pg_get_project ::
  "env \<Rightarrow> cm_options \<Rightarrow> pg_server \<Rightarrow> bool \<Rightarrow> url option \<Rightarrow> qproject option \<Rightarrow> int option
     \<Rightarrow> (qproject option \<times> int option) result" where
  "pg_get_project w opts pg insecure u project timestamp =
     rbind (case u of
              Some l \<Rightarrow> check_unsafe_url pg insecure l
            | None \<Rightarrow> (case project of
                 Some p \<Rightarrow> (case p_last_modified p of Some m \<Rightarrow> Inr (p_file p, m)
                              | None \<Rightarrow> Inl (OtherError ''invalid date''))
               | None \<Rightarrow> Inl ValueError))
       (\<lambda>(urlstr, m).
          if timestamp = None \<or> the timestamp < m
          then rbind (read_project w opts urlstr) (\<lambda>q. Inr (Some q, Some m))
          else Inr (project, timestamp))"

definition pg_handler :: "env \<Rightarrow> cm_options \<Rightarrow> pg_server \<Rightarrow> bool \<Rightarrow> phandler" where
  "pg_handler w opts pg insecure =
     \<lparr>ph_mtime = pg_modified_time pg insecure,
      ph_get = (\<lambda>u d. case d of
          None \<Rightarrow> rbind (pg_get_project w opts pg insecure (Some u) None None) (\<lambda>(p, t). Inr (the p, the t))
        | Some (q, s) \<Rightarrow> rbind (pg_get_project w opts pg insecure (Some u) (Some q) (Some s))
             (\<lambda>(p, t). Inr (the p, the t)))\<rparr>"

section \<open>Lemmas\<close>

lemma pg_get_url:
  "pg_get_project w opts pg ins (Some u) pr ts = Inr (p', t') \<Longrightarrow>
     \<exists>s m. check_unsafe_url pg ins u = Inr (s, m) \<and>
       ((ts = None \<or> the ts < m) \<and> t' = Some m \<and> (\<exists>r. read_project w opts s = Inr r \<and> p' = Some r)
        \<or> \<not> (ts = None \<or> the ts < m) \<and> p' = pr \<and> t' = ts)"
  by (auto simp: pg_get_project_def split: option.splits if_splits)

lemma pg_handler_new:
  "ph_get (pg_handler w opts pg ins) u None = Inr (p, t) \<Longrightarrow>
     \<exists>s. check_unsafe_url pg ins u = Inr (s, t) \<and> read_project w opts s = Inr p"
  by (auto simp: pg_handler_def dest!: pg_get_url)

lemma pg_handler_old:
  "ph_get (pg_handler w opts pg ins) u (Some (p, t)) = Inr (p', t') \<Longrightarrow>
     \<exists>s m. check_unsafe_url pg ins u = Inr (s, m) \<and>
       (t < m \<and> t' = m \<and> read_project w opts s = Inr p' \<or> m \<le> t \<and> p' = p \<and> t' = t)"
  by (auto simp: pg_handler_def dest!: pg_get_url)

interpretation pgh: protocol_handler "ph_get (pg_handler w opts pg ins)" "ph_mtime (pg_handler w opts pg ins)"
proof
  show "ph_get (pg_handler w opts pg ins) u (Some (p, t)) = Inr (q, t) \<Longrightarrow> q = p" for u p t q
    by (auto dest: pg_handler_old)
  show "ph_get (pg_handler w opts pg ins) u None = Inr (q, t) \<Longrightarrow> ph_mtime (pg_handler w opts pg ins) u = Inr t" for u q t
    by (drule pg_handler_new) (auto simp: pg_handler_def pg_modified_time_def)
  show "ph_get (pg_handler w opts pg ins) u (Some (p, t)) = Inr (q, t') \<Longrightarrow>
      ph_mtime (pg_handler w opts pg ins) u = Inr m \<Longrightarrow> t < m \<Longrightarrow> t' = m" for u p t q t' m
    by (drule pg_handler_old) (auto simp: pg_handler_def pg_modified_time_def)
qed

lemma query_params_secure: "set (od_keys (query_params False q)) \<subseteq> set ALLOWED_SECURE_PARAMS"
  by (auto simp: query_params_def od_keys_def)

definition project_name :: "bool \<Rightarrow> url \<Rightarrow> string" where
  "project_name ins u = (case od_get (query_params ins (u_query u)) ''project'' of
     Some v \<Rightarrow> v | None \<Rightarrow> strip_chars ''/'' (u_path u))"

definition schema_name :: "bool \<Rightarrow> url \<Rightarrow> string" where
  "schema_name ins u = (case od_get (query_params ins (u_query u)) ''schema'' of Some v \<Rightarrow> v | None \<Rightarrow> ''public'')"

definition client_options :: "bool \<Rightarrow> url \<Rightarrow> (string, string) odict" where
  "client_options ins u = od_del ''dbname'' (od_del ''schema'' (od_del ''project'' (query_params ins (u_query u))))"

lemma pg_request_ok:
  assumes "pg_request ins u = Inr (cp, sql, urlstr)"
  shows "project_name ins u \<noteq> []
    \<and> u_port u = Inr (cp_port cp) \<and> cp_host cp = u_hostname u \<and> cp_user cp = u_username u
    \<and> cp_password cp = u_password u \<and> cp_options cp = client_options ins u
    \<and> sql = ''select metadata from '' @ schema_name ins u @ ''.qgis_projects where name='' @ [CHR 39]
              @ project_name ins u @ [CHR 39]
    \<and> (\<exists>ps. urlstr = ''postgresql://'' @ pg_netloc ins u @ ''/?'' @ params_query ps
          \<and> set (od_keys ps) \<subseteq> set (od_keys (client_options ins u)) \<union> {''project'', ''schema'', ''dbname''})"
proof -
  define base where "base = od_set ''schema'' (schema_name ins u) (od_set ''project'' (project_name ins u) (client_options ins u))"
  have keys: "set (od_keys base) \<subseteq> set (od_keys (client_options ins u)) \<union> {''project'', ''schema'', ''dbname''}"
    "set (od_keys (od_set ''dbname'' d base)) \<subseteq> set (od_keys (client_options ins u)) \<union> {''project'', ''schema'', ''dbname''}" for d
    by (auto simp: base_def)
  from assms keys show ?thesis
    unfolding pg_request_def Let_def base_def project_name_def [symmetric] client_options_def [symmetric]
    by (auto simp: schema_name_def [symmetric] split: if_splits option.splits)
qed

lemma pg_request_url:
  assumes "pg_request ins u = Inr (cp, sql, urlstr)"
  defines "base \<equiv> od_set ''schema'' (schema_name ins u) (od_set ''project'' (project_name ins u) (client_options ins u))"
  shows "cp_database cp = od_get (query_params ins (u_query u)) ''dbname'' \<and>
    urlstr = ''postgresql://'' @ pg_netloc ins u @ ''/?'' @ params_query
      (case cp_database cp of None \<Rightarrow> base | Some d \<Rightarrow> if d = [] then base else od_set ''dbname'' d base)"
proof -
  have s: "(case od_get (od_del ''project'' (query_params ins (u_query u))) ''schema'' of None \<Rightarrow> ''public'' | Some v \<Rightarrow> v) = schema_name ins u"
    by (simp add: schema_name_def)
  have d: "od_get (od_del ''schema'' (od_del ''project'' (query_params ins (u_query u)))) ''dbname'' = od_get (query_params ins (u_query u)) ''dbname''"
    by simp
  show ?thesis
    using assms(1) unfolding pg_request_def Let_def project_name_def [symmetric] client_options_def [symmetric] s d base_def
    by (auto simp: rbind_eq_Inr split: if_splits)
qed

text \<open>Secure mode: of the query only the first values of four parameters count.\<close>

definition first_param :: "url \<Rightarrow> string \<Rightarrow> string option" where
  "first_param u k = map_option hd (od_get (parse_qs (u_query u)) k)"

lemma collect_qs_wf: "od_wf d \<Longrightarrow> od_wf (collect_qs d kvs)"
  by (induction d kvs rule: collect_qs.induct) (auto split: option.splits)

lemma query_params_wf: "od_wf (query_params ins q)"
proof -
  have "od_wf (parse_qs q)" unfolding parse_qs_def by (rule collect_qs_wf) simp
  then have "distinct (map fst (filter P (parse_qs q)))" for P by (simp add: od_wf_def od_keys_def distinct_map_filter)
  then show ?thesis by (simp add: query_params_def od_wf_def od_keys_def comp_def split_def)
qed

lemma query_params_get:
  "od_get (query_params False (u_query u)) k = (if k \<in> set ALLOWED_SECURE_PARAMS then first_param u k else None)"
proof -
  have "map_of (map (\<lambda>(k, vs). (k, hd vs)) (filter (\<lambda>(k, vs). k \<in> A) d)) k = (if k \<in> A then map_option hd (map_of d k) else None)"
    for A and d :: "(string \<times> string list) list" by (induction d) auto
  then show ?thesis by (simp add: query_params_def first_param_def)
qed

lemma one_key:
  assumes "od_wf d" and "set (od_keys d) \<subseteq> {k}"
  shows "d = (case od_get d k of None \<Rightarrow> [] | Some v \<Rightarrow> [(k, v)])"
proof (cases d)
  case (Cons kv d')
  with assms have "fst kv = k" "d' = []" by (cases d'; auto simp: od_wf_def od_keys_def)+
  with Cons show ?thesis by (cases kv) simp
qed simp

lemma client_options_secure: "client_options False u = (case first_param u ''service'' of None \<Rightarrow> [] | Some v \<Rightarrow> [(''service'', v)])"
proof -
  have "od_wf (client_options False u)" by (simp add: client_options_def query_params_wf)
  moreover have "set (od_keys (client_options False u)) \<subseteq> {''service''}"
    using query_params_secure [of "u_query u"] by (auto simp: client_options_def ALLOWED_SECURE_PARAMS_def)
  moreover have "od_get (client_options False u) ''service'' = first_param u ''service''"
    by (simp add: client_options_def query_params_get ALLOWED_SECURE_PARAMS_def)
  ultimately show ?thesis using one_key [of "client_options False u" "''service''"] by simp
qed

text \<open>The outcome of a request in secure mode, without the definitions of the code.\<close>

lemma pg_secure_spec:
  assumes "pg_request False u = Inr (cp, sql, urlstr)"
  shows "cp_options cp = (case first_param u ''service'' of None \<Rightarrow> [] | Some v \<Rightarrow> [(''service'', v)])
    \<and> cp_database cp = first_param u ''dbname''
    \<and> cp_host cp = u_hostname u \<and> u_port u = Inr (cp_port cp) \<and> cp_user cp = u_username u \<and> cp_password cp = u_password u
    \<and> (\<exists>prj sch. prj = (case first_param u ''project'' of None \<Rightarrow> strip_chars ''/'' (u_path u) | Some v \<Rightarrow> v)
        \<and> sch = (case first_param u ''schema'' of None \<Rightarrow> ''public'' | Some v \<Rightarrow> v)
        \<and> sql = ''select metadata from '' @ sch @ ''.qgis_projects where name='' @ [CHR 39] @ prj @ [CHR 39]
        \<and> urlstr = ''postgresql://'' @ (case u_username u of None \<Rightarrow> [] | Some n \<Rightarrow> if n = [] then [] else n @ ''@'')
            @ ''/?'' @ (case first_param u ''service'' of None \<Rightarrow> [] | Some v \<Rightarrow> ''service='' @ v @ ''&'')
            @ ''project='' @ prj @ ''&schema='' @ sch
            @ (case first_param u ''dbname'' of None \<Rightarrow> [] | Some d \<Rightarrow> if d = [] then [] else ''&dbname='' @ d))"
proof -
  define opts where "opts = (case first_param u ''service'' of None \<Rightarrow> [] | Some v \<Rightarrow> [(''service'', v)])"
  have n: "project_name False u = (case first_param u ''project'' of None \<Rightarrow> strip_chars ''/'' (u_path u) | Some v \<Rightarrow> v)"
    "schema_name False u = (case first_param u ''schema'' of None \<Rightarrow> ''public'' | Some v \<Rightarrow> v)"
    by (auto simp: project_name_def schema_name_def query_params_get ALLOWED_SECURE_PARAMS_def split: option.split)
  have netloc: "pg_netloc False u = (case u_username u of None \<Rightarrow> [] | Some n \<Rightarrow> if n = [] then [] else n @ ''@'')"
    by (auto simp: pg_netloc_def split: option.split)
  have base: "params_query (od_set ''schema'' y (od_set ''project'' x opts)) =
      (case first_param u ''service'' of None \<Rightarrow> [] | Some v \<Rightarrow> ''service='' @ v @ ''&'') @ ''project='' @ x @ ''&schema='' @ y"
    "params_query (od_set ''dbname'' d (od_set ''schema'' y (od_set ''project'' x opts))) =
      (case first_param u ''service'' of None \<Rightarrow> [] | Some v \<Rightarrow> ''service='' @ v @ ''&'') @ ''project='' @ x @ ''&schema='' @ y @ ''&dbname='' @ d"
    for x y d by (simp_all add: opts_def params_query_def split: option.split)
  have o: "client_options False u = opts" by (simp add: opts_def client_options_secure)
  have db: "cp_database cp = od_get (query_params False (u_query u)) ''dbname'' \<and>
      urlstr = ''postgresql://'' @ pg_netloc False u @ ''/?'' @ params_query (case cp_database cp of
         None \<Rightarrow> od_set ''schema'' (schema_name False u) (od_set ''project'' (project_name False u) opts)
       | Some d \<Rightarrow> if d = [] then od_set ''schema'' (schema_name False u) (od_set ''project'' (project_name False u) opts)
                  else od_set ''dbname'' d (od_set ''schema'' (schema_name False u) (od_set ''project'' (project_name False u) opts)))"
    using pg_request_url [OF assms] by (simp only: o)
  then have db2: "cp_database cp = first_param u ''dbname''" by (simp add: query_params_get ALLOWED_SECURE_PARAMS_def)
  have "urlstr = ''postgresql://'' @ pg_netloc False u @ ''/?'' @ (case first_param u ''service'' of None \<Rightarrow> [] | Some v \<Rightarrow> ''service='' @ v @ ''&'')
      @ ''project='' @ project_name False u @ ''&schema='' @ schema_name False u
      @ (case first_param u ''dbname'' of None \<Rightarrow> [] | Some d \<Rightarrow> if d = [] then [] else ''&dbname='' @ d)"
  proof (cases "first_param u ''dbname''")
    case None
    with db [THEN conjunct2] show ?thesis unfolding db2 by (simp only: option.case base append_assoc append_Nil2)
  next
    case (Some d)
    with db [THEN conjunct2] show ?thesis unfolding db2
      by (cases "d = []") (simp_all only: option.case simp_thms if_True if_False base append_assoc append_Nil2)
  qed
  with pg_request_ok [OF assms] show ?thesis
    unfolding n [symmetric] netloc [symmetric] client_options_secure [symmetric] using db2 by blast
qed

section \<open>Properties\<close>

text \<open>
  C34:  Secure mode. Of the query of the URL only the first values of \<open>service\<close>, \<open>project\<close>,
  \<open>dbname\<close> and \<open>schema\<close> have an effect: \<open>service\<close> and \<open>dbname\<close> reach the connection, the two others
  the statement, and all four the URL for QGIS. The host, port, user and password of the URL do reach
  the connection, but the URL for QGIS has the user name at most: two keys that differ only in the
  rest of the network location, or in other parameters, give QGIS the same URL and the same statement.
\<close>
theorem pg_secure_request:
  assumes "pg_request False u = Inr (cp, sql, urlstr)"
  shows "cp_options cp = (case first_param u ''service'' of None \<Rightarrow> [] | Some v \<Rightarrow> [(''service'', v)])
    \<and> cp_database cp = first_param u ''dbname''
    \<and> cp_host cp = u_hostname u \<and> u_port u = Inr (cp_port cp) \<and> cp_user cp = u_username u \<and> cp_password cp = u_password u
    \<and> (\<exists>prj sch. prj = (case first_param u ''project'' of None \<Rightarrow> strip_chars ''/'' (u_path u) | Some v \<Rightarrow> v)
        \<and> sch = (case first_param u ''schema'' of None \<Rightarrow> ''public'' | Some v \<Rightarrow> v)
        \<and> sql = ''select metadata from '' @ sch @ ''.qgis_projects where name='' @ [CHR 39] @ prj @ [CHR 39]
        \<and> urlstr = ''postgresql://'' @ (case u_username u of None \<Rightarrow> [] | Some n \<Rightarrow> if n = [] then [] else n @ ''@'')
            @ ''/?'' @ (case first_param u ''service'' of None \<Rightarrow> [] | Some v \<Rightarrow> ''service='' @ v @ ''&'')
            @ ''project='' @ prj @ ''&schema='' @ sch
            @ (case first_param u ''dbname'' of None \<Rightarrow> [] | Some d \<Rightarrow> if d = [] then [] else ''&dbname='' @ d))
    \<and> (\<forall>v cp' sql' urlstr'. u_username v = u_username u \<and> u_path v = u_path u
          \<and> (\<forall>k \<in> {''service'', ''project'', ''dbname'', ''schema''}. first_param v k = first_param u k)
          \<and> pg_request False v = Inr (cp', sql', urlstr') \<longrightarrow> sql' = sql \<and> urlstr' = urlstr)"
proof -
  have "sql' = sql \<and> urlstr' = urlstr" if "u_username v = u_username u \<and> u_path v = u_path u
      \<and> (\<forall>k \<in> {''service'', ''project'', ''dbname'', ''schema''}. first_param v k = first_param u k)
      \<and> pg_request False v = Inr (cp', sql', urlstr')" for v cp' sql' urlstr'
  proof -
    have v: "pg_request False v = Inr (cp', sql', urlstr')" and same: "u_username v = u_username u" "u_path v = u_path u"
      "first_param v ''service'' = first_param u ''service''" "first_param v ''project'' = first_param u ''project''"
      "first_param v ''dbname'' = first_param u ''dbname''" "first_param v ''schema'' = first_param u ''schema''"
      using that by blast+
    from pg_secure_spec [OF v, unfolded same] pg_secure_spec [OF assms] show ?thesis by blast
  qed
  with pg_secure_spec [OF assms] show ?thesis by blast
qed

definition pg_url :: "string \<Rightarrow> string \<Rightarrow> string \<Rightarrow> url" where
  "pg_url net p q = \<lparr>u_scheme = ''postgres'', u_netloc = net, u_path = p, u_params = [], u_query = q, u_fragment = []\<rparr>"

lemma pg_secure_request_witness:
  "\<exists>cp sql cp' sql'. pg_request False (pg_url ''bob:pw@db.example:5433'' ''/'' ''service=s&project=p&sslmode=x'')
       = Inr (cp, sql, ''postgresql://bob@/?service=s&project=p&schema=public'')
     \<and> cp_host cp = Some ''db.example'' \<and> cp_password cp = Some ''pw'' \<and> cp_options cp = [(''service'', ''s'')]
     \<and> pg_request False (pg_url ''bob@[::1]'' ''/'' ''project=p&service=s&dbpass=y'')
       = Inr (cp', sql', ''postgresql://bob@/?service=s&project=p&schema=public'')"
proof -
  let ?u = "pg_url ''bob:pw@db.example:5433'' ''/'' ''service=s&project=p&sslmode=x''"
  let ?v = "pg_url ''bob@[::1]'' ''/'' ''project=p&service=s&dbpass=y''"
  let ?cp = "\<lparr>cp_host = Some ''db.example'', cp_port = Some 5433, cp_user = Some ''bob'', cp_password = Some ''pw'',
      cp_database = None, cp_options = [(''service'', ''s'')]\<rparr>"
  let ?sql = "''select metadata from public.qgis_projects where name='' @ [CHR 39] @ ''p'' @ [CHR 39]"
  let ?url = "''postgresql://bob@/?service=s&project=p&schema=public''"
  have u: "pg_request False ?u = Inr (?cp, ?sql, ?url)" by code_simp
  have "case pg_request False ?v of Inl e \<Rightarrow> False | Inr r \<Rightarrow> True" by code_simp
  then obtain cp' sql' urlstr' where v: "pg_request False ?v = Inr (cp', sql', urlstr')" by (auto split: sum.splits)
  have same: "u_username ?v = u_username ?u" "u_path ?v = u_path ?u"
    "\<forall>k \<in> {''service'', ''project'', ''dbname'', ''schema''}. first_param ?v k = first_param ?u k" by code_simp+
  have "urlstr' = ?url" using pg_secure_request [OF u] same v by blast
  with u v show ?thesis by simp
qed

lemma query_params_Nil: "query_params ins [] = []"
  by (cases ins) (code_simp, code_simp)

text \<open>
   No quoting. In both modes, the short form \<open>postgres:<name>\<close> (no query, no network
  location) copies the name as it is into the SQL statement and into the URL given to QGIS,
  whatever characters it holds: quotes end the SQL literal, ampersands add parameters.
\<close>
theorem pg_name_verbatim:
  assumes "strip_chars ''/'' p = name" and "name \<noteq> []"
  shows "\<exists>cp. pg_request ins (pg_url [] p []) =
    Inr (cp, ''select metadata from public.qgis_projects where name='' @ [CHR 39] @ name @ [CHR 39],
         ''postgresql:///?project='' @ name @ ''&schema=public'')"
  using assms
  by (simp add: pg_request_def pg_url_def query_params_Nil Let_def u_port_def host_info_def before_def after_def
      od_has_def pg_netloc_def u_username_def user_info_def params_query_def)

lemma pg_name_verbatim_witness:
  "\<exists>cp sql urlstr. pg_request False (pg_url [] (''/x'' @ [CHR 39] @ '' or 1=1 --&host=evil'') []) = Inr (cp, sql, urlstr)
     \<and> sql = ''select metadata from public.qgis_projects where name='' @ [CHR 39] @ ''x'' @ [CHR 39]
           @ '' or 1=1 --&host=evil'' @ [CHR 39]
     \<and> (\<exists>v. urlparse urlstr = Inr v \<and> od_get (parse_qs (u_query v)) ''host'' = Some [''evil''])"
proof -
  have n: "strip_chars ''/'' (''/x'' @ [CHR 39] @ '' or 1=1 --&host=evil'') = ''x'' @ [CHR 39] @ '' or 1=1 --&host=evil''"
    by code_simp
  have u: "\<exists>v. urlparse (''postgresql:///?project='' @ (''x'' @ [CHR 39] @ '' or 1=1 --&host=evil'') @ ''&schema=public'') = Inr v
      \<and> od_get (parse_qs (u_query v)) ''host'' = Some [''evil'']"
    by (rule exI [of _ "pg_url [] ''/'' (''project=x'' @ [CHR 39] @ '' or 1=1 --&host=evil&schema=public'')\<lparr>u_scheme := ''postgresql''\<rparr>"])
      code_simp
  from pg_name_verbatim [OF n, of False] u show ?thesis by auto
qed

end
