(* ===== verification/CacheManager.thy ===== *)
theory CacheManager
  imports Lru Aliases FileHandler PostgresHandler
begin

text \<open>
  \<open>src/pyqgisserver/qgscache/cachemanager.py\<close>: the QGIS storage handler, the cache manager
  with its LRU and static caches, refreshing, observers and the preload file. An operation takes
  the outside world \<open>w\<close> at that moment and gives a result and the new state; the state
  changes made before an exception stay. The handlers that the component manager knows are the
  field \<open>cm_registry\<close>; \<open>standard_registry\<close> is the one of the two built-in handlers.
\<close>

section \<open>The storage handler\<close>

definition storage_metadata :: "env \<Rightarrow> string \<Rightarrow> int result" where
  "storage_metadata w uri = (case storage_mtime w uri of
     None \<Rightarrow> Inl FileNotFoundError
   | Some None \<Rightarrow> Inl FileNotFoundError
   | Some (Some m) \<Rightarrow> Inr m)"

definition storage_get_project ::
  "env \<Rightarrow> cm_options \<Rightarrow> url \<Rightarrow> qproject option \<Rightarrow> int option \<Rightarrow> (qproject option \<times> int) result" where
  "storage_get_project w opts u project timestamp =
     (let uri = urlunparse u in
      rbind (storage_metadata w uri) (\<lambda>m.
        if project = None \<or> timestamp = None \<or> the timestamp < m
        then rbind (read_project w opts uri) (\<lambda>p. Inr (Some p, m))
        else Inr (project, m)))"

definition storage_handler :: "env \<Rightarrow> cm_options \<Rightarrow> phandler" where
  "storage_handler w opts =
     \<lparr>ph_mtime = (\<lambda>u. storage_metadata w (urlunparse u)),
      ph_get = (\<lambda>u d. case d of
          None \<Rightarrow> rbind (storage_get_project w opts u None None) (\<lambda>(p, t). Inr (the p, t))
        | Some (q, s) \<Rightarrow> rbind (storage_get_project w opts u (Some q) (Some s)) (\<lambda>(p, t). Inr (the p, t)))\<rparr>"

lemma storage_handler_new:
  "ph_get (storage_handler w opts) u None = Inr (p, t) \<Longrightarrow>
     storage_metadata w (urlunparse u) = Inr t \<and> read_project w opts (urlunparse u) = Inr p"
  by (auto simp: storage_handler_def storage_get_project_def Let_def)

lemma storage_handler_old:
  "ph_get (storage_handler w opts) u (Some (p, t)) = Inr (p', t') \<Longrightarrow>
     storage_metadata w (urlunparse u) = Inr t' \<and>
     (t < t' \<and> read_project w opts (urlunparse u) = Inr p' \<or> t' \<le> t \<and> p' = p)"
  by (auto simp: storage_handler_def storage_get_project_def Let_def split: if_splits)

interpretation storageh: protocol_handler "ph_get (storage_handler w opts)" "ph_mtime (storage_handler w opts)"
proof
  show "ph_get (storage_handler w opts) u (Some (p, t)) = Inr (q, t) \<Longrightarrow> q = p" for u p t q
    by (auto dest: storage_handler_old)
  show "ph_get (storage_handler w opts) u None = Inr (q, t) \<Longrightarrow> ph_mtime (storage_handler w opts) u = Inr t" for u q t
    by (drule storage_handler_new) (simp add: storage_handler_def)
  show "ph_get (storage_handler w opts) u (Some (p, t)) = Inr (q, t') \<Longrightarrow>
      ph_mtime (storage_handler w opts) u = Inr m \<Longrightarrow> t < m \<Longrightarrow> t' = m" for u p t q t' m
    by (drule storage_handler_old) (simp add: storage_handler_def)
qed

section \<open>State\<close>

datatype update_state = Unchanged | Inserted | Updated

type_synonym details = "qproject \<times> int"

type_synonym registry = "env \<Rightarrow> cm_options \<Rightarrow> string \<Rightarrow> phandler option"

record cache_manager =
  cm_lru :: "(string, details) lru"
  cm_static :: "(string, details) odict"
  cm_opts :: cm_options
  cm_aliases :: aliases
  cm_schemes :: "string \<Rightarrow> string result"
  cm_default :: string
  cm_allowed :: "string list option"
  cm_registry :: registry
  cm_observers :: nat
  cm_notes :: "(nat \<times> string \<times> int \<times> update_state) list"

type_synonym 'a cm_outcome = "'a result \<times> cache_manager"

fun cm_bind :: "'a cm_outcome \<Rightarrow> ('a \<Rightarrow> cache_manager \<Rightarrow> 'b cm_outcome) \<Rightarrow> 'b cm_outcome" where
  "cm_bind (Inl e, m) f = (Inl e, m)"
| "cm_bind (Inr x, m) f = f x m"

lemma cm_bind_Inr [simp]: "cm_bind r f = (Inr y, m') \<longleftrightarrow> (\<exists>x m. r = (Inr x, m) \<and> f x m = (Inr y, m'))"
  by (cases "(r, f)" rule: cm_bind.cases) auto

definition standard_registry :: "pg_server \<Rightarrow> bool \<Rightarrow> registry" where
  "standard_registry pg insecure w opts scheme =
     (if scheme = ''file'' then Some (file_handler w opts)
      else if scheme = ''postgres'' then Some (pg_handler w opts pg insecure)
      else None)"

text \<open>The values of the section \<open>projects.cache\<close> that \<open>__init__\<close> reads.\<close>

record cache_conf =
  cc_size :: int
  cc_opts :: cm_options
  cc_default_handler :: string
  cc_allow_storage_schemes :: string
  cc_rootdir :: string

definition cm_init :: "cache_conf \<Rightarrow> (string \<Rightarrow> string result) \<Rightarrow> registry \<Rightarrow> cache_manager result" where
  "cm_init cf schemes reg = rbind (lru_init (cc_size cf)) (\<lambda>c. Inr
     \<lparr>cm_lru = c, cm_static = [], cm_opts = cc_opts cf,
      cm_aliases = [(''file'', file_alias (cc_rootdir cf))], cm_schemes = schemes,
      cm_default = cc_default_handler cf,
      cm_allowed = (if cc_allow_storage_schemes cf = ''*'' then None
                    else Some (map py_strip (split_on CHR '','' (cc_allow_storage_schemes cf)))),
      cm_registry = reg, cm_observers = 0, cm_notes = []\<rparr>)"

definition add_observer :: "cache_manager \<Rightarrow> cache_manager" where
  "add_observer m = m\<lparr>cm_observers := Suc (cm_observers m)\<rparr>"

text \<open>\<open>replace(microsecond=0)\<close>. Observers that raise are only logged, so all are called.\<close>

definition drop_us :: "int \<Rightarrow> int" where
  "drop_us t = t - t mod 1000000"

definition notify_observers :: "string \<Rightarrow> int \<Rightarrow> update_state \<Rightarrow> cache_manager \<Rightarrow> cache_manager" where
  "notify_observers key t st m =
     m\<lparr>cm_notes := cm_notes m @ map (\<lambda>i. (i, key, drop_us t, st)) [0..<cm_observers m]\<rparr>"

datatype cache_type = LRU | STATIC

definition cm_items :: "cache_type \<Rightarrow> cache_manager \<Rightarrow> (string \<times> details) list" where
  "cm_items ct m = (case ct of LRU \<Rightarrow> lru_items (cm_lru m) | STATIC \<Rightarrow> cm_static m)"

definition cm_peek :: "string \<Rightarrow> cache_type option \<Rightarrow> cache_manager \<Rightarrow> details option" where
  "cm_peek key ct m = (case ct of
     Some LRU \<Rightarrow> lru_peek key (cm_lru m)
   | Some STATIC \<Rightarrow> od_get (cm_static m) key
   | None \<Rightarrow> (case lru_peek key (cm_lru m) of Some d \<Rightarrow> Some d | None \<Rightarrow> od_get (cm_static m) key))"

section \<open>Resolution and handlers\<close>

definition cm_resolve :: "string \<Rightarrow> cache_manager \<Rightarrow> url cm_outcome" where
  "cm_resolve key m =
     (let (r, al) = resolve_alias (cm_schemes m) (cm_default m) key (cm_aliases m)
      in (r, m\<lparr>cm_aliases := al\<rparr>))"

definition get_protocol_handler :: "env \<Rightarrow> string \<Rightarrow> cache_manager \<Rightarrow> phandler result" where
  "get_protocol_handler w scheme m =
     (let s = (if scheme = [] then cm_default m else scheme) in
      if (case cm_allowed m of None \<Rightarrow> False | Some al \<Rightarrow> s \<notin> set al) then Inl PathNotAllowedError
      else Inr (case cm_registry m w (cm_opts m) s of Some h \<Rightarrow> h | None \<Rightarrow> storage_handler w (cm_opts m)))"

definition cm_store :: "env \<Rightarrow> string \<Rightarrow> cache_manager \<Rightarrow> (url \<times> phandler) cm_outcome" where
  "cm_store w key m = cm_bind (cm_resolve key m) (\<lambda>u m1.
     (rbind (get_protocol_handler w (u_scheme u) m1) (\<lambda>h. Inr (u, h)), m1))"

definition cm_modified_time :: "env \<Rightarrow> string \<Rightarrow> bool \<Rightarrow> cache_manager \<Rightarrow> int cm_outcome" where
  "cm_modified_time w key from_cache m =
     (case cm_peek key None m of
        Some (p, t) \<Rightarrow>
          if from_cache then (Inr (drop_us t), m)
          else (case p_last_modified p of None \<Rightarrow> (Inl FileNotFoundError, m) | Some t' \<Rightarrow> (Inr (drop_us t'), m))
      | None \<Rightarrow> cm_bind (cm_store w key m) (\<lambda>(u, h) m1. (rbind (ph_mtime h u) (\<lambda>t. Inr (drop_us t)), m1)))"

definition get_project_details ::
  "env \<Rightarrow> string \<Rightarrow> details option \<Rightarrow> cache_manager \<Rightarrow> (details \<times> update_state) cm_outcome" where
  "get_project_details w key d m = cm_bind (cm_store w key m) (\<lambda>(u, h) m1.
     (rbind (ph_get h u d) (\<lambda>(p, t). Inr ((p, t),
        case d of Some (q, s) \<Rightarrow> if t \<noteq> s then Updated else Unchanged | None \<Rightarrow> Inserted)), m1))"

section \<open>Updating\<close>

definition update_static_entry :: "env \<Rightarrow> string \<Rightarrow> cache_manager \<Rightarrow> update_state cm_outcome" where
  "update_static_entry w key m =
     cm_bind (get_project_details w key (od_get (cm_static m) key) m) (\<lambda>(d, st) m1.
       (Inr st, m1\<lparr>cm_static := od_set key d (cm_static m1)\<rparr>))"

text \<open>Storing in the LRU cache; \<open>__setitem__\<close> cannot raise on a well-formed cache.\<close>

definition cm_insert :: "string \<Rightarrow> details \<Rightarrow> cache_manager \<Rightarrow> unit cm_outcome" where
  "cm_insert key d m = (case lru_setitem key d (cm_lru m) of
     Inl e \<Rightarrow> (Inl e, m) | Inr c \<Rightarrow> (Inr (), m\<lparr>cm_lru := c\<rparr>))"

definition update_entry :: "env \<Rightarrow> string \<Rightarrow> cache_manager \<Rightarrow> update_state cm_outcome" where
  "update_entry w key m =
     cm_bind
       (case (lru_peek key (cm_lru m), od_get (cm_static m) key) of
          (None, Some s) \<Rightarrow>
            cm_bind (get_project_details w key (Some s) m) (\<lambda>(d, st) m1.
              (Inr (d, Inserted), if st = Updated then m1\<lparr>cm_static := od_set key d (cm_static m1)\<rparr> else m1))
        | (l, _) \<Rightarrow> get_project_details w key l m)
       (\<lambda>(d, st) m1. cm_bind (cm_insert key d m1) (\<lambda>_ m2.
          (Inr st, if st = Unchanged then m2 else notify_observers key (snd d) st m2)))"

definition cm_getitem :: "string \<Rightarrow> cache_manager \<Rightarrow> details cm_outcome" where
  "cm_getitem key m = (case lru_getitem key (cm_lru m) of
     Inl e \<Rightarrow> (Inl e, m) | Inr (d, c) \<Rightarrow> (Inr d, m\<lparr>cm_lru := c\<rparr>))"

definition cm_lookup :: "env \<Rightarrow> string \<Rightarrow> bool \<Rightarrow> cache_manager \<Rightarrow> (qproject \<times> update_state) cm_outcome" where
  "cm_lookup w key refresh m =
     (case (refresh, cm_peek key (Some LRU) m, cm_peek key (Some STATIC) m) of
        (False, Some d, _) \<Rightarrow> (Inr (fst d, Unchanged), m)
      | (False, None, Some d) \<Rightarrow> cm_bind (cm_insert key d m) (\<lambda>_ m1. (Inr (fst d, Updated), m1))
      | _ \<Rightarrow> cm_bind (update_entry w key m) (\<lambda>st m1.
               cm_bind (cm_getitem key m1) (\<lambda>d m2. (Inr (fst d, st), m2))))"

section \<open>Refreshing\<close>

fun update_statics :: "env \<Rightarrow> string list \<Rightarrow> cache_manager \<Rightarrow> unit cm_outcome" where
  "update_statics w [] m = (Inr (), m)"
| "update_statics w (k # ks) m = cm_bind (update_static_entry w k m) (\<lambda>_ m1. update_statics w ks m1)"

text \<open>
  \<open>refresh\<close> updates the static entries and returns a generator over the keys of the LRU cache,
  the least recent first; \<open>refresh_entries\<close> is what consuming it does: the states so far and
  the exception that ended it, if any.
\<close>

definition refresh :: "env \<Rightarrow> cache_manager \<Rightarrow> string list cm_outcome" where
  "refresh w m = cm_bind (update_statics w (map fst (cm_items STATIC m)) m) (\<lambda>_ m1.
     (Inr (rev (map fst (cm_items LRU m1))), m1))"

fun refresh_entries :: "env \<Rightarrow> string list \<Rightarrow> cache_manager \<Rightarrow> exn option \<times> (string \<times> update_state) list \<times> cache_manager" where
  "refresh_entries w [] m = (None, [], m)"
| "refresh_entries w (k # ks) m =
     (case update_entry w k m of
        (Inl e, m1) \<Rightarrow> (Some e, [], m1)
      | (Inr st, m1) \<Rightarrow> (let (e, out, m2) = refresh_entries w ks m1 in (e, (k, st) # out, m2)))"

section \<open>Preloading\<close>

definition preload_keys :: "string list \<Rightarrow> string list" where
  "preload_keys lines = map (strip_chars '' '')
     (filter (\<lambda>s. s \<noteq> []) (map (\<lambda>l. before CHR ''#'' (strip_chars [CHR 0x0A, CHR '' ''] l)) lines))"

fun preload_entries :: "env \<Rightarrow> string list \<Rightarrow> cache_manager \<Rightarrow> nat cm_outcome" where
  "preload_entries w [] m = (Inr 0, m)"
| "preload_entries w (p # ps) m =
     (case update_static_entry w p m of
        (Inl e, m1) \<Rightarrow> if e \<in> {StrictCheckingError, PathNotAllowedError, FileNotFoundError}
                        then preload_entries w ps m1 else (Inl e, m1)
      | (Inr st, m1) \<Rightarrow> cm_bind (preload_entries w ps m1) (\<lambda>n m2. (Inr (Suc n), m2)))"

definition preload_projects_file :: "env \<Rightarrow> string list option \<Rightarrow> cache_manager \<Rightarrow> nat cm_outcome" where
  "preload_projects_file w content m = (case content of
     None \<Rightarrow> (Inr 0, m) | Some lines \<Rightarrow> preload_entries w (preload_keys lines) m)"

section \<open>What the operations leave alone\<close>

lemma cm_store_frame: "cm_store w key m = (r, m') \<Longrightarrow> \<exists>al. m' = m\<lparr>cm_aliases := al\<rparr>"
  by (auto simp: cm_store_def cm_resolve_def split: prod.splits elim!: cm_bind.elims)

lemma cm_bind_cases:
  assumes "cm_bind r f = (x, m')"
  shows "(\<exists>e. r = (Inl e, m') \<and> x = Inl e) \<or> (\<exists>y m. r = (Inr y, m) \<and> f y m = (x, m'))"
  using assms by (cases "(r, f)" rule: cm_bind.cases) auto

lemma get_project_details_frame: "get_project_details w key d m = (r, m') \<Longrightarrow> \<exists>al. m' = m\<lparr>cm_aliases := al\<rparr>"
  unfolding get_project_details_def by (drule cm_bind_cases) (auto dest: cm_store_frame)

lemma get_project_details_ok:
  "get_project_details w key d m = (Inr ((p, t), st), m') \<Longrightarrow>
     \<exists>u h m1. cm_store w key m = (Inr (u, h), m1) \<and> ph_get h u d = Inr (p, t)
       \<and> st = (case d of Some (q, s) \<Rightarrow> if t \<noteq> s then Updated else Unchanged | None \<Rightarrow> Inserted)"
  unfolding get_project_details_def by auto

lemma cm_store_handler:
  "cm_store w key m = (Inr (u, h), m') \<Longrightarrow> get_protocol_handler w (u_scheme u) m = Inr h"
  by (auto simp: cm_store_def cm_resolve_def get_protocol_handler_def Let_def split: prod.splits if_splits option.splits)

text \<open>A registry is sound for \<open>P\<close> when its handlers only return projects with \<open>P\<close> or the one they got.\<close>

definition sound_handler :: "(qproject \<Rightarrow> bool) \<Rightarrow> phandler \<Rightarrow> bool" where
  "sound_handler P h = (\<forall>u d p t. ph_get h u d = Inr (p, t) \<longrightarrow> P p \<or> (\<exists>s. d = Some (p, s)))"

definition was_read :: "env set \<Rightarrow> cm_options \<Rightarrow> qproject \<Rightarrow> bool" where
  "was_read W opts p = (\<exists>w \<in> W. \<exists>uri. read_project w opts uri = Inr p)"

lemma sound_file: "w \<in> W \<Longrightarrow> sound_handler (was_read W opts) (file_handler w opts)"
  unfolding sound_handler_def was_read_def
proof (intro allI impI)
  fix u d p t assume w: "w \<in> W" and g: "ph_get (file_handler w opts) u d = Inr (p, t)"
  show "(\<exists>w \<in> W. \<exists>uri. read_project w opts uri = Inr p) \<or> (\<exists>s. d = Some (p, s))"
  proof (cases d)
    case None
    with file_handler_new g w show ?thesis by blast
  next
    case (Some qs)
    with file_handler_old [of w opts u "fst qs" "snd qs"] g w show ?thesis by (cases qs) auto
  qed
qed

lemma sound_pg: "w \<in> W \<Longrightarrow> sound_handler (was_read W opts) (pg_handler w opts pg ins)"
  unfolding sound_handler_def was_read_def
proof (intro allI impI)
  fix u d p t assume w: "w \<in> W" and g: "ph_get (pg_handler w opts pg ins) u d = Inr (p, t)"
  show "(\<exists>w \<in> W. \<exists>uri. read_project w opts uri = Inr p) \<or> (\<exists>s. d = Some (p, s))"
  proof (cases d)
    case None
    with pg_handler_new g w show ?thesis by blast
  next
    case (Some qs)
    with pg_handler_old [of w opts pg ins u "fst qs" "snd qs"] g w show ?thesis by (cases qs) auto
  qed
qed

lemma sound_storage: "w \<in> W \<Longrightarrow> sound_handler (was_read W opts) (storage_handler w opts)"
  unfolding sound_handler_def was_read_def
proof (intro allI impI)
  fix u d p t assume w: "w \<in> W" and g: "ph_get (storage_handler w opts) u d = Inr (p, t)"
  show "(\<exists>w \<in> W. \<exists>uri. read_project w opts uri = Inr p) \<or> (\<exists>s. d = Some (p, s))"
  proof (cases d)
    case None
    with storage_handler_new g w show ?thesis by blast
  next
    case (Some qs)
    with storage_handler_old [of w opts u "fst qs" "snd qs"] g w show ?thesis by (cases qs) auto
  qed
qed

text \<open>The invariant: both caches are well formed and hold only projects with \<open>P\<close>.\<close>

definition cm_wf :: "cache_manager \<Rightarrow> bool" where
  "cm_wf m = (lru_wf (cm_lru m) \<and> od_wf (cm_static m))"

definition cm_all :: "(qproject \<Rightarrow> bool) \<Rightarrow> cache_manager \<Rightarrow> bool" where
  "cm_all P m = ((\<forall>k d. lru_peek k (cm_lru m) = Some d \<longrightarrow> P (fst d))
     \<and> (\<forall>k d. od_get (cm_static m) k = Some d \<longrightarrow> P (fst d)))"

definition cm_sound :: "env set \<Rightarrow> (qproject \<Rightarrow> bool) \<Rightarrow> cache_manager \<Rightarrow> bool" where
  "cm_sound W P m = (\<forall>w \<in> W. \<forall>s h. get_protocol_handler w s m = Inr h \<longrightarrow> sound_handler P h)"

definition cm_inv :: "env set \<Rightarrow> (qproject \<Rightarrow> bool) \<Rightarrow> cache_manager \<Rightarrow> bool" where
  "cm_inv W P m = (cm_wf m \<and> cm_all P m \<and> cm_sound W P m)"

lemma get_protocol_handler_indep [simp]:
  "get_protocol_handler w s (m\<lparr>cm_aliases := al\<rparr>) = get_protocol_handler w s m"
  "get_protocol_handler w s (m\<lparr>cm_lru := c\<rparr>) = get_protocol_handler w s m"
  "get_protocol_handler w s (m\<lparr>cm_static := d\<rparr>) = get_protocol_handler w s m"
  "get_protocol_handler w s (m\<lparr>cm_notes := n\<rparr>) = get_protocol_handler w s m"
  "get_protocol_handler w s (m\<lparr>cm_observers := i\<rparr>) = get_protocol_handler w s m"
  by (auto simp: get_protocol_handler_def Let_def split: option.split)

lemma cm_inv_aliases [simp]: "cm_inv W P (m\<lparr>cm_aliases := al\<rparr>) = cm_inv W P m"
  by (simp add: cm_inv_def cm_wf_def cm_all_def cm_sound_def)

lemma cm_inv_notify [simp]: "cm_inv W P (notify_observers k t st m) = cm_inv W P m"
  by (simp add: notify_observers_def cm_inv_def cm_wf_def cm_all_def cm_sound_def)

lemma cm_inv_static: "cm_inv W P m \<Longrightarrow> P (fst d) \<Longrightarrow> cm_inv W P (m\<lparr>cm_static := od_set k d (cm_static m)\<rparr>)"
  by (auto simp: cm_inv_def cm_wf_def cm_all_def cm_sound_def split: if_splits)

lemma cm_invD: "cm_inv W P m \<Longrightarrow> cm_wf m" "cm_inv W P m \<Longrightarrow> lru_peek k (cm_lru m) = Some d \<Longrightarrow> P (fst d)"
  "cm_inv W P m \<Longrightarrow> od_get (cm_static m) k = Some d \<Longrightarrow> P (fst d)"
  unfolding cm_inv_def cm_all_def by blast+

lemma cm_inv_lru: "cm_inv W P m \<Longrightarrow> P (fst d) \<Longrightarrow> cm_inv W P (m\<lparr>cm_lru := lru_put k d (cm_lru m)\<rparr>)"
proof -
  assume i: "cm_inv W P m" and p: "P (fst d)"
  then have wf: "lru_wf (cm_lru m)" by (simp add: cm_inv_def cm_wf_def)
  have "P (fst e)" if "lru_peek j (lru_put k d (cm_lru m)) = Some e" for j e
    using lru.get_put_cases [OF wf that] cm_invD(2) [OF i, of j e] p by blast
  with i wf show ?thesis
    by (auto simp: cm_inv_def cm_wf_def cm_all_def cm_sound_def lru_put_wf)
qed

lemma cm_insert_eq: "cm_wf m \<Longrightarrow> cm_insert k d m = (Inr (), m\<lparr>cm_lru := lru_put k d (cm_lru m)\<rparr>)"
  by (simp add: cm_insert_def lru_put_eq cm_wf_def)

lemma details_inv:
  assumes "cm_inv W P m" and "w \<in> W" and "get_project_details w key d m = (r, m')" and "\<And>x. d = Some x \<Longrightarrow> P (fst x)"
  shows "cm_inv W P m' \<and> (\<forall>x st. r = Inr (x, st) \<longrightarrow> P (fst x))"
proof
  show "cm_inv W P m'" using get_project_details_frame [OF assms(3)] assms(1) by auto
  show "\<forall>x st. r = Inr (x, st) \<longrightarrow> P (fst x)"
  proof (intro allI impI)
    fix x st assume r: "r = Inr (x, st)"
    obtain p t where x: "x = (p, t)" by (cases x)
    obtain u h m1 where h: "cm_store w key m = (Inr (u, h), m1)" "ph_get h u d = Inr (p, t)"
      using get_project_details_ok [of w key d m p t st m'] assms(3) r x by auto
    from cm_store_handler [OF h(1)] assms(1,2) have "sound_handler P h" by (auto simp: cm_inv_def cm_sound_def)
    with h(2) x assms(4) show "P (fst x)" by (fastforce simp: sound_handler_def)
  qed
qed

lemma update_static_entry_inv: "w \<in> W \<Longrightarrow> cm_inv W P m \<Longrightarrow> cm_inv W P (snd (update_static_entry w k m))"
proof -
  assume w: "w \<in> W" and i: "cm_inv W P m"
  obtain r m1 where g: "get_project_details w k (od_get (cm_static m) k) m = (r, m1)" by fastforce
  note d = details_inv [OF i w g cm_invD(3) [OF i]]
  show ?thesis
  proof (cases r)
    case (Inr y)
    obtain x st where "y = (x, st)" by (cases y)
    with d Inr g show ?thesis by (simp add: update_static_entry_def cm_inv_static)
  qed (use d g in \<open>simp add: update_static_entry_def\<close>)
qed

lemma insert_notify_inv:
  "cm_inv W P m \<Longrightarrow> P (fst d) \<Longrightarrow>
     cm_inv W P (snd (cm_bind (cm_insert k d m) (\<lambda>_ m2. (Inr st, if b then m2 else notify_observers k t st m2))))"
  by (simp add: cm_insert_eq cm_invD(1) cm_inv_lru)

lemma update_entry_inv: "w \<in> W \<Longrightarrow> cm_inv W P m \<Longrightarrow> cm_inv W P (snd (update_entry w k m))"
proof -
  assume w: "w \<in> W" and i: "cm_inv W P m"
  show ?thesis
  proof (cases "lru_peek k (cm_lru m) = None \<and> od_get (cm_static m) k \<noteq> None")
    case True
    then obtain s where s: "od_get (cm_static m) k = Some s" by auto
    obtain r m1 where g: "get_project_details w k (Some s) m = (r, m1)" by fastforce
    have ps: "P (fst x)" if "Some s = Some x" for x using that cm_invD(3) [OF i s] by simp
    note d = details_inv [OF i w g ps]
    show ?thesis
    proof (cases r)
      case (Inr y)
      obtain x st where y: "y = (x, st)" by (cases y)
      with d Inr have "cm_inv W P m1" "P (fst x)" by auto
      then show ?thesis
        using True s g Inr y insert_notify_inv [of W P _ x k Inserted False "snd x"]
        by (simp add: update_entry_def cm_inv_static)
    qed (use True s g d in \<open>simp add: update_entry_def\<close>)
  next
    case False
    obtain r m1 where g: "get_project_details w k (lru_peek k (cm_lru m)) m = (r, m1)" by fastforce
    have u: "update_entry w k m = cm_bind (r, m1) (\<lambda>(d, st) m1. cm_bind (cm_insert k d m1) (\<lambda>_ m2.
          (Inr st, if st = Unchanged then m2 else notify_observers k (snd d) st m2)))"
      using False g by (auto simp: update_entry_def split: option.splits)
    note d = details_inv [OF i w g cm_invD(2) [OF i]]
    show ?thesis
    proof (cases r)
      case (Inr y)
      obtain x st where y: "y = (x, st)" by (cases y)
      with d Inr have "cm_inv W P m1" "P (fst x)" by auto
      then show ?thesis using u Inr y insert_notify_inv by simp
    qed (use u d in simp)
  qed
qed

lemma cm_getitem_inv: "cm_inv W P m \<Longrightarrow> cm_inv W P (snd (cm_getitem k m))"
proof (cases "lru_peek k (cm_lru m)")
  case None
  assume "cm_inv W P m"
  with None show ?thesis
    by (simp add: cm_getitem_def lru_getitem_def move_to_end_def lru_peek_def)
next
  case (Some d)
  assume i: "cm_inv W P m"
  then have wf: "lru_wf (cm_lru m)" by (simp add: cm_inv_def cm_wf_def)
  obtain c where c: "lru_getitem k (cm_lru m) = Inr (d, c)" "lru_wf c" "lru_items c = rl_touch k (lru_items (cm_lru m))"
    by (rule lru_getitem_hit [OF wf Some])
  have "lru_peek j c = lru_peek j (cm_lru m)" for j
    using c(2,3) wf Some by (simp add: lru_peek_items rl_touch_def map_of_filter_neq)
  with i c(1,2) show ?thesis
    by (auto simp: cm_getitem_def cm_inv_def cm_wf_def cm_all_def cm_sound_def get_protocol_handler_indep)
qed

lemma cm_bind_inv:
  "cm_inv W P (snd r) \<Longrightarrow> (\<And>x m. cm_inv W P m \<Longrightarrow> cm_inv W P (snd (f x m))) \<Longrightarrow> cm_inv W P (snd (cm_bind r f))"
  by (cases "(r, f)" rule: cm_bind.cases) auto

lemma cm_lookup_inv: "w \<in> W \<Longrightarrow> cm_inv W P m \<Longrightarrow> cm_inv W P (snd (cm_lookup w k ref m))"
proof -
  assume w: "w \<in> W" and i: "cm_inv W P m"
  have full: "cm_inv W P (snd (cm_bind (update_entry w k m) (\<lambda>st m1.
               cm_bind (cm_getitem k m1) (\<lambda>d m2. (Inr (fst d, st), m2)))))"
    by (intro cm_bind_inv update_entry_inv cm_getitem_inv w i) simp_all
  have "cm_inv W P (m\<lparr>cm_lru := lru_put k d (cm_lru m)\<rparr>)" if "od_get (cm_static m) k = Some d" for d
    using cm_inv_lru i cm_invD(3) that by blast
  with full i show ?thesis
    by (auto simp: cm_lookup_def cm_peek_def cm_insert_eq cm_invD(1) split: option.splits bool.splits)
qed

lemma cm_modified_time_inv: "cm_inv W P m \<Longrightarrow> cm_inv W P (snd (cm_modified_time w k b m))"
proof -
  assume i: "cm_inv W P m"
  obtain r m1 where s: "cm_store w k m = (r, m1)" by fastforce
  then have "cm_inv W P m1" using cm_store_frame i by fastforce
  with i s show ?thesis
    by (cases r) (auto simp: cm_modified_time_def split: option.splits)
qed

lemma update_statics_inv: "w \<in> W \<Longrightarrow> cm_inv W P m \<Longrightarrow> cm_inv W P (snd (update_statics w ks m))"
proof (induction ks arbitrary: m)
  case (Cons k ks)
  then show ?case using update_static_entry_inv by (simp add: cm_bind_inv)
qed simp

lemma refresh_entries_inv: "w \<in> W \<Longrightarrow> cm_inv W P m \<Longrightarrow> refresh_entries w ks m = (e, out, m') \<Longrightarrow> cm_inv W P m'"
proof (induction ks arbitrary: m e out m')
  case (Cons k ks)
  obtain r m1 where u: "update_entry w k m = (r, m1)" by fastforce
  with update_entry_inv [OF Cons.prems(1,2), of k] have i: "cm_inv W P m1" by simp
  obtain e1 o1 m2 where t: "refresh_entries w ks m1 = (e1, o1, m2)" by (metis prod_cases3)
  show ?case using Cons.IH [OF Cons.prems(1) i t] Cons.prems(3) u t i by (cases r) auto
qed simp

lemma preload_entries_inv: "w \<in> W \<Longrightarrow> cm_inv W P m \<Longrightarrow> cm_inv W P (snd (preload_entries w ps m))"
proof (induction ps arbitrary: m)
  case (Cons p ps)
  obtain r m1 where u: "update_static_entry w p m = (r, m1)" by fastforce
  with update_static_entry_inv [OF Cons.prems, of p] have "cm_inv W P m1" by simp
  then show ?case using u Cons.IH Cons.prems(1) by (cases r) (auto intro: cm_bind_inv)
qed simp

section \<open>Runs\<close>

datatype cm_op =
    OpLookup env string bool
  | OpRefresh env
  | OpModified env string bool
  | OpPreload env "string list option"
  | OpAddObserver

fun cm_step :: "cache_manager \<Rightarrow> cm_op \<Rightarrow> cache_manager" where
  "cm_step m (OpLookup w k r) = snd (cm_lookup w k r m)"
| "cm_step m (OpRefresh w) = (case refresh w m of
     (Inl e, m1) \<Rightarrow> m1 | (Inr ks, m1) \<Rightarrow> snd (snd (refresh_entries w ks m1)))"
| "cm_step m (OpModified w k b) = snd (cm_modified_time w k b m)"
| "cm_step m (OpPreload w c) = snd (preload_projects_file w c m)"
| "cm_step m OpAddObserver = add_observer m"

lemma refresh_inv: "w \<in> W \<Longrightarrow> cm_inv W P m \<Longrightarrow> cm_inv W P (snd (refresh w m))"
  unfolding refresh_def by (intro cm_bind_inv update_statics_inv) simp_all

lemma add_observer_inv: "cm_inv W P m \<Longrightarrow> cm_inv W P (add_observer m)"
  by (simp add: add_observer_def cm_inv_def cm_wf_def cm_all_def cm_sound_def)

text \<open>The world in which an operation runs.\<close>

fun op_envs :: "cm_op \<Rightarrow> env set" where
  "op_envs (OpLookup w k r) = {w}"
| "op_envs (OpRefresh w) = {w}"
| "op_envs (OpModified w k b) = {w}"
| "op_envs (OpPreload w c) = {w}"
| "op_envs OpAddObserver = {}"

lemma cm_step_inv: "op_envs x \<subseteq> W \<Longrightarrow> cm_inv W P m \<Longrightarrow> cm_inv W P (cm_step m x)"
proof (cases x)
  case (OpRefresh w)
  assume "op_envs x \<subseteq> W" and i: "cm_inv W P m"
  with OpRefresh have w: "w \<in> W" by simp
  obtain r m1 where r: "refresh w m = (r, m1)" by fastforce
  with refresh_inv [OF w i] have i1: "cm_inv W P m1" by simp
  show ?thesis
  proof (cases r)
    case (Inr ks)
    obtain e o1 m2 where t: "refresh_entries w ks m1 = (e, o1, m2)" by (metis prod_cases3)
    with refresh_entries_inv [OF w i1 t] show ?thesis using OpRefresh r Inr by simp
  qed (use OpRefresh r i1 in simp)
qed (auto simp: cm_lookup_inv cm_modified_time_inv add_observer_inv preload_projects_file_def preload_entries_inv
      split: option.splits)

interpretation cm_sys: step_system "\<lambda>m x. if op_envs x \<subseteq> W then cm_step m x else m" "cm_inv W P" for W P
  by unfold_locales (simp add: cm_step_inv)

lemma cm_run_inv: "\<Union>(op_envs ` set ops) \<subseteq> W \<Longrightarrow> cm_inv W P m \<Longrightarrow> cm_inv W P (foldl cm_step m ops)"
proof -
  assume o: "\<Union>(op_envs ` set ops) \<subseteq> W" and i: "cm_inv W P m"
  have "foldl cm_step m ops = foldl (\<lambda>m x. if op_envs x \<subseteq> W then cm_step m x else m) m ops"
    by (rule foldl_cong) (use o in auto)
  with cm_sys.inv_run [OF i, of ops] show ?thesis by simp
qed

lemma cm_peek_inv: "cm_inv W P m \<Longrightarrow> cm_peek key ct m = Some d \<Longrightarrow> P (fst d)"
  using cm_invD(2,3) [of W P m key d]
  by (cases ct rule: option.exhaust) (auto simp: cm_peek_def split: option.splits cache_type.splits)

text \<open>The standard handlers are lawful and sound.\<close>

lemma standard_handler_cases:
  assumes "cm_registry m = standard_registry pg ins" and "get_protocol_handler w s m = Inr h"
  shows "h = file_handler w (cm_opts m) \<or> h = pg_handler w (cm_opts m) pg ins \<or> h = storage_handler w (cm_opts m)"
  using assms by (auto simp: get_protocol_handler_def Let_def standard_registry_def split: if_splits option.splits)

lemma standard_sound:
  "cm_registry m = standard_registry pg ins \<Longrightarrow> cm_sound W (was_read W (cm_opts m)) m"
  unfolding cm_sound_def
  by (auto dest!: standard_handler_cases intro: sound_file sound_pg sound_storage)

lemma standard_lawful:
  assumes "cm_registry m = standard_registry pg ins" and "get_protocol_handler w s m = Inr h"
    and "ph_get h u (Some (p, t)) = Inr (q, t)"
  shows "q = p"
  using standard_handler_cases [OF assms(1,2)] assms(3)
    fileh.same_stamp pgh.same_stamp storageh.same_stamp by blast

lemma cm_init_inv:
  assumes "cm_init cf schemes (standard_registry pg ins) = Inr m"
  shows "cm_inv W (was_read W (cc_opts cf)) m"
proof -
  from assms obtain c where c: "lru_init (cc_size cf) = Inr c" "cm_lru m = c" "cm_static m = []"
    "cm_opts m = cc_opts cf" "cm_registry m = standard_registry pg ins"
    by (auto simp: cm_init_def)
  then have "table c = []" by (cases "0 < cc_size cf") (auto simp: lru_init_ok lru_init_bad)
  with c show ?thesis
    using standard_sound [OF c(5)] by (auto simp: cm_inv_def cm_wf_def cm_all_def lru_wf_init lru_peek_def)
qed

end
