(* ===== verification/CacheProps.thy ===== *)
theory CacheProps
  imports CacheManager
begin

text \<open>
  Properties of the cache manager: what its caches hold, what a lookup returns with and without
  refreshing, and what a refresh does to the order of the LRU cache, with and without failures.
\<close>

section \<open>Content\<close>

text \<open>
  C11:  What the caches hold. After every run of lookups, refreshes, date queries and preloads of a
  cache manager with the standard handlers, each project in the LRU or the static cache was
  returned by \<open>read_project\<close> under the manager's options, in the world of one of these operations:
  it passed the strict check there and its service URLs were emptied if that was asked for; a failed
  operation never leaves anything else.
\<close>
theorem cache_holds_read_projects:
  assumes "cm_init cf schemes (standard_registry pg ins) = Inr m"
    and "cm_peek key ct (foldl cm_step m ops) = Some (p, t)"
  shows "\<exists>w uri. w \<in> \<Union>(op_envs ` set ops) \<and> read_project w (cc_opts cf) uri = Inr p"
proof -
  let ?W = "\<Union>(op_envs ` set ops)"
  have i: "cm_inv ?W (was_read ?W (cc_opts cf)) (foldl cm_step m ops)"
    by (rule cm_run_inv [OF subset_refl cm_init_inv [OF assms(1)]])
  from cm_peek_inv [OF i assms(2)] show ?thesis unfolding was_read_def by auto
qed

definition sample_conf :: "int \<Rightarrow> cache_conf" where
  "sample_conf n = \<lparr>cc_size = n, cc_opts = strict_options, cc_default_handler = ''file'',
     cc_allow_storage_schemes = ''*'', cc_rootdir = ''/d''\<rparr>"

definition no_pg :: pg_server where
  "no_pg cp sql = PgOperationalError"

definition sample_cm :: cache_manager where
  "sample_cm = \<lparr>cm_lru = \<lparr>table = [], capacity = 2\<rparr>, cm_static = [], cm_opts = strict_options,
     cm_aliases = [(''file'', file_alias ''/d'')], cm_schemes = (\<lambda>s. Inl KeyError), cm_default = ''file'',
     cm_allowed = None, cm_registry = standard_registry no_pg False, cm_observers = 0, cm_notes = []\<rparr>"

lemma sample_cm_init: "cm_init (sample_conf 2) (\<lambda>s. Inl KeyError) (standard_registry no_pg False) = Inr sample_cm"
  by (simp add: cm_init_def sample_conf_def sample_cm_def lru_init_ok)

lemma cache_holds_read_projects_witness:
  "\<exists>t. cm_peek ''town'' None (foldl cm_step sample_cm [OpLookup (one_file ''/d/town.qgs'') ''town'' True])
        = Some (prepare_project strict_options (sample_project ''/d/town.qgs'' []), t)
   \<and> (\<exists>uri. read_project (one_file ''/d/town.qgs'') strict_options uri = Inr (prepare_project strict_options (sample_project ''/d/town.qgs'' [])))"
proof -
  have p: "cm_peek ''town'' None (foldl cm_step sample_cm [OpLookup (one_file ''/d/town.qgs'') ''town'' True])
        = Some (prepare_project strict_options (sample_project ''/d/town.qgs'' []), 5)"
    by code_simp
  have "cc_opts (sample_conf 2) = strict_options" by (simp add: sample_conf_def)
  with cache_holds_read_projects [OF sample_cm_init p] p show ?thesis by auto
qed

section \<open>Lookups\<close>

text \<open>What an update of an entry does when it succeeds.\<close>

lemma update_entry_ok:
  assumes "cm_wf m" and "update_entry w k m = (Inr st, m')"
  shows "\<exists>d st0 m1. get_project_details w k (cm_peek k None m) m = (Inr (d, st0), m1)
    \<and> st = (if lru_peek k (cm_lru m) = None then Inserted else st0)
    \<and> cm_lru m' = lru_put k d (cm_lru m)
    \<and> cm_notes m' = cm_notes m @ (if st = Unchanged then [] else map (\<lambda>i. (i, k, drop_us (snd d), st)) [0..<cm_observers m])"
proof -
  obtain r m1 where g: "get_project_details w k (cm_peek k None m) m = (r, m1)" by fastforce
  obtain al where m1: "m1 = m\<lparr>cm_aliases := al\<rparr>" using get_project_details_frame [OF g] by blast
  have wf: "cm_wf (m1\<lparr>cm_static := x\<rparr>)" if "od_wf x" for x using assms(1) that by (simp add: m1 cm_wf_def)
  have "cm_peek k None m = None \<Longrightarrow> r = Inr (d, st0) \<Longrightarrow> st0 = Inserted" for d st0
    using g get_project_details_ok [of w k None m "fst d" "snd d" st0 m1] by auto
  with assms g wf m1 show ?thesis
    by (cases "lru_peek k (cm_lru m)"; cases "od_get (cm_static m) k")
      (auto simp: update_entry_def cm_peek_def cm_insert_def lru_put_eq cm_wf_def notify_observers_def
        split: if_splits sum.splits)
qed

lemma cm_getitem_ok:
  assumes "cm_wf m" and "cm_getitem k m = (Inr d, m')"
  shows "lru_peek k (cm_lru m) = Some d \<and> (\<exists>c. m' = m\<lparr>cm_lru := c\<rparr> \<and> lru_wf c \<and> lru_items c = rl_touch k (lru_items (cm_lru m)))"
proof -
  have wf: "lru_wf (cm_lru m)" using assms(1) by (simp add: cm_wf_def)
  obtain c where c: "lru_getitem k (cm_lru m) = Inr (d, c)" "m' = m\<lparr>cm_lru := c\<rparr>"
    using assms(2) by (auto simp: cm_getitem_def split: sum.splits)
  have "lru_peek k (cm_lru m) \<noteq> None"
    using c(1) by (auto simp: lru_getitem_def move_to_end_def lru_peek_def split: option.splits)
  then obtain e where e: "lru_peek k (cm_lru m) = Some e" by auto
  obtain c' where "lru_getitem k (cm_lru m) = Inr (e, c')" "lru_wf c'" "lru_items c' = rl_touch k (lru_items (cm_lru m))"
    by (rule lru_getitem_hit [OF wf e])
  with c e show ?thesis by auto
qed

lemma rl_put_touch: "0 < n \<Longrightarrow> rl_touch k (rl_put n k v xs) = rl_put n k v xs"
proof -
  assume "0 < n"
  then obtain i where "n = Suc i" by (cases n) auto
  moreover have "filter (\<lambda>(j, w). j \<noteq> k) (take i (filter (\<lambda>(j, w). j \<noteq> k) xs)) = take i (filter (\<lambda>(j, w). j \<noteq> k) xs)"
    by (rule filter_True) (auto dest: in_set_takeD)
  ultimately show ?thesis by (simp add: rl_put_def rl_touch_def)
qed

text \<open>
  C19:  A lookup that refreshes. When it returns, with the standard handlers, the entry of the key is
  the most recent of the LRU cache and holds the project returned; every other entry of the cache
  was there before. \<open>Unchanged\<close> means that the key was in the LRU cache and the project is the
  cached object itself, with its timestamp; every other state is announced to each observer, once,
  with the time cut to seconds.
\<close>
theorem lookup_refresh_spec:
  assumes "cm_wf m" and "cm_registry m = standard_registry pg ins"
    and "cm_lookup w k True m = (Inr (p, st), m')"
  shows "\<exists>t. lru_items (cm_lru m') = rl_put (nat (capacity (cm_lru m))) k (p, t) (lru_items (cm_lru m))
    \<and> (st = Unchanged \<longrightarrow> lru_peek k (cm_lru m) = Some (p, t))
    \<and> cm_notes m' = cm_notes m @ (if st = Unchanged then [] else map (\<lambda>i. (i, k, drop_us t, st)) [0..<cm_observers m])"
proof -
  from assms(3) obtain m1 d where u: "update_entry w k m = (Inr st, m1)" and g: "cm_getitem k m1 = (Inr d, m')" "p = fst d"
    by (auto simp: cm_lookup_def split: option.splits)
  obtain e st0 m0 where e: "get_project_details w k (cm_peek k None m) m = (Inr (e, st0), m0)"
      "st = (if lru_peek k (cm_lru m) = None then Inserted else st0)" "cm_lru m1 = lru_put k e (cm_lru m)"
      "cm_notes m1 = cm_notes m @ (if st = Unchanged then [] else map (\<lambda>i. (i, k, drop_us (snd e), st)) [0..<cm_observers m])"
    using update_entry_ok [OF assms(1) u] by blast
  have wf: "lru_wf (cm_lru m)" using assms(1) by (simp add: cm_wf_def)
  have "cm_wf m1"
    using cm_inv_static update_entry_inv [of w "{w}" "\<lambda>_. True" m k] assms(1) u
    by (simp add: cm_inv_def cm_all_def cm_sound_def sound_handler_def)
  note gi = cm_getitem_ok [OF this g(1)]
  have d: "d = e" using gi e(3) lru.get_put_same [OF wf] by simp
  have items: "lru_items (cm_lru m') = rl_put (nat (capacity (cm_lru m))) k e (lru_items (cm_lru m))"
  proof -
    have "0 < nat (capacity (cm_lru m))" using wf by (simp add: lru_wf_def)
    from rl_put_touch [OF this, of k e "lru_items (cm_lru m)"] gi show ?thesis
      using lru_put_items [OF wf, of k e] by (auto simp: e(3))
  qed
  have same: "lru_peek k (cm_lru m) = Some e" if st: "st = Unchanged"
  proof -
    note that = st
    have "lru_peek k (cm_lru m) \<noteq> None"
    proof
      assume "lru_peek k (cm_lru m) = None"
      with e(2) st show False by simp
    qed
    then obtain q s where q: "lru_peek k (cm_lru m) = Some (q, s)" by auto
    with that e(2) have "cm_peek k None m = Some (q, s)" "st0 = Unchanged" by (auto simp: cm_peek_def)
    then have "get_project_details w k (Some (q, s)) m = (Inr ((fst e, snd e), Unchanged), m0)" using e(1) by simp
    from get_project_details_ok [OF this] obtain ul h m2 where h0: "cm_store w k m = (Inr (ul, h), m2)" "ph_get h ul (Some (q, s)) = Inr (fst e, snd e)"
      "snd e = s" by (auto split: if_splits)
    then have h: "cm_store w k m = (Inr (ul, h), m2)" "ph_get h ul (Some (q, s)) = Inr (fst e, s)" "snd e = s" by simp_all
    from standard_lawful [OF assms(2) cm_store_handler [OF h(1)] h(2)] h(3) q show ?thesis by (cases e) auto
  qed
  show ?thesis
    using items same e(4) gi d g(2) by (intro exI [of _ "snd e"]) auto
qed

lemma lookup_refresh_spec_witness:
  "\<exists>m' p t. cm_lookup (one_file ''/d/town.qgs'') ''town'' True (add_observer sample_cm) = (Inr (p, Inserted), m')
     \<and> lru_items (cm_lru m') = [(''town'', (p, t))] \<and> cm_notes m' = [(0, ''town'', drop_us t, Inserted)]"
proof -
  let ?m = "add_observer sample_cm"
  have wf: "cm_wf ?m" by (simp add: cm_wf_def lru_wf_def sample_cm_def add_observer_def)
  have reg: "cm_registry ?m = standard_registry no_pg False" by (simp add: sample_cm_def add_observer_def)
  obtain r m' where r: "cm_lookup (one_file ''/d/town.qgs'') ''town'' True ?m = (r, m')" by fastforce
  have "fst (cm_lookup (one_file ''/d/town.qgs'') ''town'' True ?m)
      = Inr (prepare_project strict_options (sample_project ''/d/town.qgs'' []), Inserted)" by code_simp
  with r have r2: "cm_lookup (one_file ''/d/town.qgs'') ''town'' True ?m
      = (Inr (prepare_project strict_options (sample_project ''/d/town.qgs'' []), Inserted), m')" by simp
  from lookup_refresh_spec [OF wf reg r2] r2 show ?thesis
    by (auto simp: sample_cm_def add_observer_def lru_items_def rl_put_def)
qed

text \<open>
   Lookups without refreshing do not count as uses. A hit in the LRU cache returns the cached
  project and leaves the whole state alone, so that after any number of hits of the oldest entry
  of a full cache, the next new key still evicts it: the cache works first in, first out.
\<close>
theorem lookup_hits_do_not_touch:
  assumes "cm_wf m" and "lru_items (cm_lru m) = xs @ [(k, d)]" and "int (length (lru_items (cm_lru m))) = capacity (cm_lru m)"
    and "j \<notin> set (lru_keys (cm_lru m))" and "update_entry w j (foldl cm_step m (map (\<lambda>w. OpLookup w k False) ws)) = (Inr st, m')"
  shows "cm_lookup w0 k False m = (Inr (fst d, Unchanged), m)
    \<and> foldl cm_step m (map (\<lambda>w. OpLookup w k False) ws) = m
    \<and> lru_keys (cm_lru m') = j # map fst xs"
proof -
  have wf: "lru_wf (cm_lru m)" using assms(1) by (simp add: cm_wf_def)
  have keys: "distinct (lru_keys (cm_lru m))" using wf by (simp add: lru_wf_def od_wf_def lru_keys_def)
  then have "k \<notin> fst ` set xs" using assms(2) by (simp add: lru_keys_items)
  then have "map_of (xs @ [(k, d)]) k = Some d"
    by (simp add: map_of_append map_add_def map_of_eq_None_iff [THEN iffD2])
  then have pk: "lru_peek k (cm_lru m) = Some d" using wf assms(2) by (simp add: lru_peek_items)
  then have hit: "cm_lookup v k False m = (Inr (fst d, Unchanged), m)" for v by (simp add: cm_lookup_def cm_peek_def)
  then have run: "foldl cm_step m (map (\<lambda>w. OpLookup w k False) ws) = m" by (induction ws) simp_all
  obtain e where e: "cm_lru m' = lru_put j e (cm_lru m)"
    using update_entry_ok [OF assms(1) assms(5) [unfolded run]] by blast
  have "filter (\<lambda>(i, w). i \<noteq> j) (xs @ [(k, d)]) = xs @ [(k, d)]"
    using assms(2,4) by (intro filter_True) (force simp: lru_keys_items)
  moreover have "nat (capacity (cm_lru m)) = Suc (length xs)" using assms(2,3) by simp
  ultimately have "lru_items (cm_lru m') = (j, e) # xs"
    using lru_put_items [OF wf, of j e] assms(2) by (simp add: e rl_put_def)
  with hit run show ?thesis by (simp add: lru_keys_items)
qed

definition env_town :: env where
  "env_town = one_file ''/d/town.qgs''"

definition filled_cm :: cache_manager where
  "filled_cm = sample_cm\<lparr>cm_lru := \<lparr>table = [(''old'', (sample_project ''/d/old.qgs'' [], 5)), (''new'', (sample_project ''/d/new.qgs'' [], 5))],
     capacity = 2\<rparr>\<rparr>"

lemma lookup_hits_do_not_touch_witness:
  "\<exists>st m'. update_entry env_town ''town'' (foldl cm_step filled_cm (map (\<lambda>w. OpLookup w ''old'' False) [env_town, env_town])) = (Inr st, m')
     \<and> lru_keys (cm_lru m') = [''town'', ''new'']"
proof -
  let ?m = "filled_cm"
  have wf: "cm_wf ?m" by (simp add: cm_wf_def lru_wf_def od_wf_def od_keys_def sample_cm_def filled_cm_def)
  have it: "lru_items (cm_lru ?m) = [(''new'', (sample_project ''/d/new.qgs'' [], 5))] @ [(''old'', (sample_project ''/d/old.qgs'' [], 5))]"
    by (simp add: lru_items_def filled_cm_def)
  have cap: "int (length (lru_items (cm_lru ?m))) = capacity (cm_lru ?m)" by (simp add: lru_items_def filled_cm_def)
  have nk: "''town'' \<notin> set (lru_keys (cm_lru ?m))" by (simp add: lru_keys_def od_keys_def filled_cm_def)
  obtain r m' where r: "update_entry env_town ''town'' (foldl cm_step ?m (map (\<lambda>w. OpLookup w ''old'' False) [env_town, env_town])) = (r, m')"
    by fastforce
  have "fst (update_entry env_town ''town'' (foldl cm_step ?m (map (\<lambda>w. OpLookup w ''old'' False) [env_town, env_town])))
      = Inr Inserted" by code_simp
  with r have "update_entry env_town ''town'' (foldl cm_step ?m (map (\<lambda>w. OpLookup w ''old'' False) [env_town, env_town])) = (Inr Inserted, m')"
    by simp
  from lookup_hits_do_not_touch [OF wf it cap nk this] this show ?thesis by auto
qed

section \<open>Refreshing\<close>

definition touch :: "'k list \<Rightarrow> 'k \<Rightarrow> 'k list" where
  "touch ks k = k # filter (\<lambda>j. j \<noteq> k) ks"

lemma touch_all: "distinct (zs @ xs @ us) \<Longrightarrow> foldl touch (zs @ xs @ us) (rev us) = us @ zs @ xs"
proof (induction us arbitrary: zs rule: rev_induct)
  case (snoc u us)
  have "filter (\<lambda>j. j \<noteq> u) (zs @ xs @ us) = zs @ xs @ us"
    using snoc.prems by (intro filter_True) auto
  then have "filter (\<lambda>j. j \<noteq> u) (zs @ xs @ us @ [u]) = zs @ xs @ us" by simp
  then have "foldl touch (zs @ xs @ us @ [u]) (rev (us @ [u])) = foldl touch ((u # zs) @ xs @ us) (rev us)"
    by (simp add: touch_def)
  also have "\<dots> = us @ (u # zs) @ xs" using snoc.prems by (intro snoc.IH) auto
  finally show ?case by simp
qed simp

lemma update_entry_keys:
  assumes "cm_wf m" and "update_entry w k m = (Inr st, m')" and "k \<in> set (lru_keys (cm_lru m))"
  shows "lru_keys (cm_lru m') = touch (lru_keys (cm_lru m)) k"
proof -
  have wf: "lru_wf (cm_lru m)" using assms(1) by (simp add: cm_wf_def)
  obtain e where e: "cm_lru m' = lru_put k e (cm_lru m)" using update_entry_ok [OF assms(1,2)] by blast
  have f: "map fst (filter (\<lambda>(j, w). j \<noteq> k) ys) = filter (\<lambda>j. j \<noteq> k) (map fst ys)" for ys :: "(string \<times> details) list"
    by (induction ys) auto
  have "length (filter (\<lambda>j. j \<noteq> k) (lru_keys (cm_lru m))) < length (lru_keys (cm_lru m))"
    using assms(3) by (intro length_filter_less) auto
  also have "length (lru_keys (cm_lru m)) \<le> nat (capacity (cm_lru m))" using wf by (auto simp: lru_wf_def lru_keys_def od_keys_def)
  finally show ?thesis
    using lru_put_items [OF wf, of k e] by (simp add: e lru_keys_items rl_put_def take_map [symmetric] f touch_def
      del: take_map)
qed

lemma update_entry_wf: "cm_wf m \<Longrightarrow> update_entry w k m = (r, m') \<Longrightarrow> cm_wf m'"
  using update_entry_inv [of w "{w}" "\<lambda>_. True" m k] by (simp add: cm_inv_def cm_all_def cm_sound_def sound_handler_def)

lemma refresh_entries_keys:
  assumes "cm_wf m" and "set ks \<subseteq> set (lru_keys (cm_lru m))" and "refresh_entries w ks m = (None, out, m')"
  shows "lru_keys (cm_lru m') = foldl touch (lru_keys (cm_lru m)) ks \<and> map fst out = ks \<and> cm_wf m'"
  using assms
proof (induction ks arbitrary: m out)
  case (Cons k ks)
  obtain r m1 where u: "update_entry w k m = (r, m1)" by fastforce
  with Cons.prems(3) obtain st out2 where st: "r = Inr st" "refresh_entries w ks m1 = (None, out2, m')" "out = (k, st) # out2"
    by (cases r) (auto split: prod.splits)
  have keys: "lru_keys (cm_lru m1) = touch (lru_keys (cm_lru m)) k"
    using update_entry_keys [OF Cons.prems(1)] u st(1) Cons.prems(2) by simp
  have wf: "cm_wf m1" by (rule update_entry_wf [OF Cons.prems(1) u])
  have "set ks \<subseteq> set (lru_keys (cm_lru m1))" using Cons.prems(2) by (auto simp: keys touch_def)
  from Cons.IH [OF wf this st(2)] show ?case by (simp add: keys st(3))
qed simp

text \<open>
   A refresh keeps the order. When every entry can be updated, refreshing the LRU cache visits
  every key once, least recent first, and leaves the keys in the order they had.
\<close>
theorem refresh_keeps_order:
  assumes "cm_wf m" and "refresh_entries w (rev (lru_keys (cm_lru m))) m = (None, out, m')"
  shows "lru_keys (cm_lru m') = lru_keys (cm_lru m) \<and> map fst out = rev (lru_keys (cm_lru m))"
proof -
  have "distinct (lru_keys (cm_lru m))"
    using assms(1) by (simp add: cm_wf_def lru_wf_def od_wf_def lru_keys_def)
  with refresh_entries_keys [OF assms(1) _ assms(2)] touch_all [of "[]" "[]" "lru_keys (cm_lru m)"]
  show ?thesis by simp
qed

definition both_files :: env where
  "both_files = env_town\<lparr>file_mtime := (\<lambda>f. if f \<in> {''/d/old.qgs'', ''/d/new.qgs''} then Some 9 else None)\<rparr>"

lemma refresh_keeps_order_witness:
  "\<exists>out m'. refresh_entries both_files (rev (lru_keys (cm_lru filled_cm))) filled_cm = (None, out, m')
     \<and> lru_keys (cm_lru m') = [''new'', ''old''] \<and> map fst out = [''old'', ''new'']"
proof -
  have wf: "cm_wf filled_cm" by (simp add: cm_wf_def lru_wf_def od_wf_def od_keys_def sample_cm_def filled_cm_def)
  have k: "lru_keys (cm_lru filled_cm) = [''new'', ''old'']" by (simp add: lru_keys_def od_keys_def filled_cm_def)
  have "fst (refresh_entries both_files (rev (lru_keys (cm_lru filled_cm))) filled_cm) = None" by code_simp
  then obtain out m' where r: "refresh_entries both_files (rev (lru_keys (cm_lru filled_cm))) filled_cm = (None, out, m')"
    by (metis prod.collapse)
  from refresh_keeps_order [OF wf r] r k show ?thesis by simp
qed

lemma update_entry_error: "cm_wf m \<Longrightarrow> update_entry w k m = (Inl e, m') \<Longrightarrow> cm_lru m' = cm_lru m"
proof -
  assume wf: "cm_wf m" and u: "update_entry w k m = (Inl e, m')"
  obtain r m1 where g: "get_project_details w k (cm_peek k None m) m = (r, m1)" by fastforce
  obtain al where m1: "m1 = m\<lparr>cm_aliases := al\<rparr>" using get_project_details_frame [OF g] by blast
  from wf u g m1 show ?thesis
    by (cases "lru_peek k (cm_lru m)"; cases "od_get (cm_static m) k"; cases r)
      (auto simp: update_entry_def cm_peek_def cm_insert_def lru_put_eq cm_wf_def split: if_splits)
qed

lemma refresh_entries_error:
  assumes "cm_wf m" and "set ks \<subseteq> set (lru_keys (cm_lru m))" and "refresh_entries w ks m = (Some e, out, m')"
  shows "\<exists>k rest. ks = map fst out @ k # rest \<and> lru_keys (cm_lru m') = foldl touch (lru_keys (cm_lru m)) (map fst out)
     \<and> cm_wf m'"
  using assms
proof (induction ks arbitrary: m out)
  case (Cons k ks)
  obtain r m1 where u: "update_entry w k m = (r, m1)" by fastforce
  note wf = update_entry_wf [OF Cons.prems(1) u]
  show ?case
  proof (cases r)
    case (Inl e')
    with u Cons.prems(3) have "out = []" "m' = m1" by auto
    with update_entry_error [OF Cons.prems(1)] u Inl wf show ?thesis by auto
  next
    case (Inr st)
    with u Cons.prems(3) obtain out2 where o2: "refresh_entries w ks m1 = (Some e, out2, m')" "out = (k, st) # out2"
      by (auto split: prod.splits)
    have keys: "lru_keys (cm_lru m1) = touch (lru_keys (cm_lru m)) k"
      using update_entry_keys [OF Cons.prems(1)] u Inr Cons.prems(2) by simp
    have "set ks \<subseteq> set (lru_keys (cm_lru m1))" using Cons.prems(2) by (auto simp: keys touch_def)
    from Cons.IH [OF wf this o2(1)] o2(2) show ?thesis by (auto simp: keys)
  qed
qed simp

text \<open>
  C36:  One key that cannot be updated stops all refreshes. When the update of a key fails, the
  refresh ends there: the keys more recent than it are not visited, and since the keys visited
  before went to the front, the failing key is now the least recent one. From then on, as long as
  it fails, a refresh tries this key first and updates nothing.
\<close>
theorem refresh_stuck:
  assumes "cm_wf m" and "lru_keys (cm_lru m) = xs @ k # ys"
    and "refresh_entries w (rev (lru_keys (cm_lru m))) m = (Some e, out, m')" and "map fst out = rev ys"
    and "update_entry w' k m' = (Inl e', m'')"
  shows "lru_keys (cm_lru m') = ys @ xs @ [k]
    \<and> refresh_entries w' (rev (lru_keys (cm_lru m'))) m' = (Some e', [], m'') \<and> cm_lru m'' = cm_lru m'"
proof -
  have d: "distinct (lru_keys (cm_lru m))"
    using assms(1) by (simp add: cm_wf_def lru_wf_def od_wf_def lru_keys_def)
  have r: "lru_keys (cm_lru m') = foldl touch (lru_keys (cm_lru m)) (rev ys)" "cm_wf m'"
    using refresh_entries_error [OF assms(1) _ assms(3)] assms(4) by auto
  with touch_all [of "[]" "xs @ [k]" ys] d assms(2) have keys: "lru_keys (cm_lru m') = ys @ xs @ [k]" by simp
  with assms(5) update_entry_error [OF r(2) assms(5)] show ?thesis by simp
qed

definition new_only :: env where
  "new_only = env_town\<lparr>file_mtime := (\<lambda>f. if f = ''/d/old.qgs'' then Some 9 else None)\<rparr>"

lemma refresh_stuck_witness:
  "\<exists>e out m' e' m''. refresh_entries new_only (rev (lru_keys (cm_lru filled_cm))) filled_cm = (Some e, out, m')
     \<and> lru_keys (cm_lru m') = [''old'', ''new'']
     \<and> refresh_entries new_only (rev (lru_keys (cm_lru m'))) m' = (Some e', [], m'')"
proof -
  have wf: "cm_wf filled_cm" by (simp add: cm_wf_def lru_wf_def od_wf_def od_keys_def sample_cm_def filled_cm_def)
  have k: "lru_keys (cm_lru filled_cm) = [] @ ''new'' # [''old'']" by (simp add: lru_keys_def od_keys_def filled_cm_def)
  define r where "r = refresh_entries new_only (rev (lru_keys (cm_lru filled_cm))) filled_cm"
  define u where "u = update_entry new_only ''new'' (snd (snd r))"
  have "fst r = Some FileNotFoundError" unfolding r_def by code_simp
  moreover have "map fst (fst (snd r)) = [''old'']" unfolding r_def by code_simp
  ultimately have re: "r = (Some FileNotFoundError, fst (snd r), snd (snd r))" and o: "map fst (fst (snd r)) = rev [''old'']"
    by (simp_all add: prod_eq_iff)
  have "fst u = Inl FileNotFoundError" unfolding u_def r_def by code_simp
  then have ue: "u = (Inl FileNotFoundError, snd u)" by (simp add: prod_eq_iff)
  from refresh_stuck [OF wf k re [unfolded r_def] o [unfolded r_def] ue [unfolded u_def r_def]] re
  show ?thesis unfolding r_def by (metis append_Nil append_Cons)
qed

end
