(* ===== verification/QgsWorker.thy ===== *)
theory QgsWorker
  imports Response CacheProps
begin

text \<open>
  \<open>src/pyqgisserver/qgsworker.py\<close>: the request adaptor and the request handler of a QGIS
  worker, which resolves the project of a request through the cache, answers validators and
  errors itself and passes the rest to QGIS. The class attributes of \<open>QgsRequestHandler\<close> are
  the record \<open>worker\<close>. QGIS is the record \<open>qgis\<close>: how it reads parameters, writes an
  exception into a response and handles a request; so are the hash and date functions.
\<close>

section \<open>Requests\<close>

datatype qmethod = GetMethod | PutMethod | PostMethod | HeadMethod | DeleteMethod | PatchMethod

definition HTTP_METHODS :: "(string, qmethod) odict" where
  "HTTP_METHODS = [(''GET'', GetMethod), (''PUT'', PutMethod), (''POST'', PostMethod), (''HEAD'', HeadMethod),
     (''DELETE'', DeleteMethod), (''PATCH'', PatchMethod)]"

record qrequest =
  qr_url :: string
  qr_method :: qmethod
  qr_headers :: "(string, string) odict"
  qr_data :: "string option"

text \<open>\<open>Request.__init__\<close>; the method table raises \<open>KeyError\<close>.\<close>

definition make_request :: "request_message \<Rightarrow> qrequest result" where
  "make_request rq =
     (let location = (case od_get (rq_headers rq) ''X-Qgis-Forwarded-Url'' of Some u \<Rightarrow> u | None \<Rightarrow> []);
          query = lstrip_chars ''?'' (rq_query rq);
          url = (if query \<noteq> [] then location @ ''?'' @ query else location)
      in case od_get HTTP_METHODS (rq_method rq) of
           None \<Rightarrow> Inl KeyError
         | Some meth \<Rightarrow> Inr \<lparr>qr_url = url, qr_method = meth, qr_headers = rq_headers rq, qr_data = rq_data rq\<rparr>)"

definition request_data :: "qrequest \<Rightarrow> string" where
  "request_data q = (case qr_data q of Some d \<Rightarrow> d | None \<Rightarrow> [])"

section \<open>QGIS and the state of a worker\<close>

record qgis =
  qg_parameter :: "qrequest \<Rightarrow> string \<Rightarrow> string"
  qg_write_exception :: "string \<Rightarrow> int \<Rightarrow> response \<Rightarrow> response"
  qg_handle :: "qrequest \<Rightarrow> qproject option \<Rightarrow> response \<Rightarrow> response outcome"
  qg_sha1 :: "string \<Rightarrow> string"
  qg_iso :: "int \<Rightarrow> string"
  qg_iso_tz :: "int \<Rightarrow> string"

record worker =
  wk_cache :: cache_manager
  wk_check_interval :: int
  wk_last_check :: int
  wk_force_etag :: bool
  wk_default_location :: "string option"
  wk_log_level :: int
  wk_removed :: "string list"
  wk_config_path :: "string option"
  wk_handled :: "(qrequest \<times> qproject option) list"

definition no_map_error :: string where
  "no_map_error = ''No project defined. For OWS services: please provide a SERVICE and a MAP parameter''"

text \<open>\<open>removeConfigCacheEntry\<close>, \<open>setConfigFilePath\<close> and \<open>handleRequest\<close> leave a trace.\<close>

definition remove_config :: "string \<Rightarrow> worker \<Rightarrow> worker" where
  "remove_config f s = s\<lparr>wk_removed := wk_removed s @ [f]\<rparr>"

definition handle_request :: "qgis \<Rightarrow> qrequest \<Rightarrow> qproject option \<Rightarrow> response \<Rightarrow> worker \<Rightarrow> response outcome \<times> worker" where
  "handle_request g q p r s = (qg_handle g q p r, s\<lparr>wk_handled := wk_handled s @ [(q, p)]\<rparr>)"

section \<open>The cache seen from a worker\<close>

definition cache_lookup :: "env \<Rightarrow> string \<Rightarrow> worker \<Rightarrow> (qproject \<times> update_state) result \<times> worker" where
  "cache_lookup w key s = (case cm_lookup w key (wk_check_interval s \<le> 0) (wk_cache s) of
     (r, m) \<Rightarrow> (r, s\<lparr>wk_cache := m\<rparr>))"

definition wk_modified_time :: "env \<Rightarrow> string \<Rightarrow> bool \<Rightarrow> worker \<Rightarrow> int result \<times> worker" where
  "wk_modified_time w key from_cache s = (case cm_modified_time w key from_cache (wk_cache s) of
     (r, m) \<Rightarrow> (r, s\<lparr>wk_cache := m\<rparr>))"

text \<open>
  \<open>refresh_cache\<close>: the loop consumes the generator, dropping the server's configuration cache of
  each updated project; an exception leaves the date of the last check as it was.
\<close>

fun refresh_loop :: "env \<Rightarrow> string list \<Rightarrow> worker \<Rightarrow> exn option \<times> worker" where
  "refresh_loop w [] s = (None, s)"
| "refresh_loop w (k # ks) s =
     (case update_entry w k (wk_cache s) of
        (Inl e, m) \<Rightarrow> (Some e, s\<lparr>wk_cache := m\<rparr>)
      | (Inr st, m) \<Rightarrow>
          (let s1 = s\<lparr>wk_cache := m\<rparr> in
           if st = Updated
           then (case cm_peek k None m of
                   Some d \<Rightarrow> refresh_loop w ks (remove_config (p_file (fst d)) s1)
                 | None \<Rightarrow> (Some AttributeError, s1))
           else refresh_loop w ks s1))"

definition refresh_cache :: "env \<Rightarrow> int \<Rightarrow> int \<Rightarrow> worker \<Rightarrow> exn option \<times> worker" where
  "refresh_cache w now later s =
     (if wk_check_interval s \<le> 0 \<or> now - wk_last_check s < wk_check_interval s then (None, s)
      else (case refresh w (wk_cache s) of
              (Inl e, m) \<Rightarrow> (Some e, s\<lparr>wk_cache := m\<rparr>)
            | (Inr ks, m) \<Rightarrow>
                (case refresh_loop w ks (s\<lparr>wk_cache := m\<rparr>) of
                   (Some e, s1) \<Rightarrow> (Some e, s1)
                 | (None, s1) \<Rightarrow> (None, s1\<lparr>wk_last_check := later\<rparr>))))"

definition post_process :: "env \<Rightarrow> int \<Rightarrow> int \<Rightarrow> bool \<Rightarrow> worker \<Rightarrow> exn option \<times> worker" where
  "post_process w now later idle s = refresh_cache w now later s"

section \<open>Validators\<close>

definition compute_etag :: "qgis \<Rightarrow> worker \<Rightarrow> string \<Rightarrow> int \<Rightarrow> qrequest \<Rightarrow> string option" where
  "compute_etag g s uri last_modified q =
     (if wk_force_etag s \<or> trust_layer_metadata (cm_opts (wk_cache s)) then
        (if py_lower (qg_parameter g q ''REQUEST'') = ''getcapabilities''
         then Some ([CHR 34] @ qg_sha1 g (py_lower (qg_parameter g q ''SERVICE'')
                 @ py_lower (qg_parameter g q ''VERSION'') @ uri @ qg_iso g last_modified) @ [CHR 34])
         else None)
      else None)"

definition set_etag_header ::
  "qgis \<Rightarrow> worker \<Rightarrow> string \<Rightarrow> int \<Rightarrow> qrequest \<Rightarrow> response \<Rightarrow> string option \<times> response" where
  "set_etag_header g s uri t q r =
     (case compute_etag g s uri t q of
        None \<Rightarrow> (None, r) | Some e \<Rightarrow> (Some e, setExtraHeader ''Etag'' (HStr e) r))"

definition check_etag_header ::
  "qgis \<Rightarrow> worker \<Rightarrow> (string, string) odict \<Rightarrow> string \<Rightarrow> int \<Rightarrow> qrequest \<Rightarrow> response \<Rightarrow> bool \<times> response" where
  "check_etag_header g s hs uri t q r =
     (case set_etag_header g s uri t q r of
        (None, r1) \<Rightarrow> (False, r1)
      | (Some e, r1) \<Rightarrow>
          (let etag = (case od_get hs ''If-None-Match'' of Some x \<Rightarrow> x | None \<Rightarrow> [])
           in (etag = ''*'' \<or> etag = e, r1)))"

section \<open>Handling a request\<close>

definition invalid_layers_msg :: "string \<Rightarrow> string" where
  "invalid_layers_msg k = ''Invalid layers for project '' @ [CHR 39] @ k @ [CHR 39] @ '' - strict mode on''"

definition unreadable_msg :: "string \<Rightarrow> string" where
  "unreadable_msg k = ''Cannot read project resource '' @ [CHR 39] @ k @ [CHR 39]"

definition not_found_msg :: "string \<Rightarrow> string" where
  "not_found_msg k = ''Project '' @ [CHR 39] @ k @ [CHR 39] @ '' not found''"

text \<open>The \<open>except\<close> clauses (lines 526--533): the status and message of an exception they catch.\<close>

definition project_error :: "string \<Rightarrow> exn \<Rightarrow> (int \<times> string) option" where
  "project_error loc e =
     (if e = StrictCheckingError then Some (422, invalid_layers_msg loc)
      else if e = UnreadableResourceError then Some (422, unreadable_msg loc)
      else if e = PathNotAllowedError then Some (403, ''Project path not allowed'')
      else if e = FileNotFoundError then Some (404, not_found_msg loc)
      else None)"

text \<open>
  The \<open>try\<close> block (lines 500--524): \<open>Inl\<close> an exception, \<open>Inr None\<close> when the request was
  answered with 304, \<open>Inr (Some project)\<close> when it goes on to QGIS.
\<close>

definition project_block ::
  "env \<Rightarrow> qgis \<Rightarrow> string option \<Rightarrow> string \<Rightarrow> (string, string) odict \<Rightarrow> qrequest \<Rightarrow> response \<Rightarrow> string option \<Rightarrow> worker
     \<Rightarrow> qproject option result \<times> response \<times> worker" where
  "project_block w g scheme loc hs q r request_id s =
     (case cache_lookup w loc s of
        (Inl e, s1) \<Rightarrow> (Inl e, r, s1)
      | (Inr (p, st), s1) \<Rightarrow>
          (let s2 = (if st \<noteq> Unchanged then remove_config (p_file p) s1 else s1) in
           case wk_modified_time w loc True s2 of
             (Inl e, s3) \<Rightarrow> (Inl e, r, s3)
           | (Inr t, s3) \<Rightarrow>
               (let r1 = setExtraHeader ''X-Map-Id'' (HStr loc) r;
                    r2 = setExtraHeader ''Last-Modified'' (HStr (qg_iso_tz g t)) r1;
                    r3 = (case request_id of Some i \<Rightarrow> if i \<noteq> [] then setExtraHeader ''X-Request-Id'' (HStr i) r2 else r2
                          | None \<Rightarrow> r2)
                in if scheme = Some ''OWS'' then
                     (case check_etag_header g s3 hs loc t q r3 of
                        (True, r4) \<Rightarrow>
                          (case finish (setStatusCode 304 r4) of
                             (Some e, r5) \<Rightarrow> (Inl e, r5, s3) | (None, r5) \<Rightarrow> (Inr None, r5, s3))
                      | (False, r4) \<Rightarrow> (Inr (Some p), r4, s3))
                   else (Inr (Some p), r3, s3))))"

definition handle_qgis_request ::
  "env \<Rightarrow> qgis \<Rightarrow> string option \<Rightarrow> string option \<Rightarrow> (string, string) odict \<Rightarrow> qrequest \<Rightarrow> response \<Rightarrow> string option \<Rightarrow> worker
     \<Rightarrow> response outcome \<times> worker" where
  "handle_qgis_request w g scheme location hs q r request_id s =
     (case location of
        None \<Rightarrow> handle_request g q None r s
      | Some loc \<Rightarrow>
          if loc = [] then handle_request g q None r s
          else (case project_block w g scheme loc hs q r request_id s of
                  (Inl e, r1, s1) \<Rightarrow>
                    (case project_error loc e of
                       Some (code, msg) \<Rightarrow> ((None, sendError code msg r1), s1)
                     | None \<Rightarrow> ((Some e, r1), s1))
                | (Inr None, r1, s1) \<Rightarrow> ((None, r1), s1)
                | (Inr (Some p), r1, s1) \<Rightarrow>
                    handle_request g q (Some p) r1 (s1\<lparr>wk_config_path := Some (p_file p)\<rparr>)))"

text \<open>
  \<open>debug_request\<close>: the debug header raises the level of the logger around the block; the
  \<open>finally\<close> puts it back whatever happens. Level 10 is \<open>DEBUG\<close>.
\<close>

definition debug_request ::
  "string option \<Rightarrow> (worker \<Rightarrow> response outcome \<times> worker) \<Rightarrow> worker \<Rightarrow> response outcome \<times> worker" where
  "debug_request debug_id body s =
     (if debug_id \<noteq> None \<and> debug_id \<noteq> Some [] \<and> 10 < wk_log_level s
      then (case body (s\<lparr>wk_log_level := 10\<rparr>) of (out, s1) \<Rightarrow> (out, s1\<lparr>wk_log_level := wk_log_level s\<rparr>))
      else body s)"

text \<open>A missing or empty header counts as no value.\<close>

definition nonempty :: "string option \<Rightarrow> string option" where
  "nonempty x = (if x = Some [] then None else x)"

text \<open>The project of a request: the location header, the project header, the environment; and what is left of
  the headers once those have been popped.\<close>

definition request_location :: "worker \<Rightarrow> (string, string) odict \<Rightarrow> string option" where
  "request_location s hs =
     (let l0 = nonempty (od_get hs ''X-Map-Location'');
          l1 = (if l0 = None then nonempty (od_get hs ''X-Qgis-Project'') else l0)
      in if l1 = None then nonempty (wk_default_location s) else l1)"

definition other_headers :: "(string, string) odict \<Rightarrow> (string, string) odict" where
  "other_headers hs = od_del ''X-Debug-Id''
     ((if nonempty (od_get hs ''X-Map-Location'') = None then od_del ''X-Qgis-Project'' else id)
        (od_del ''X-Ogc-Scheme'' (od_del ''X-Map-Location'' hs)))"

text \<open>The part of \<open>handle_message\<close> inside the debug context.\<close>

definition message_body ::
  "env \<Rightarrow> qgis \<Rightarrow> string option \<Rightarrow> string option \<Rightarrow> (string, string) odict \<Rightarrow> qrequest \<Rightarrow> response \<Rightarrow> string option \<Rightarrow> worker
     \<Rightarrow> response outcome \<times> worker" where
  "message_body w g scheme loc hs q r request_id s =
     (if scheme = Some ''OWS'' \<and> loc = None \<and> qg_parameter g q ''SERVICE'' \<noteq> [] then
        (finish (qg_write_exception g no_map_error 400 r), s)
      else (case (scheme = Some ''OWS'' \<and> qr_method q = HeadMethod, loc) of
          (True, Some l) \<Rightarrow>
            (case wk_modified_time w l False s of
               (Inl e, s1) \<Rightarrow> ((Some e, r), s1)
             | (Inr t, s1) \<Rightarrow> (finish (snd (set_etag_header g s1 l t q r)), s1))
        | _ \<Rightarrow> handle_qgis_request w g scheme loc hs q r request_id s))"

definition handle_message ::
  "env \<Rightarrow> qgis \<Rightarrow> meta result option \<Rightarrow> request_message \<Rightarrow> worker \<Rightarrow> zhandler \<Rightarrow> (exn option \<times> zhandler) \<times> worker" where
  "handle_message w g mf rq s h =
     (case make_request rq of
        Inl e \<Rightarrow> ((Some e, h), s)
      | Inr q \<Rightarrow>
          (let (out, s1) = debug_request (od_get (rq_headers rq) ''X-Debug-Id'')
                 (message_body w g (od_get (rq_headers rq) ''X-Ogc-Scheme'') (request_location s (rq_headers rq))
                    (other_headers (rq_headers rq)) q (response_init h mf) (od_get (rq_headers rq) ''X-Request-Id'')) s
           in ((fst out, rs_h (snd out)), s1)))"

section \<open>Reports\<close>

record cache_line =
  cl_key :: string
  cl_filename :: string
  cl_last_modified :: "int option"
  cl_num_layers :: nat
  cl_static :: bool

definition cache_report :: "cache_manager \<Rightarrow> cache_line list" where
  "cache_report m =
     (let items = od_update (od_update [] (map (\<lambda>(k, d). (k, (d, False))) (cm_items LRU m)))
                    (map (\<lambda>(k, d). (k, (d, True))) (cm_items STATIC m))
      in map (\<lambda>(k, (d, st)). \<lparr>cl_key = k, cl_filename = p_file (fst d), cl_last_modified = p_last_modified (fst d),
              cl_num_layers = length (p_layers (fst d)), cl_static = st\<rparr>) items)"

section \<open>Initialisation\<close>

record server_conf =
  sv_trust :: bool
  sv_disable_getprint :: bool
  sv_check_interval :: int
  sv_has_observers :: bool
  sv_force_etag :: bool
  sv_verbose :: bool
  sv_log_level :: int

text \<open>The environment variables that \<open>init_server\<close> sets before QGIS starts.\<close>

definition server_environ :: "server_conf \<Rightarrow> (string, string) odict" where
  "server_environ c =
     (if sv_verbose c \<or> sv_log_level c \<le> 10 then [(''QGIS_SERVER_LOG_LEVEL'', ''0''), (''QGIS_DEBUG'', ''1'')] else [])
     @ (if sv_trust c then [(''QGIS_SERVER_TRUST_LAYER_METADATA'', ''yes'')] else [])
     @ (if sv_disable_getprint c then [(''QGIS_SERVER_DISABLE_GETPRINT'', ''yes'')] else [])
     @ [(''QGIS_SERVER_PROJECT_CACHE_STRATEGY'', ''off'')]"

definition init_server :: "env \<Rightarrow> server_conf \<Rightarrow> cache_manager \<Rightarrow> int \<Rightarrow> string option \<Rightarrow> string list option \<Rightarrow> worker result" where
  "init_server w c m now project_file preload =
     (let m1 = (if sv_has_observers c then add_observer m else m);
          (r, m2) = preload_projects_file w preload m1
      in rbind r (\<lambda>n. Inr \<lparr>wk_cache = m2, wk_check_interval = sv_check_interval c, wk_last_check = now,
            wk_force_etag = sv_force_etag c, wk_default_location = project_file, wk_log_level = sv_log_level c,
            wk_removed = [], wk_config_path = None, wk_handled = []\<rparr>))"

section \<open>Lemmas\<close>

lemma od_get_other_headers:
  "k \<notin> {''X-Debug-Id'', ''X-Ogc-Scheme'', ''X-Map-Location'', ''X-Qgis-Project''} \<Longrightarrow> od_get (other_headers hs) k = od_get hs k"
  by (auto simp: other_headers_def)

lemma nonempty_Some: "nonempty x = Some l \<Longrightarrow> x = Some l \<and> l \<noteq> []"
  by (auto simp: nonempty_def split: if_splits)

lemma request_location_ne: "request_location s hs = Some l \<Longrightarrow> l \<noteq> []"
  by (auto simp: request_location_def Let_def split: if_splits dest: nonempty_Some)

lemma cache_lookup_eq:
  "cm_lookup w k (wk_check_interval s \<le> 0) (wk_cache s) = (r, m) \<Longrightarrow> cache_lookup w k s = (r, s\<lparr>wk_cache := m\<rparr>)"
  by (simp add: cache_lookup_def)

text \<open>A debug context does not change what its block does when that does not look at the level.\<close>

lemma debug_request_out:
  assumes "\<And>s'. wk_cache s' = wk_cache s \<Longrightarrow> wk_check_interval s' = wk_check_interval s \<Longrightarrow>
     wk_force_etag s' = wk_force_etag s \<Longrightarrow> fst (body s') = out"
  shows "fst (debug_request d body s) = out"
  using assms [of s] assms [of "s\<lparr>wk_log_level := 10\<rparr>"] by (auto simp: debug_request_def split: prod.splits)

definition plain_request :: "request_message \<Rightarrow> qrequest \<Rightarrow> bool" where
  "plain_request rq q = (make_request rq = Inr q
     \<and> \<not> (od_get (rq_headers rq) ''X-Ogc-Scheme'' = Some ''OWS'' \<and> qr_method q = HeadMethod))"

lemma handle_message_lookup_error:
  assumes "plain_request rq q" and "request_location s (rq_headers rq) = Some loc"
    and "fst (cm_lookup w loc (wk_check_interval s \<le> 0) (wk_cache s)) = Inl e"
  shows "fst (handle_message w g mf rq s h) =
    (case project_error loc e of
       Some (code, msg) \<Rightarrow> (None, rs_h (sendError code msg (response_init h mf)))
     | None \<Rightarrow> (Some e, h))"
proof -
  have loc: "loc \<noteq> []" by (rule request_location_ne [OF assms(2)])
  let ?out = "case project_error loc e of Some (code, msg) \<Rightarrow> (None, sendError code msg (response_init h mf))
       | None \<Rightarrow> (Some e, response_init h mf)"
  have "fst (debug_request (od_get (rq_headers rq) ''X-Debug-Id'')
                 (message_body w g (od_get (rq_headers rq) ''X-Ogc-Scheme'') (Some loc)
                    (other_headers (rq_headers rq)) q (response_init h mf) (od_get (rq_headers rq) ''X-Request-Id'')) s) = ?out"
  proof (rule debug_request_out)
    fix s' :: worker assume "wk_cache s' = wk_cache s" "wk_check_interval s' = wk_check_interval s"
    with assms(3) have "fst (cache_lookup w loc s') = Inl e" by (auto simp: cache_lookup_def split: prod.splits)
    with assms(1) loc show "fst (message_body w g (od_get (rq_headers rq) ''X-Ogc-Scheme'') (Some loc)
                    (other_headers (rq_headers rq)) q (response_init h mf) (od_get (rq_headers rq) ''X-Request-Id'') s') = ?out"
      by (auto simp: message_body_def plain_request_def handle_qgis_request_def project_block_def
          split: prod.splits option.splits)
  qed
  with assms(1,2) show ?thesis
    by (auto simp: handle_message_def plain_request_def response_init_def split: prod.splits option.splits)
qed

lemma init_500:
  "h_payloads (snd (h_send ''Worker internal error'' False None ((zhandler_init cid corr (\<lambda>_. True))\<lparr>status_code := 500\<rparr>)))
     = [PReply 500 [] ''Worker internal error'' None]"
  by (simp add: h_send_def h_write_def zhandler_init_def h_payloads_def)

lemma init_sendError:
  "h_payloads (rs_h (sendError code msg (response_init (zhandler_init cid corr (\<lambda>_. True)) mf))) = [PReply code [] msg None]"
  by (simp add: sendError_def response_init_def h_send_def h_write_def zhandler_init_def h_payloads_def)

lemma init_unwritten: "\<not> header_written (zhandler_init cid corr up)"
  by (simp add: zhandler_init_def)

section \<open>Properties\<close>

text \<open>
  Project errors. A request (other than an OWS HEAD) whose project lookup raises is answered
  without QGIS, in one message: with 422, 403 or 404 and the reason for the four exceptions the
  handler knows, and the worker goes on; with 500 for every other exception, and then the worker
  leaves its loop. An unreadable project file, a bad URL or a bad port are of the second kind.
\<close>
theorem project_errors:
  assumes "plain_request rq q" and "request_location s (rq_headers rq) = Some loc"
    and "fst (cm_lookup w loc (wk_check_interval s \<le> 0) (wk_cache s)) = Inl e" and "e \<noteq> OtherError ''ZMQError''"
  shows "let (go, h) = serve_request (\<lambda>rq h. fst (handle_message w g mf rq s h)) (zhandler_init cid corr (\<lambda>_. True)) rq
    in (case project_error loc e of
          Some (code, msg) \<Rightarrow> go \<and> h_payloads h = [PReply code [] msg None]
        | None \<Rightarrow> \<not> go \<and> h_payloads h = [PReply 500 [] ''Worker internal error'' None])"
proof (cases "project_error loc e")
  case None
  then have "fst (handle_message w g mf rq s (zhandler_init cid corr (\<lambda>_. True))) = (Some e, zhandler_init cid corr (\<lambda>_. True))"
    using handle_message_lookup_error [OF assms(1,2,3)] by simp
  with None assms(4) show ?thesis by (simp add: serve_request_def init_unwritten init_500)
next
  case (Some cm)
  obtain code msg where cm: "cm = (code, msg)" by (cases cm)
  from handle_message_lookup_error [OF assms(1,2,3)] Some cm show ?thesis
    by (simp add: serve_request_def init_sendError)
qed

definition idle_qgis :: qgis where
  "idle_qgis = \<lparr>qg_parameter = (\<lambda>q k. if k = ''REQUEST'' then ''GetCapabilities'' else if k = ''SERVICE'' then ''WMS'' else []),
     qg_write_exception = (\<lambda>msg code r. rs_write msg (setStatusCode code r)),
     qg_handle = (\<lambda>q p r. finish (rs_write ''map'' r)), qg_sha1 = (\<lambda>s. s), qg_iso = (\<lambda>t. ''now''), qg_iso_tz = (\<lambda>t. ''now'')\<rparr>"

definition sample_worker :: "bool \<Rightarrow> worker" where
  "sample_worker etag = \<lparr>wk_cache = sample_cm, wk_check_interval = 0, wk_last_check = 0, wk_force_etag = etag,
     wk_default_location = None, wk_log_level = 20, wk_removed = [], wk_config_path = None, wk_handled = []\<rparr>"

definition map_request :: "string \<Rightarrow> (string, string) odict \<Rightarrow> request_message" where
  "map_request meth hs = \<lparr>rq_query = ''?MAP=town'', rq_headers = (''X-Map-Location'', ''town'') # hs, rq_method = meth, rq_data = None\<rparr>"

definition broken_project :: env where
  "broken_project = (one_file ''/d/town.qgs'')\<lparr>qgis_read := (\<lambda>f fl. \<lparr>ro_ok = False, ro_project = sample_project f [], ro_bad_calls = []\<rparr>)\<rparr>"

lemma project_errors_witness:
  "h_payloads (snd (serve_request (\<lambda>rq h. fst (handle_message (one_file ''/other'') idle_qgis None rq (sample_worker False) h))
       (zhandler_init ''c'' ''1'' (\<lambda>_. True)) (map_request ''GET'' [])))
     = [PReply 404 [] (not_found_msg ''town'') None]
   \<and> \<not> fst (serve_request (\<lambda>rq h. fst (handle_message broken_project idle_qgis None rq (sample_worker False) h))
       (zhandler_init ''c'' ''1'' (\<lambda>_. True)) (map_request ''GET'' []))"
proof -
  have pl: "plain_request (map_request ''GET'' []) \<lparr>qr_url = ''?MAP=town'', qr_method = GetMethod,
      qr_headers = [(''X-Map-Location'', ''town'')], qr_data = None\<rparr>" by code_simp
  have loc: "request_location (sample_worker False) (rq_headers (map_request ''GET'' [])) = Some ''town''" by code_simp
  have e1: "fst (cm_lookup (one_file ''/other'') ''town'' (wk_check_interval (sample_worker False) \<le> 0) (wk_cache (sample_worker False)))
      = Inl FileNotFoundError" by code_simp
  have e2: "fst (cm_lookup broken_project ''town'' (wk_check_interval (sample_worker False) \<le> 0) (wk_cache (sample_worker False)))
      = Inl RuntimeError" by code_simp
  from project_errors [OF pl loc e1, of idle_qgis None "''c''" "''1''"]
    project_errors [OF pl loc e2, of idle_qgis None "''c''" "''1''"]
  show ?thesis by (simp add: project_error_def split: prod.splits)
qed

text \<open>
  Requests that end a worker. A method that the table of QGIS methods does not have (OPTIONS is
  one that the front end sends on), and an OWS HEAD request whose modification date cannot be had (a
  project that does not exist, a path that is not allowed), raise outside every handler: the answer is 500 and
  the worker leaves its loop, whatever its state.
\<close>
theorem requests_ending_worker:
  assumes "(make_request rq = Inl e \<and> s' = s) \<or>
    (\<exists>q loc. make_request rq = Inr q \<and> qr_method q = HeadMethod \<and> od_get (rq_headers rq) ''X-Ogc-Scheme'' = Some ''OWS''
       \<and> request_location s (rq_headers rq) = Some loc \<and> od_get (rq_headers rq) ''X-Debug-Id'' = None
       \<and> wk_modified_time w loc False s = (Inl e, s') \<and> e \<noteq> OtherError ''ZMQError'')"
  shows "let (go, h) = serve_request (\<lambda>rq h. fst (handle_message w g mf rq s h)) (zhandler_init cid corr (\<lambda>_. True)) rq
    in \<not> go \<and> h_payloads h = [PReply 500 [] ''Worker internal error'' None]"
proof -
  have "e \<noteq> OtherError ''ZMQError'' \<and> fst (handle_message w g mf rq s (zhandler_init cid corr (\<lambda>_. True)))
      = (Some e, zhandler_init cid corr (\<lambda>_. True))"
    using assms
  proof
    assume "make_request rq = Inl e \<and> s' = s"
    then show ?thesis by (auto simp: handle_message_def make_request_def Let_def split: option.splits)
  next
    assume "\<exists>q loc. make_request rq = Inr q \<and> qr_method q = HeadMethod \<and> od_get (rq_headers rq) ''X-Ogc-Scheme'' = Some ''OWS''
       \<and> request_location s (rq_headers rq) = Some loc \<and> od_get (rq_headers rq) ''X-Debug-Id'' = None
       \<and> wk_modified_time w loc False s = (Inl e, s') \<and> e \<noteq> OtherError ''ZMQError''"
    then show ?thesis
      by (auto simp: handle_message_def debug_request_def message_body_def response_init_def)
  qed
  then show ?thesis by (simp add: serve_request_def init_unwritten init_500)
qed

lemma requests_ending_worker_witness:
  "\<not> fst (serve_request (\<lambda>rq h. fst (handle_message (one_file ''/other'') idle_qgis None rq (sample_worker False) h))
       (zhandler_init ''c'' ''1'' (\<lambda>_. True)) (map_request ''OPTIONS'' []))
   \<and> \<not> fst (serve_request (\<lambda>rq h. fst (handle_message (one_file ''/other'') idle_qgis None rq (sample_worker False) h))
       (zhandler_init ''c'' ''1'' (\<lambda>_. True)) (map_request ''HEAD'' [(''X-Ogc-Scheme'', ''OWS'')]))"
proof -
  have o: "make_request (map_request ''OPTIONS'' []) = Inl KeyError" by code_simp
  let ?q = "\<lparr>qr_url = ''?MAP=town'', qr_method = HeadMethod,
      qr_headers = [(''X-Map-Location'', ''town''), (''X-Ogc-Scheme'', ''OWS'')], qr_data = None\<rparr>"
  have h: "make_request (map_request ''HEAD'' [(''X-Ogc-Scheme'', ''OWS'')]) = Inr ?q" by code_simp
  have l: "request_location (sample_worker False) (rq_headers (map_request ''HEAD'' [(''X-Ogc-Scheme'', ''OWS'')])) = Some ''town''"
    "od_get (rq_headers (map_request ''HEAD'' [(''X-Ogc-Scheme'', ''OWS'')])) ''X-Ogc-Scheme'' = Some ''OWS''"
    "od_get (rq_headers (map_request ''HEAD'' [(''X-Ogc-Scheme'', ''OWS'')])) ''X-Debug-Id'' = None" by code_simp+
  obtain r s' where m: "wk_modified_time (one_file ''/other'') ''town'' False (sample_worker False) = (r, s')" by fastforce
  have "fst (wk_modified_time (one_file ''/other'') ''town'' False (sample_worker False)) = Inl FileNotFoundError" by code_simp
  with m have "wk_modified_time (one_file ''/other'') ''town'' False (sample_worker False) = (Inl FileNotFoundError, s')" by simp
  with h l requests_ending_worker [of "map_request ''HEAD'' [(''X-Ogc-Scheme'', ''OWS'')]" FileNotFoundError s' "sample_worker False"
      "one_file ''/other''" idle_qgis None "''c''" "''1''"]
    requests_ending_worker [of "map_request ''OPTIONS'' []" KeyError "sample_worker False" "sample_worker False"
      "one_file ''/other''" idle_qgis None "''c''" "''1''"] o
  show ?thesis by (auto split: prod.splits)
qed

section \<open>Served projects\<close>

text \<open>A lookup that returns leaves what it returns in the LRU cache.\<close>

lemma lookup_cached:
  assumes "cm_wf m" and "cm_lookup w k ref m = (Inr (p, st), m')"
  shows "\<exists>t. lru_peek k (cm_lru m') = Some (p, t)"
proof -
  have wf: "lru_wf (cm_lru m)" using assms(1) by (simp add: cm_wf_def)
  consider "\<not> ref \<and> lru_peek k (cm_lru m) \<noteq> None" | "\<not> ref \<and> lru_peek k (cm_lru m) = None \<and> od_get (cm_static m) k \<noteq> None"
    | "ref \<or> (lru_peek k (cm_lru m) = None \<and> od_get (cm_static m) k = None)"
    by (cases ref; cases "lru_peek k (cm_lru m)"; cases "od_get (cm_static m) k") auto
  then show ?thesis
  proof cases
    case 1
    with assms(2) show ?thesis by (auto simp: cm_lookup_def cm_peek_def)
  next
    case 2
    with assms(2) show ?thesis
      using lru.get_put_same [OF wf] by (auto simp: cm_lookup_def cm_peek_def cm_insert_eq [OF assms(1)])
  next
    case 3
    with assms(2) obtain m1 d where u: "update_entry w k m = (Inr st, m1)" and g: "cm_getitem k m1 = (Inr d, m')" "p = fst d"
      by (cases ref) (auto simp: cm_lookup_def cm_peek_def split: option.splits)
    have wf1: "cm_wf m1" by (rule update_entry_wf [OF assms(1) u])
    obtain c where c: "lru_peek k (cm_lru m1) = Some d" "m' = m1\<lparr>cm_lru := c\<rparr>" "lru_wf c"
        "lru_items c = rl_touch k (lru_items (cm_lru m1))"
      using cm_getitem_ok [OF wf1 g(1)] by blast
    have "map_of (lru_items (cm_lru m1)) k = Some d"
      using c(1) wf1 by (simp add: cm_wf_def lru_peek_items)
    with c(3,4) have "lru_peek k c = Some d" by (simp add: lru_peek_items rl_touch_def)
    with c(2) g(2) show ?thesis by (cases d) auto
  qed
qed

definition validator_matches :: "qgis \<Rightarrow> worker \<Rightarrow> (string, string) odict \<Rightarrow> string \<Rightarrow> int \<Rightarrow> qrequest \<Rightarrow> bool" where
  "validator_matches g s hs loc t q = (case compute_etag g s loc t q of None \<Rightarrow> False
     | Some e \<Rightarrow> od_get hs ''If-None-Match'' = Some ''*'' \<or> od_get hs ''If-None-Match'' = Some e)"

text \<open>The response as the project block prepares it.\<close>

definition project_headers :: "qgis \<Rightarrow> string \<Rightarrow> int \<Rightarrow> string option \<Rightarrow> response \<Rightarrow> response" where
  "project_headers g loc t rid r =
     (let r2 = setExtraHeader ''Last-Modified'' (HStr (qg_iso_tz g t)) (setExtraHeader ''X-Map-Id'' (HStr loc) r)
      in case rid of Some i \<Rightarrow> if i \<noteq> [] then setExtraHeader ''X-Request-Id'' (HStr i) r2 else r2 | None \<Rightarrow> r2)"

lemma check_etag_cases:
  "check_etag_header g s hs loc t q r = (validator_matches g s hs loc t q,
     case compute_etag g s loc t q of None \<Rightarrow> r | Some e \<Rightarrow> setExtraHeader ''Etag'' (HStr e) r)"
  if "\<And>e. compute_etag g s loc t q = Some e \<Longrightarrow> e \<noteq> []"
  using that by (auto simp: check_etag_header_def set_etag_header_def validator_matches_def Let_def split: option.splits)

lemma compute_etag_ne: "compute_etag g s loc t q = Some e \<Longrightarrow> e \<noteq> []"
  by (auto simp: compute_etag_def split: if_splits)

lemma compute_etag_cong:
  "cm_opts (wk_cache s1) = cm_opts (wk_cache s2) \<Longrightarrow> wk_force_etag s1 = wk_force_etag s2 \<Longrightarrow>
     compute_etag g s1 = compute_etag g s2"
  by (intro ext) (simp add: compute_etag_def)

text \<open>The worker after a successful lookup, and the response with its validator.\<close>

definition after_lookup :: "qproject \<Rightarrow> update_state \<Rightarrow> cache_manager \<Rightarrow> worker \<Rightarrow> worker" where
  "after_lookup p st m' s =
     s\<lparr>wk_cache := m', wk_removed := wk_removed s @ (if st = Unchanged then [] else [p_file p])\<rparr>"

definition with_etag :: "qgis \<Rightarrow> worker \<Rightarrow> string \<Rightarrow> int \<Rightarrow> qrequest \<Rightarrow> response \<Rightarrow> response" where
  "with_etag g s loc t q r = (case compute_etag g s loc t q of None \<Rightarrow> r | Some e \<Rightarrow> setExtraHeader ''Etag'' (HStr e) r)"

lemma project_block_ok:
  assumes "cm_wf (wk_cache s)" and "cm_lookup w loc (wk_check_interval s \<le> 0) (wk_cache s) = (Inr (p, st), m')"
    and "s1 = after_lookup p st m' s"
  shows "\<exists>t. lru_peek loc (cm_lru m') = Some (p, t) \<and>
     project_block w g scheme loc hs q r rid s =
        (if scheme = Some ''OWS'' then
           (if validator_matches g s1 hs loc (drop_us t) q
            then (case finish (setStatusCode 304 (with_etag g s1 loc (drop_us t) q (project_headers g loc (drop_us t) rid r))) of
                    (Some e, r5) \<Rightarrow> (Inl e, r5, s1) | (None, r5) \<Rightarrow> (Inr None, r5, s1))
            else (Inr (Some p), with_etag g s1 loc (drop_us t) q (project_headers g loc (drop_us t) rid r), s1))
         else (Inr (Some p), project_headers g loc (drop_us t) rid r, s1))"
proof -
  obtain t where t: "lru_peek loc (cm_lru m') = Some (p, t)" using lookup_cached [OF assms(1,2)] by blast
  then have mt: "cm_modified_time w loc True m' = (Inr (drop_us t), m')" by (simp add: cm_modified_time_def cm_peek_def)
  define r1 where "r1 = project_headers g loc (drop_us t) rid r"
  have l: "cache_lookup w loc s = (Inr (p, st), s\<lparr>wk_cache := m'\<rparr>)" by (rule cache_lookup_eq [OF assms(2)])
  have s2: "(if st \<noteq> Unchanged then remove_config (p_file p) (s\<lparr>wk_cache := m'\<rparr>) else s\<lparr>wk_cache := m'\<rparr>) = s1"
    by (simp add: assms(3) after_lookup_def remove_config_def)
  have md: "wk_modified_time w loc True s1 = (Inr (drop_us t), s1)"
    by (simp add: wk_modified_time_def mt assms(3) after_lookup_def)
  have c: "check_etag_header g s1 hs loc (drop_us t) q r1 =
      (validator_matches g s1 hs loc (drop_us t) q, with_etag g s1 loc (drop_us t) q r1)"
    unfolding with_etag_def by (rule check_etag_cases) (rule compute_etag_ne)
  have "project_block w g scheme loc hs q r rid s = (if scheme = Some ''OWS'' then
                     (case check_etag_header g s1 hs loc (drop_us t) q r1 of
                        (True, r4) \<Rightarrow>
                          (case finish (setStatusCode 304 r4) of
                             (Some e, r5) \<Rightarrow> (Inl e, r5, s1) | (None, r5) \<Rightarrow> (Inr None, r5, s1))
                      | (False, r4) \<Rightarrow> (Inr (Some p), r4, s1))
                   else (Inr (Some p), r1, s1))"
    unfolding project_block_def l prod.case sum.case Let_def s2 md r1_def project_headers_def by (rule refl)
  note pb = this [unfolded c prod.case]
  show ?thesis
    unfolding pb r1_def [symmetric] by (intro exI [of _ t] conjI t) (cases "validator_matches g s1 hs loc (drop_us t) q"; simp add: r1_def)
qed

lemma handle_qgis_request_block:
  "loc \<noteq> [] \<Longrightarrow> project_block w g scheme loc hs q r rid s = (Inr (Some p), r1, s1) \<Longrightarrow>
     handle_qgis_request w g scheme (Some loc) hs q r rid s = handle_request g q (Some p) r1 (s1\<lparr>wk_config_path := Some (p_file p)\<rparr>)"
  "loc \<noteq> [] \<Longrightarrow> project_block w g scheme loc hs q r rid s = (Inr None, r1, s1) \<Longrightarrow>
     handle_qgis_request w g scheme (Some loc) hs q r rid s = ((None, r1), s1)"
  by (simp_all add: handle_qgis_request_def)

text \<open>A fresh response keeps the extra headers it is given, and its 304 goes out as one empty message.\<close>

definition fresh_response :: "response \<Rightarrow> bool" where
  "fresh_response r = (\<not> header_written (rs_h r) \<and> buf r = [] \<and> sent (rs_h r) = [] \<and> calm r \<and> \<not> fin r \<and> statusCode r = 200)"

lemma fresh_headers:
  "fresh_response r \<Longrightarrow> fresh_response (setExtraHeader k v r)"
  "fresh_response r \<Longrightarrow> od_get (rs_headers (setExtraHeader k v r)) j = (if j = k then Some v else od_get (rs_headers r) j)"
  by (auto simp: fresh_response_def setExtraHeader_def setHeader_def calm_def rs_headers_def get_metadata_def statusCode_def)

lemma fresh_project_headers:
  assumes "fresh_response r"
  shows "fresh_response (project_headers g loc t rid r)"
    and "od_get (rs_headers (project_headers g loc t rid r)) ''X-Map-Id'' = Some (HStr loc)"
    and "fresh_response (with_etag g s loc t q (project_headers g loc t rid r))"
    and "od_get (rs_headers (with_etag g s loc t q (project_headers g loc t rid r))) ''X-Map-Id'' = Some (HStr loc)"
    and "compute_etag g s loc t q = Some e \<Longrightarrow>
       od_get (rs_headers (with_etag g s loc t q (project_headers g loc t rid r))) ''Etag'' = Some (HStr e)"
  using assms by (auto simp: project_headers_def with_etag_def Let_def fresh_headers split: option.splits)

lemma fresh_304:
  assumes "fresh_response r"
  shows "\<exists>r5. finish (setStatusCode 304 r) = (None, r5) \<and> h_payloads (rs_h r5) = [PReply 304 (rs_headers r) [] (meta_of r)]"
  using assms by (simp add: fresh_response_def finish_def flush_def flush_body_def setStatusCode_def rs_send_def h_send_def
      h_write_def calm_meta calm_up Let_def h_payloads_def rs_headers_def)

text \<open>
  Served projects. When the lookup of a request's project succeeds and the client sends no
  validator (the front end then sends an empty one), QGIS is called exactly once, with the project that is now in the LRU cache under
  the request's key, its path as configuration path, and a response that carries the key in
  \<open>X-Map-Id\<close>; the configuration cache of the file was dropped before if the lookup reported
  any change.
\<close>
theorem project_served:
  assumes "cm_wf (wk_cache s)" and "loc \<noteq> []" and "fresh_response r"
    and "cm_lookup w loc (wk_check_interval s \<le> 0) (wk_cache s) = (Inr (p, st), m')"
    and "scheme = Some ''OWS'' \<Longrightarrow> od_get hs ''If-None-Match'' \<in> {None, Some []}"
  shows "\<exists>t r1. lru_peek loc (cm_lru m') = Some (p, t)
    \<and> handle_qgis_request w g scheme (Some loc) hs q r rid s
      = (qg_handle g q (Some p) r1, (after_lookup p st m' s)\<lparr>wk_config_path := Some (p_file p), wk_handled := wk_handled s @ [(q, Some p)]\<rparr>)
    \<and> fresh_response r1 \<and> od_get (rs_headers r1) ''X-Map-Id'' = Some (HStr loc)"
proof -
  obtain t where t: "lru_peek loc (cm_lru m') = Some (p, t)" and
    pb: "project_block w g scheme loc hs q r rid s =
        (if scheme = Some ''OWS'' then
           (if validator_matches g (after_lookup p st m' s) hs loc (drop_us t) q
            then (case finish (setStatusCode 304 (with_etag g (after_lookup p st m' s) loc (drop_us t) q (project_headers g loc (drop_us t) rid r))) of
                    (Some e, r5) \<Rightarrow> (Inl e, r5, after_lookup p st m' s) | (None, r5) \<Rightarrow> (Inr None, r5, after_lookup p st m' s))
            else (Inr (Some p), with_etag g (after_lookup p st m' s) loc (drop_us t) q (project_headers g loc (drop_us t) rid r), after_lookup p st m' s))
         else (Inr (Some p), project_headers g loc (drop_us t) rid r, after_lookup p st m' s))"
    using project_block_ok [OF assms(1,4) refl, of g scheme hs q r rid] by blast
  have "\<not> validator_matches g (after_lookup p st m' s) hs loc (drop_us t) q" if "scheme = Some ''OWS''"
    using assms(5) [OF that] by (auto simp: validator_matches_def split: option.splits dest: compute_etag_ne)
  with pb obtain r1 where "project_block w g scheme loc hs q r rid s = (Inr (Some p), r1, after_lookup p st m' s)"
    "r1 = project_headers g loc (drop_us t) rid r \<or> r1 = with_etag g (after_lookup p st m' s) loc (drop_us t) q (project_headers g loc (drop_us t) rid r)"
    by (cases "scheme = Some ''OWS''") auto
  with t fresh_project_headers [OF assms(3)] show ?thesis
    by (intro exI [of _ t] exI [of _ r1])
      (auto simp: handle_qgis_request_block(1) [OF assms(2)] handle_request_def after_lookup_def)
qed

definition fresh_sample :: response where
  "fresh_sample = response_init (zhandler_init ''c'' ''1'' (\<lambda>_. True)) None"

lemma fresh_sample_ok: "fresh_response fresh_sample"
  by (simp add: fresh_response_def fresh_sample_def response_init_def zhandler_init_def calm_def get_metadata_def statusCode_def)

definition sample_query :: qrequest where
  "sample_query = \<lparr>qr_url = ''?MAP=town'', qr_method = GetMethod, qr_headers = [], qr_data = None\<rparr>"

lemma sample_worker_wf: "cm_wf (wk_cache (sample_worker b))"
  by (simp add: sample_worker_def cm_wf_def lru_wf_def sample_cm_def)

lemma sample_lookup:
  "\<exists>m'. cm_lookup env_town ''town'' (wk_check_interval (sample_worker b) \<le> 0) (wk_cache (sample_worker b))
     = (Inr (prepare_project strict_options (sample_project ''/d/town.qgs'' []), Inserted), m')"
proof -
  have "fst (cm_lookup env_town ''town'' True sample_cm) = Inr (prepare_project strict_options (sample_project ''/d/town.qgs'' []), Inserted)"
    by code_simp
  then show ?thesis by (simp add: sample_worker_def) (metis prod.collapse)
qed

lemma project_served_witness:
  "\<exists>p. wk_handled (snd (handle_qgis_request env_town idle_qgis (Some ''OWS'') (Some ''town'') [] sample_query fresh_sample None (sample_worker True)))
      = [(sample_query, Some p)] \<and> p_file p = ''/d/town.qgs''"
proof -
  obtain m' where l: "cm_lookup env_town ''town'' (wk_check_interval (sample_worker True) \<le> 0) (wk_cache (sample_worker True))
     = (Inr (prepare_project strict_options (sample_project ''/d/town.qgs'' []), Inserted), m')" using sample_lookup by blast
  have "wk_handled (sample_worker True) = []" by (simp add: sample_worker_def)
  with project_served [OF sample_worker_wf _ fresh_sample_ok l, of "Some ''OWS''" "[]" idle_qgis sample_query None] show ?thesis
    by (auto simp: prepare_project_other sample_project_def)
qed

text \<open>
  Validators. For an OWS request whose validator matches the current one (the tag itself or a
  star), the answer is one empty message with status 304 and the tag, and QGIS is not called; the
  lookup, and the dropping of stale configuration it asks for, have taken place.
\<close>
lemma not_modified:
  assumes "cm_wf (wk_cache s)" and "loc \<noteq> []" and "fresh_response r"
    and "cm_lookup w loc (wk_check_interval s \<le> 0) (wk_cache s) = (Inr (p, st), m')"
    and "lru_peek loc (cm_lru m') = Some (p, t)"
    and "compute_etag g (after_lookup p st m' s) loc (drop_us t) q = Some e"
    and "od_get hs ''If-None-Match'' = Some ''*'' \<or> od_get hs ''If-None-Match'' = Some e"
  shows "\<exists>r5 hds. handle_qgis_request w g (Some ''OWS'') (Some loc) hs q r rid s = ((None, r5), after_lookup p st m' s)
    \<and> h_payloads (rs_h r5) = [PReply 304 hds [] (meta_of r5)] \<and> od_get hds ''Etag'' = Some (HStr e)"
proof -
  let ?s1 = "after_lookup p st m' s"
  have v: "validator_matches g ?s1 hs loc (drop_us t) q" using assms(6,7) by (simp add: validator_matches_def)
  define r2 where "r2 = with_etag g ?s1 loc (drop_us t) q (project_headers g loc (drop_us t) rid r)"
  have fr: "fresh_response r2" "od_get (rs_headers r2) ''Etag'' = Some (HStr e)"
    using fresh_project_headers(3,5) [OF assms(3)] assms(6) by (simp_all add: r2_def)
  obtain r5 where r5: "finish (setStatusCode 304 r2) = (None, r5)" "h_payloads (rs_h r5) = [PReply 304 (rs_headers r2) [] (meta_of r2)]"
    using fresh_304 [OF fr(1)] by blast
  have "meta_of r5 = meta_of r2"
    using r5(1) fr(1) by (auto simp: fresh_response_def finish_def flush_def flush_body_def setStatusCode_def rs_send_def h_send_def
      h_write_def calm_meta calm_up Let_def split: if_splits prod.splits)
  moreover have "project_block w g (Some ''OWS'') loc hs q r rid s = (Inr None, r5, ?s1)"
    using project_block_ok [OF assms(1,4) refl, of g "Some ''OWS''" hs q r rid] assms(5) v r5(1) by (auto simp: r2_def)
  ultimately show ?thesis
    using handle_qgis_request_block(2) [OF assms(2)] r5(2) fr(2) by (intro exI [of _ r5] exI [of _ "rs_headers r2"]) simp
qed

section \<open>Refreshing between requests\<close>

lemma refresh_loop_entries:
  "refresh_loop w ks s = (r, s') \<Longrightarrow> refresh_entries w ks (wk_cache s) = (e, out, m') \<Longrightarrow> e \<noteq> None \<Longrightarrow> r \<noteq> None"
proof (induction ks arbitrary: s e out)
  case (Cons k ks)
  obtain x m1 where u: "update_entry w k (wk_cache s) = (x, m1)" by fastforce
  show ?case
  proof (cases x)
    case (Inr st)
    with Cons.prems(2) u obtain out2 where e: "refresh_entries w ks m1 = (e, out2, m')" by (auto split: prod.splits)
    show ?thesis
    proof (cases "st = Updated")
      case False
      with Cons.prems(1) u Inr have "refresh_loop w ks (s\<lparr>wk_cache := m1\<rparr>) = (r, s')" by (simp add: Let_def)
      with Cons.IH [of "s\<lparr>wk_cache := m1\<rparr>" e out2] e Cons.prems(3) show ?thesis by simp
    next
      case True
      show ?thesis
      proof (cases "cm_peek k None m1")
        case (Some d)
        let ?s2 = "remove_config (p_file (fst d)) (s\<lparr>wk_cache := m1\<rparr>)"
        have "refresh_loop w ks ?s2 = (r, s')" using Cons.prems(1) u Inr True Some by (simp add: Let_def)
        with Cons.IH [of ?s2 e out2] e Cons.prems(3) show ?thesis by (simp add: remove_config_def)
      qed (use Cons.prems(1) u Inr True in \<open>auto simp: Let_def\<close>)
    qed
  qed (use Cons.prems(1) u in auto)
qed simp

lemma refresh_loop_last: "refresh_loop w ks s0 = (r, s1) \<Longrightarrow>
    wk_last_check s1 = wk_last_check s0 \<and> wk_check_interval s1 = wk_check_interval s0"
proof (induction ks arbitrary: s0)
  case (Cons k ks)
  then show ?case
    by (auto simp: remove_config_def Let_def split: prod.splits sum.splits option.splits if_splits)
qed simp

text \<open>
   Periodic refresh. When a refresh is due and one entry cannot be updated, the date of the last
  check does not move: the refresh is due again after every following request, however long the
  configured interval.
\<close>
theorem failed_refresh_due_again:
  assumes "0 < wk_check_interval s" and "wk_check_interval s \<le> now - wk_last_check s"
    and "refresh w (wk_cache s) = (Inr ks, m)" and "refresh_entries w ks m = (Some e, out, m')"
  shows "\<exists>x s1. refresh_cache w now later s = (Some x, s1)
    \<and> (\<forall>d. wk_check_interval s1 \<le> (now + int d) - wk_last_check s1)"
proof -
  obtain r s1 where l: "refresh_loop w ks (s\<lparr>wk_cache := m\<rparr>) = (r, s1)" by fastforce
  then have "r \<noteq> None" using refresh_loop_entries [OF l] assms(4) by simp
  with assms l refresh_loop_last [OF l] show ?thesis by (auto simp: refresh_cache_def)
qed

definition refreshing_worker :: worker where
  "refreshing_worker = (sample_worker False)\<lparr>wk_cache := filled_cm, wk_check_interval := 10\<rparr>"

lemma failed_refresh_due_again_witness:
  "\<exists>x s1. refresh_cache new_only 100 101 refreshing_worker = (Some x, s1) \<and> 10 \<le> 100 + int 3 - wk_last_check s1"
proof -
  have i: "0 < wk_check_interval refreshing_worker" "wk_check_interval refreshing_worker \<le> 100 - wk_last_check refreshing_worker"
    by (simp_all add: refreshing_worker_def sample_worker_def)
  have r: "refresh new_only (wk_cache refreshing_worker) = (Inr [''old'', ''new''], filled_cm)"
    by (simp add: refresh_def cm_items_def refreshing_worker_def filled_cm_def sample_cm_def lru_items_def)
  define x where "x = refresh_entries new_only [''old'', ''new''] filled_cm"
  have "fst x = Some FileNotFoundError" unfolding x_def by code_simp
  then have e: "refresh_entries new_only [''old'', ''new''] filled_cm = (Some FileNotFoundError, fst (snd x), snd (snd x))"
    by (simp add: x_def prod_eq_iff)
  obtain y s1 where s1: "refresh_cache new_only 100 101 refreshing_worker = (Some y, s1)"
      "wk_check_interval s1 \<le> 100 + int 3 - wk_last_check s1"
    using failed_refresh_due_again [OF i r e, of 101] by blast
  obtain z s2 where "refresh_loop new_only [''old'', ''new''] (refreshing_worker\<lparr>wk_cache := filled_cm\<rparr>) = (z, s2)" by fastforce
  with refresh_loop_last [OF this] s1(1) i r have "wk_check_interval s1 = 10"
    by (auto simp: refresh_cache_def refreshing_worker_def split: option.splits)
  with s1 show ?thesis by simp
qed

section \<open>The log level\<close>

lemma cache_level:
  "cache_lookup w k s = (r, s') \<Longrightarrow> wk_log_level s' = wk_log_level s"
  "wk_modified_time w k b s = (t, s') \<Longrightarrow> wk_log_level s' = wk_log_level s"
  by (auto simp: cache_lookup_def wk_modified_time_def split: prod.splits)

lemma project_block_level:
  "project_block w g scheme l hs q r rid s = (x, r', s') \<Longrightarrow> wk_log_level s' = wk_log_level s"
proof -
  assume pb: "project_block w g scheme l hs q r rid s = (x, r', s')"
  obtain y s1 where l: "cache_lookup w l s = (y, s1)" by fastforce
  show ?thesis
  proof (cases y)
    case (Inr ps)
    obtain p st where ps: "ps = (p, st)" by (cases ps)
    let ?s2 = "if st \<noteq> Unchanged then remove_config (p_file p) s1 else s1"
    obtain t s3 where m: "wk_modified_time w l True ?s2 = (t, s3)" by fastforce
    have "wk_log_level s3 = wk_log_level s"
      using cache_level(1) [OF l] cache_level(2) [OF m] by (simp add: remove_config_def split: if_splits)
    moreover have "s' = s3"
      using pb l Inr ps m by (cases t) (auto simp: project_block_def Let_def split: prod.splits option.splits bool.splits if_splits)
    ultimately show ?thesis by simp
  qed (use pb l cache_level(1) [OF l] in \<open>simp add: project_block_def\<close>)
qed

lemma qgis_request_level: "wk_log_level (snd (handle_qgis_request w g scheme loc hs q r rid s)) = wk_log_level s"
proof (cases loc)
  case (Some l)
  obtain x r1 s1 where b: "project_block w g scheme l hs q r rid s = (x, r1, s1)" by (metis prod_cases3)
  from project_block_level [OF b] b Some show ?thesis
    by (cases x) (auto simp: handle_qgis_request_def handle_request_def split: option.splits)
qed (simp add: handle_qgis_request_def handle_request_def)

lemma message_body_level: "wk_log_level (snd (message_body w g scheme loc hs q r rid s)) = wk_log_level s"
proof (cases loc)
  case (Some l)
  obtain t s1 where m: "wk_modified_time w l False s = (t, s1)" by fastforce
  from cache_level(2) [OF m] m Some qgis_request_level show ?thesis
    by (cases t) (auto simp: message_body_def split: bool.splits)
qed (auto simp: message_body_def qgis_request_level split: bool.splits)

text \<open>
   The debug header. Whatever a request does, error or not, the level of the logger is what it
  was before, also when the header asked for debug messages while the request was handled.
\<close>
theorem debug_level_restored: "wk_log_level (snd (handle_message w g mf rq s h)) = wk_log_level s"
proof (cases "make_request rq")
  case (Inr q)
  let ?b = "message_body w g (od_get (rq_headers rq) ''X-Ogc-Scheme'') (request_location s (rq_headers rq))
     (other_headers (rq_headers rq)) q (response_init h mf) (od_get (rq_headers rq) ''X-Request-Id'')"
  have "wk_log_level (snd (debug_request d ?b s)) = wk_log_level s" for d
    using message_body_level by (auto simp: debug_request_def split: prod.splits)
  with Inr show ?thesis by (simp add: handle_message_def case_prod_unfold Let_def)
qed (simp add: handle_message_def)

end
