(* ===== verification/PyLib.thy ===== *)
theory PyLib
  imports UrlLib
begin

text \<open>
  More of the Python standard library that the program calls: decimal integers (\<open>str(n)\<close>,
  \<open>int(s)\<close>), \<open>os.path.normpath\<close>, and percent-encoding (\<open>quote\<close>,
  \<open>quote_plus\<close>, \<open>urlencode\<close>) with its round trips against the decoders of UrlLib, and what is UTF-8.
\<close>

section \<open>Decimal integers\<close>

fun nat_str :: "nat \<Rightarrow> string" where
  "nat_str n = (if n < 10 then [char_of (48 + n)] else nat_str (n div 10) @ [char_of (48 + n mod 10)])"

declare nat_str.simps [simp del]

definition int_str :: "int \<Rightarrow> string" where
  "int_str i = (if i < 0 then CHR ''-'' # nat_str (nat (- i)) else nat_str (nat i))"

text \<open>\<open>int(s)\<close>: white space around, one sign, digits with single underscores between them.\<close>

definition digit_groups :: "string \<Rightarrow> int result" where
  "digit_groups s =
     (let gs = split_on CHR ''_'' s
      in if list_all (\<lambda>g. g \<noteq> [] \<and> list_all is_digit g) gs then Inr (digits_val (concat gs)) else Inl ValueError)"

definition py_int :: "string \<Rightarrow> int result" where
  "py_int s = (case py_strip s of
      [] \<Rightarrow> Inl ValueError
    | c # ds \<Rightarrow> if c = CHR ''-'' then rbind (digit_groups ds) (\<lambda>n. Inr (- n))
               else if c = CHR ''+'' then digit_groups ds
               else digit_groups (c # ds))"

lemma of_char_digit: "(n::nat) < 10 \<Longrightarrow> (of_char (char_of (48 + n)) :: nat) = 48 + n"
  by simp

lemma is_digit_char: "(n::nat) < 10 \<Longrightarrow> is_digit (char_of (48 + n))"
  by (simp add: is_digit_def Let_def)

lemma digits_val_snoc: "digits_val (s @ [c]) = 10 * digits_val s + (int (of_char c) - 48)"
  by (simp add: digits_val_def)

lemma nat_str_ne [simp]: "nat_str n \<noteq> []"
  by (subst nat_str.simps) simp

lemma nat_str_digits: "list_all is_digit (nat_str n)"
proof (induction n rule: nat_str.induct)
  case (1 n)
  then show ?case
    by (subst nat_str.simps) (auto simp: is_digit_char)
qed

lemma digits_val_single: "n < 10 \<Longrightarrow> digits_val [char_of (48 + n)] = int n"
  unfolding digits_val_def by simp

lemma digits_val_nat_str: "digits_val (nat_str n) = int n"
proof (induction n rule: nat_str.induct)
  case (1 n)
  show ?case
  proof (cases "n < 10")
    case True
    then show ?thesis by (subst nat_str.simps) (simp only: if_True digits_val_single)
  next
    case False
    have m: "n mod 10 < 10" by simp
    have "digits_val (nat_str n) = digits_val (nat_str (n div 10) @ [char_of (48 + n mod 10)])"
      by (subst nat_str.simps) (simp only: False if_False)
    also have "\<dots> = 10 * int (n div 10) + int (n mod 10)"
      using 1 [OF False] of_char_digit [OF m] by (simp only: digits_val_snoc)
    also have "\<dots> = int n" by (simp add: zmod_int zdiv_int)
    finally show ?thesis .
  qed
qed

lemma digit_not_special: "is_digit c \<Longrightarrow> c \<noteq> CHR ''-'' \<and> c \<noteq> CHR ''+'' \<and> c \<noteq> CHR ''_'' \<and> c \<notin> set py_space"
  by (auto simp: is_digit_def Let_def py_space_def)

lemma minus_not_space: "CHR ''-'' \<notin> set py_space"
  by code_simp

lemma strip_keeps:
  assumes "s \<noteq> []" "hd s \<notin> set cs" "last s \<notin> set cs"
  shows "strip_chars cs s = s"
proof -
  have r: "rstrip_chars cs s = s"
    using assms by (cases "rev s") (auto simp: rstrip_chars_def hd_rev rev_swap)
  show ?thesis
    unfolding strip_chars_def r using assms by (cases s) (auto simp: lstrip_chars_def)
qed

lemma digit_groups_digits: "s \<noteq> [] \<Longrightarrow> list_all is_digit s \<Longrightarrow> digit_groups s = Inr (digits_val s)"
proof -
  assume s: "s \<noteq> []" "list_all is_digit s"
  then have "CHR ''_'' \<notin> set s" using digit_not_special by (auto simp: list_all_iff)
  with s show ?thesis by (simp add: digit_groups_def split_on_single)
qed

text \<open>Reading what was printed gives the integer back.\<close>

lemma py_int_int_str [simp]: "py_int (int_str i) = Inr i"
proof -
  define ds where "ds = nat_str (nat \<bar>i\<bar>)"
  have d: "ds \<noteq> []" "list_all is_digit ds" "digits_val ds = \<bar>i\<bar>"
    by (simp_all add: ds_def nat_str_digits digits_val_nat_str)
  have h: "is_digit (hd ds)" "is_digit (last ds)"
    using d(1,2) by (auto simp: list_all_iff)
  have dg: "digit_groups ds = Inr \<bar>i\<bar>" using d by (simp add: digit_groups_digits)
  show ?thesis
  proof (cases "i < 0")
    case True
    have e: "int_str i = CHR ''-'' # ds" using True by (simp add: int_str_def ds_def)
    have "py_strip (int_str i) = CHR ''-'' # ds"
      unfolding py_strip_def e
      by (rule strip_keeps) (use d(1) digit_not_special [OF h(2)] minus_not_space in auto)
    with dg True show ?thesis by (simp add: py_int_def)
  next
    case False
    have e: "int_str i = ds" using False by (simp add: int_str_def ds_def)
    have s: "py_strip (int_str i) = ds"
      unfolding py_strip_def e
      by (rule strip_keeps) (use d(1) digit_not_special [OF h(1)] digit_not_special [OF h(2)] in auto)
    obtain c cs where c: "ds = c # cs" using d(1) by (cases ds) auto
    show ?thesis
      unfolding py_int_def s using c dg False digit_not_special [OF h(1)] by simp
  qed
qed

section \<open>Normal paths\<close>

text \<open>\<open>os.path.normpath\<close>: dot and parent parts are resolved lexically.\<close>

fun norm_comps :: "bool \<Rightarrow> string list \<Rightarrow> string list \<Rightarrow> string list" where
  "norm_comps rooted acc [] = acc"
| "norm_comps rooted acc (c # cs) =
     (if c = [] \<or> c = ''.'' then norm_comps rooted acc cs
      else if c \<noteq> ''..'' \<or> (\<not> rooted \<and> acc = []) \<or> (acc \<noteq> [] \<and> last acc = ''..'')
      then norm_comps rooted (acc @ [c]) cs
      else if acc \<noteq> [] then norm_comps rooted (butlast acc) cs
      else norm_comps rooted acc cs)"

definition normpath :: "string \<Rightarrow> string" where
  "normpath p =
     (if p = [] then ''.''
      else let root = (if starts_with ''//'' p \<and> \<not> starts_with ''///'' p then ''//''
                       else if starts_with ''/'' p then ''/'' else []);
               r = root @ join_with CHR ''/'' (norm_comps (root \<noteq> []) [] (split_on CHR ''/'' p))
           in if r = [] then ''.'' else r)"

definition isabs :: "string \<Rightarrow> bool" where
  "isabs p = starts_with ''/'' p"

section \<open>Percent-encoding\<close>

definition always_safe :: "char \<Rightarrow> bool" where
  "always_safe c = (is_alpha c \<or> is_digit c \<or> c \<in> {CHR ''_'', CHR ''.'', CHR ''-'', CHR ''~''})"

definition hex_digit :: "nat \<Rightarrow> char" where
  "hex_digit n = (if n < 10 then char_of (48 + n) else char_of (55 + n))"

definition pct :: "char \<Rightarrow> string" where
  "pct c = (let n = (of_char c :: nat) in [CHR ''%'', hex_digit (n div 16), hex_digit (n mod 16)])"

definition quote_plus :: "string \<Rightarrow> string" where
  "quote_plus s = concat (map (\<lambda>c. if always_safe c then [c] else if c = CHR '' '' then ''+'' else pct c) s)"

text \<open>The query that \<open>urlencode\<close> writes for a dictionary.\<close>

definition urlencode :: "(string \<times> string) list \<Rightarrow> string" where
  "urlencode kvs = join_with CHR ''&'' (map (\<lambda>(k, v). quote_plus k @ CHR ''='' # quote_plus v) kvs)"

lemma high_digit: "(of_char c :: nat) div 16 < 16"
proof -
  have "(of_char c :: nat) < 256" by (rule nat_of_char_less_256)
  then show ?thesis by (intro less_mult_imp_div_less) simp
qed

lemma hex_val_digit: "n < 16 \<Longrightarrow> hex_val (hex_digit n) = Some n"
  by (auto simp: hex_val_def hex_digit_def Let_def)

lemma unquote_other: "c \<noteq> CHR ''%'' \<Longrightarrow> unquote (c # s) = c # unquote s"
  by (cases s rule: unquote.cases) (auto split: option.splits)

lemma unquote_pct: "unquote (pct c @ s) = c # unquote s"
  using high_digit [of c] by (simp add: pct_def Let_def hex_val_digit)

text \<open>One encoded character, and the characters that an encoded text can contain.\<close>

definition enc1 :: "char \<Rightarrow> string" where
  "enc1 c = (if always_safe c then [c] else if c = CHR '' '' then ''+'' else pct c)"

lemma quote_plus_enc1: "quote_plus s = concat (map enc1 s)"
  by (simp add: quote_plus_def enc1_def [abs_def])

lemma hex_digit_safe: "n < 16 \<Longrightarrow> always_safe (hex_digit n)"
  by (auto simp: hex_digit_def always_safe_def is_alpha_def is_digit_def Let_def)

lemma safe_not_special: "always_safe c \<Longrightarrow> c \<notin> {CHR ''%'', CHR ''+'', CHR ''&'', CHR ''='', CHR '' '', CHR ''?'', CHR ''/''}"
  by (auto simp: always_safe_def is_alpha_def is_digit_def Let_def)

lemma set_enc1: "c \<in> set (enc1 x) \<Longrightarrow> always_safe c \<or> c = CHR ''%'' \<or> c = CHR ''+''"
proof -
  have "(of_char x :: nat) div 16 < 16" by (rule high_digit)
  moreover have "(of_char x :: nat) mod 16 < 16" by simp
  moreover assume "c \<in> set (enc1 x)"
  ultimately show ?thesis
    by (auto simp: enc1_def pct_def Let_def hex_digit_safe split: if_splits)
qed

lemma set_quote_plus: "c \<in> set (quote_plus s) \<Longrightarrow> c \<notin> {CHR ''&'', CHR ''=''}"
  using safe_not_special by (fastforce simp: quote_plus_enc1 dest: set_enc1)

lemma enc1_decode: "unquote (replace_char CHR ''+'' CHR '' '' (enc1 c) @ t) = c # unquote t"
proof (cases "always_safe c \<or> c = CHR '' ''")
  case True
  then show ?thesis
    using safe_not_special [of c] by (auto simp: enc1_def replace_char_def unquote_other)
next
  case False
  have "(of_char c :: nat) div 16 < 16" by (rule high_digit)
  then have "CHR ''+'' \<notin> set (pct c)"
    using safe_not_special [OF hex_digit_safe [of "of_char c div 16"]] safe_not_special [OF hex_digit_safe [of "of_char c mod 16"]]
    by (auto simp: pct_def Let_def)
  then have "replace_char CHR ''+'' CHR '' '' (pct c) = pct c"
    by (auto simp: replace_char_def intro!: map_idI)
  with False show ?thesis by (simp add: enc1_def unquote_pct)
qed

text \<open>Decoding what was encoded gives the text back.\<close>

lemma unquote_quote_plus [simp]: "unquote_plus (quote_plus s) = s"
proof (induction s)
  case (Cons c s)
  then show ?case
    using enc1_decode [of c "replace_char CHR ''+'' CHR '' '' (quote_plus s)"]
    by (simp add: unquote_plus_def quote_plus_enc1 replace_char_def)
qed (simp add: unquote_plus_def quote_plus_def replace_char_def)

lemma quote_plus_eq_Nil [simp]: "quote_plus s = [] \<longleftrightarrow> s = []"
  by (cases s) (auto simp: quote_plus_def pct_def Let_def)

text \<open>A query that was written from pairs is read back as those pairs, without the empty values.\<close>

lemma parse_urlencode: "kvs \<noteq> [] \<Longrightarrow> parse_qsl (urlencode kvs) = filter (\<lambda>(k, v). v \<noteq> []) kvs"
proof -
  assume "kvs \<noteq> []"
  then have s: "split_on CHR ''&'' (urlencode kvs) = map (\<lambda>(k, v). quote_plus k @ CHR ''='' # quote_plus v) kvs"
    unfolding urlencode_def by (intro split_join) (auto dest: set_quote_plus)
  have b: "before CHR ''='' (quote_plus k @ CHR ''='' # quote_plus v) = quote_plus k"
    and a: "after CHR ''='' (quote_plus k @ CHR ''='' # quote_plus v) = quote_plus v" for k v
    by (auto intro!: before_append_sep after_append_sep dest: set_quote_plus)
  show ?thesis
    unfolding parse_qsl_def s
    by (induction kvs) (auto simp: a b split: if_splits)
qed

section \<open>UTF-8\<close>

text \<open>
  What \<open>bytes.decode('utf-8')\<close> accepts: no stray or missing continuation, no overlong form, no
  surrogate and nothing above U+10FFFF. The first byte says how many bytes follow and in which range
  the first of them lies.
\<close>

definition utf8_byte :: "char \<Rightarrow> nat" where
  "utf8_byte c = of_char c"

definition utf8_cont :: "char \<Rightarrow> bool" where
  "utf8_cont c = (128 \<le> utf8_byte c \<and> utf8_byte c < 192)"

definition utf8_follow :: "nat \<Rightarrow> (nat \<times> nat \<times> nat) option" where
  "utf8_follow n =
     (if n < 194 then None else if n < 224 then Some (1, 128, 191)
      else if n = 224 then Some (2, 160, 191) else if n = 237 then Some (2, 128, 159) else if n < 240 then Some (2, 128, 191)
      else if n = 240 then Some (3, 144, 191) else if n < 244 then Some (3, 128, 191) else if n = 244 then Some (3, 128, 143)
      else None)"

fun utf8_ok :: "string \<Rightarrow> bool" where
  "utf8_ok [] = True"
| "utf8_ok (c # cs) =
     (if utf8_byte c < 128 then utf8_ok cs
      else case utf8_follow (utf8_byte c) of
             None \<Rightarrow> False
           | Some (k, lo, hi) \<Rightarrow>
               length (take k cs) = k \<and> lo \<le> utf8_byte (hd cs) \<and> utf8_byte (hd cs) \<le> hi
               \<and> list_all utf8_cont (take k cs) \<and> utf8_ok (drop k cs))"

definition utf8_decode :: "string \<Rightarrow> string result" where
  "utf8_decode b = (if utf8_ok b then Inr b else Inl (OtherError ''UnicodeDecodeError''))"

lemma utf8_ascii: "\<forall>c \<in> set s. utf8_byte c < 128 \<Longrightarrow> utf8_ok s"
  by (induction s) auto

end
