(* ===== verification/ConfigParser.thy ===== *)
theory ConfigParser
  imports PyLib
begin

text \<open>
  Python's \<open>configparser.ConfigParser\<close> with \<open>ExtendedInterpolation\<close>, as
  \<open>src/pyqgisserver/config.py\<close> sets it up (option names keep their case): sections in
  order, default options, the syntax check of \<open>set\<close>, interpolation of
  \<open>${option}\<close> and \<open>${section:option}\<close> to a depth of ten, typed readings.
  Reading the text of a file is left to the library: a file is the list of its sections.
\<close>

type_synonym options = "(string, string) odict"

record config =
  c_defaults :: options
  c_sections :: "(string, options) odict"

definition empty_config :: config where
  "empty_config = \<lparr>c_defaults = [], c_sections = []\<rparr>"

definition no_section :: exn where "no_section = OtherError ''NoSectionError''"
definition bad_interpolation :: exn where "bad_interpolation = OtherError ''InterpolationError''"

section \<open>Interpolation\<close>

text \<open>\<open>ref_split s\<close>: \<open>s\<close> is what follows a dollar; a name in braces and the rest.\<close>

definition ref_split :: "string \<Rightarrow> (string \<times> string) option" where
  "ref_split s = (case s of
      c # r \<Rightarrow> if c = CHR ''{'' \<and> CHR ''}'' \<in> set r \<and> before CHR ''}'' r \<noteq> []
               then Some (before CHR ''}'' r, after CHR ''}'' r) else None
    | [] \<Rightarrow> None)"

lemma length_after: "length (after c s) \<le> length s"
  using length_dropWhile_le [of "\<lambda>x. x \<noteq> c" s] by (simp add: after_def)

lemma ref_split_length: "ref_split s = Some (n, r) \<Longrightarrow> length r < length s"
  using length_after by (auto simp: ref_split_def less_Suc_eq_le split: list.splits if_splits)

text \<open>The check of \<open>set\<close>: without doubled dollars and references no dollar is left.\<close>

fun drop_dollars :: "string \<Rightarrow> string" where
  "drop_dollars (a # b # s) = (if a = CHR ''$'' \<and> b = CHR ''$'' then drop_dollars s else a # drop_dollars (b # s))"
| "drop_dollars s = s"

function dangling :: "string \<Rightarrow> bool" where
  "dangling [] = False"
| "dangling (c # s) =
     (if c = CHR ''$'' then (case ref_split s of None \<Rightarrow> True | Some (n, r) \<Rightarrow> dangling r) else dangling s)"
  by pat_completeness auto
termination
  by (relation "measure length") (auto dest: ref_split_length)

definition valid_value :: "string \<Rightarrow> bool" where
  "valid_value v \<longleftrightarrow> \<not> dangling (drop_dollars v)"

definition raw_get :: "config \<Rightarrow> string \<Rightarrow> string \<Rightarrow> string option" where
  "raw_get c s n = (case (if s = ''DEFAULT'' then Some [] else od_get (c_sections c) s) of
      None \<Rightarrow> None
    | Some d \<Rightarrow> (case od_get d n of None \<Rightarrow> od_get (c_defaults c) n | Some v \<Rightarrow> Some v))"

definition resolve_ref :: "config \<Rightarrow> string \<Rightarrow> string \<Rightarrow> (string \<times> string) option" where
  "resolve_ref c s name = (case split_on CHR '':'' name of
      [n] \<Rightarrow> map_option (Pair s) (raw_get c s n)
    | [s', n] \<Rightarrow> map_option (Pair s') (raw_get c s' n)
    | _ \<Rightarrow> None)"

function interpolate :: "nat \<Rightarrow> config \<Rightarrow> string \<Rightarrow> string \<Rightarrow> string result" where
  "interpolate 0 c s v = Inl bad_interpolation"
| "interpolate (Suc d) c s [] = Inr []"
| "interpolate (Suc d) c s (x # v) =
     (if x \<noteq> CHR ''$'' then rbind (interpolate (Suc d) c s v) (\<lambda>r. Inr (x # r))
      else if v \<noteq> [] \<and> hd v = CHR ''$'' then rbind (interpolate (Suc d) c s (tl v)) (\<lambda>r. Inr (x # r))
      else case ref_split v of
        None \<Rightarrow> Inl bad_interpolation
      | Some (name, rest) \<Rightarrow>
          (case resolve_ref c s name of
             None \<Rightarrow> Inl bad_interpolation
           | Some (s', w) \<Rightarrow>
               rbind (if CHR ''$'' \<in> set w then interpolate d c s' w else Inr w) (\<lambda>u.
               rbind (interpolate (Suc d) c s rest) (\<lambda>r. Inr (u @ r)))))"
  by pat_completeness auto
termination
  by (relation "measures [\<lambda>(d, c, s, v). d, \<lambda>(d, c, s, v). length v]")
    (auto dest: ref_split_length)

definition interp_depth :: nat where
  "interp_depth = 10"

section \<open>Reading and writing\<close>

text \<open>\<open>get\<close>: \<open>Inr None\<close> when the section or the option is missing.\<close>

definition parser_get :: "config \<Rightarrow> string \<Rightarrow> string \<Rightarrow> string option result" where
  "parser_get c s n = (case raw_get c s n of
      None \<Rightarrow> Inr None
    | Some v \<Rightarrow> rbind (interpolate interp_depth c s v) (\<lambda>r. Inr (Some r)))"

definition parser_conv :: "(string \<Rightarrow> 'a result) \<Rightarrow> config \<Rightarrow> string \<Rightarrow> string \<Rightarrow> 'a option result" where
  "parser_conv conv c s n = rbind (parser_get c s n) (\<lambda>r. case r of
      None \<Rightarrow> Inr None | Some v \<Rightarrow> rbind (conv v) (\<lambda>x. Inr (Some x)))"

definition to_bool :: "string \<Rightarrow> bool result" where
  "to_bool v = (let l = py_lower v in
     if l \<in> {''1'', ''yes'', ''true'', ''on''} then Inr True
     else if l \<in> {''0'', ''no'', ''false'', ''off''} then Inr False else Inl ValueError)"

definition has_section :: "config \<Rightarrow> string \<Rightarrow> bool" where
  "has_section c s = od_has s (c_sections c)"

definition parser_add_section :: "string \<Rightarrow> config \<Rightarrow> config result" where
  "parser_add_section s c =
     (if s = ''DEFAULT'' then Inl ValueError
      else if has_section c s then Inl (OtherError ''DuplicateSectionError'')
      else Inr (c\<lparr>c_sections := od_set s [] (c_sections c)\<rparr>))"

definition parser_set :: "string \<Rightarrow> string \<Rightarrow> string \<Rightarrow> config \<Rightarrow> config result" where
  "parser_set s n v c =
     (if v \<noteq> [] \<and> \<not> valid_value v then Inl ValueError
      else if s = ''DEFAULT'' then Inr (c\<lparr>c_defaults := od_set n v (c_defaults c)\<rparr>)
      else case od_get (c_sections c) s of
        None \<Rightarrow> Inl no_section
      | Some d \<Rightarrow> Inr (c\<lparr>c_sections := od_set s (od_set n v d) (c_sections c)\<rparr>))"

definition parser_clear :: "config \<Rightarrow> config" where
  "parser_clear c = c\<lparr>c_sections := []\<rparr>"

text \<open>\<open>read_file\<close>, given the sections of the file: values are stored unchecked.\<close>

definition merge_section :: "config \<Rightarrow> string \<times> options \<Rightarrow> config" where
  "merge_section c sd = (let (s, d) = sd in
     if s = ''DEFAULT'' then c\<lparr>c_defaults := od_update (c_defaults c) d\<rparr>
     else c\<lparr>c_sections := od_set s (od_update (case od_get (c_sections c) s of None \<Rightarrow> [] | Some e \<Rightarrow> e) d) (c_sections c)\<rparr>)"

definition parser_read :: "(string \<times> options) list \<Rightarrow> config \<Rightarrow> config" where
  "parser_read file c = foldl merge_section c file"

text \<open>The options of a section: its own, then the defaults it does not override.\<close>

definition section_options :: "config \<Rightarrow> string \<Rightarrow> string list" where
  "section_options c s =
     (let own = (case od_get (c_sections c) s of None \<Rightarrow> [] | Some d \<Rightarrow> od_keys d)
      in own @ filter (\<lambda>n. n \<notin> set own) (od_keys (c_defaults c)))"

fun read_all :: "config \<Rightarrow> string \<Rightarrow> string list \<Rightarrow> options result" where
  "read_all c s [] = Inr []"
| "read_all c s (n # ns) = rbind (parser_get c s n) (\<lambda>r. rbind (read_all c s ns) (\<lambda>kvs.
     Inr (case r of None \<Rightarrow> kvs | Some v \<Rightarrow> (n, v) # kvs)))"

definition section_items :: "config \<Rightarrow> string \<Rightarrow> options result" where
  "section_items c s = read_all c s (section_options c s)"

section \<open>Lemmas\<close>

lemma drop_dollars_no: "CHR ''$'' \<notin> set v \<Longrightarrow> drop_dollars v = v"
  by (induction v rule: drop_dollars.induct) auto

lemma dangling_no: "CHR ''$'' \<notin> set v \<Longrightarrow> \<not> dangling v"
  by (induction v) auto

lemma valid_plain [simp]: "CHR ''$'' \<notin> set v \<Longrightarrow> valid_value v"
  by (simp add: valid_value_def drop_dollars_no dangling_no)

lemma interpolate_plain [simp]: "CHR ''$'' \<notin> set v \<Longrightarrow> interpolate (Suc d) c s v = Inr v"
  by (induction v) auto

lemma interpolate_depth_plain: "CHR ''$'' \<notin> set v \<Longrightarrow> interpolate interp_depth c s v = Inr v"
  using interpolate_plain [of v 9 c s] by (simp add: interp_depth_def)

lemma parser_get_plain: "raw_get c s n = Some v \<Longrightarrow> CHR ''$'' \<notin> set v \<Longrightarrow> parser_get c s n = Inr (Some v)"
  by (simp add: parser_get_def interpolate_depth_plain)

lemma raw_get_set:
  assumes "parser_set s n v c = Inr c'" "s \<noteq> ''DEFAULT''"
  shows "raw_get c' s' n' = (if s' = s \<and> n' = n then Some v else raw_get c s' n')"
proof -
  from assms obtain d where d: "od_get (c_sections c) s = Some d"
      "c' = c\<lparr>c_sections := od_set s (od_set n v d) (c_sections c)\<rparr>"
    by (auto simp: parser_set_def split: if_splits option.splits)
  show ?thesis
  proof (cases "s' = s")
    case True
    with d assms(2) show ?thesis by (simp add: raw_get_def split: option.split)
  next
    case False
    with d show ?thesis by (simp add: raw_get_def split: option.split)
  qed
qed

lemma raw_get_add_section:
  "parser_add_section s c = Inr c' \<Longrightarrow> c_defaults c = [] \<Longrightarrow> raw_get c' s' n = raw_get c s' n"
  by (auto simp: parser_add_section_def has_section_def od_has_def raw_get_def split: if_splits option.splits)

lemma has_section_set: "parser_set s n v c = Inr c' \<Longrightarrow> has_section c' s' = has_section c s'"
  by (auto simp: parser_set_def has_section_def od_has_def split: if_splits option.splits)

lemma c_defaults_set: "parser_set s n v c = Inr c' \<Longrightarrow> s \<noteq> ''DEFAULT'' \<Longrightarrow> c_defaults c' = c_defaults c"
  by (auto simp: parser_set_def split: if_splits option.splits)

end
