(* ===== verification/Config.thy ===== *)
theory Config
  imports ConfigParser
begin

text \<open>
  \<open>src/pyqgisserver/config.py\<close> and the part of \<open>src/pyqgisserver/server.py\<close> that
  merges the configuration: the defaults of \<open>load_configuration\<close> with their environment
  variables, the configuration file, the command line, the accessors of \<open>ConfigService\<close>
  with their late look into the environment, and the helpers of the qgis APIs. The environment is
  a map of variables; the command line is what \<open>argparse\<close> returns.
\<close>

type_synonym environ = "string \<Rightarrow> string option"

definition getenv :: "environ \<Rightarrow> string \<Rightarrow> string \<Rightarrow> string" where
  "getenv env n dflt = (case env n of None \<Rightarrow> dflt | Some v \<Rightarrow> v)"

definition getenv2 :: "environ \<Rightarrow> string \<Rightarrow> string \<Rightarrow> string \<Rightarrow> string" where
  "getenv2 env n1 n2 dflt = getenv env n1 (getenv env n2 dflt)"

section \<open>Defaults\<close>

text \<open>The calls of \<open>load_configuration\<close>, in order.\<close>

datatype conf_step = AddSection string | SetOption string string string

definition server_steps :: "environ \<Rightarrow> conf_step list" where
  "server_steps env =
   [AddSection ''server'',
    SetOption ''server'' ''port'' (getenv env ''QGSRV_SERVER_HTTP_PORT'' ''8080''),
    SetOption ''server'' ''interfaces'' (getenv env ''QGSRV_SERVER_INTERFACES'' ''0.0.0.0''),
    SetOption ''server'' ''workers'' (getenv env ''QGSRV_SERVER_WORKERS'' ''2''),
    SetOption ''server'' ''timeout'' (getenv env ''QGSRV_SERVER_TIMEOUT'' ''20''),
    SetOption ''server'' ''enable_filters'' (getenv env ''QGSRV_SERVER_ENABLE_FILTERS'' ''no''),
    SetOption ''server'' ''http_proxy'' (getenv env ''QGSRV_SERVER_HTTP_PROXY'' ''no''),
    SetOption ''server'' ''proxy_url'' (getenv env ''QGSRV_SERVER_PROXY_URL'' []),
    SetOption ''server'' ''restartmon'' (getenv env ''QGSRV_SERVER_RESTARTMON'' []),
    SetOption ''server'' ''ssl'' (getenv env ''QGSRV_SERVER_SSL'' ''no''),
    SetOption ''server'' ''ssl_cert'' (getenv env ''QGSRV_SERVER_SSL_CERT'' []),
    SetOption ''server'' ''ssl_key'' (getenv env ''QGSRV_SERVER_SSL_KEY'' []),
    SetOption ''server'' ''cross_origin'' (getenv env ''QGSRV_SERVER_CROSS_ORIGIN'' ''yes''),
    SetOption ''server'' ''status_page'' (getenv env ''QGSRV_SERVER_STATUS_PAGE'' ''no''),
    SetOption ''server'' ''allow_headers'' (getenv env ''QGSRV_SERVER_ALLOW_HEADERS'' ''X-Qgis-,X-Lizmap-''),
    SetOption ''server'' ''memory_high_water_mark'' (getenv env ''QGSRV_SERVER_MEMORY_HIGH_WATER_MARK'' ''0.9''),
    SetOption ''server'' ''getfeaturelimit'' (getenv env ''QGSRV_SERVER_GETFEATURELIMIT'' ''-1''),
    SetOption ''server'' ''pluginpath'' (getenv2 env ''QGSRV_SERVER_PLUGINPATH'' ''QGIS_PLUGINPATH'' []),
    SetOption ''server'' ''debug_request_id'' (getenv env ''QGSRV_SERVER_DEBUG_REQUEST_ID'' ''*'')]"

definition logging_steps :: "environ \<Rightarrow> conf_step list" where
  "logging_steps env =
   [AddSection ''logging'',
    SetOption ''logging'' ''level'' (getenv env ''QGSRV_LOGGING_LEVEL'' ''INFO''),
    SetOption ''logging'' ''qgis_info'' (getenv env ''QGSRV_LOGGING_QGIS_INFO'' ''no'')]"

definition endpoint_steps :: "environ \<Rightarrow> conf_step list" where
  "endpoint_steps env =
   [AddSection ''api.endpoints'',
    SetOption ''api.endpoints'' ''landing_page'' (getenv env ''QGSRV_API_ENDPOINTS_LANDING_PAGE'' ''/catalog''),
    SetOption ''api.endpoints'' ''lizmap_api'' (getenv env ''QGSRV_API_ENDPOINTS_LIZMAP'' ''/lizmap'')]"

definition api_enabled_steps :: "environ \<Rightarrow> conf_step list" where
  "api_enabled_steps env =
   [AddSection ''api.enabled'',
    SetOption ''api.enabled'' ''landing_page'' (getenv env ''QGSRV_API_ENABLED_LANDING_PAGE'' ''no''),
    SetOption ''api.enabled'' ''lizmap_api'' (getenv env ''QGSRV_API_ENABLED_LIZMAP'' ''no'')]"

definition landing_steps :: "conf_step list" where
  "landing_steps =
   [AddSection ''api:landing_page'',
    SetOption ''api:landing_page'' ''QGIS_SERVER_LANDING_PAGE_PREFIX'' ''${api.endpoints:landing_page}'',
    SetOption ''api:landing_page'' ''QGIS_SERVER_LANDING_PAGE_PROJECTS_DIRECTORIES'' ''${projects.cache:rootdir}'']"

definition cache_steps :: "environ \<Rightarrow> conf_step list" where
  "cache_steps env =
   [AddSection ''projects.cache'',
    SetOption ''projects.cache'' ''size'' (getenv env ''QGSRV_CACHE_SIZE'' ''10''),
    SetOption ''projects.cache'' ''rootdir'' (getenv env ''QGSRV_CACHE_ROOTDIR'' []),
    SetOption ''projects.cache'' ''strict_check'' (getenv env ''QGSRV_CACHE_STRICT_CHECK'' ''yes''),
    SetOption ''projects.cache'' ''insecure'' (getenv env ''QGSRV_CACHE_INSECURE'' ''no''),
    SetOption ''projects.cache'' ''preload_config'' (getenv env ''QGSRV_CACHE_PRELOAD_CONFIG'' []),
    SetOption ''projects.cache'' ''trust_layer_metadata'' (getenv2 env ''QGSRV_TRUST_LAYER_METADATA'' ''QGIS_SERVER_TRUST_LAYER_METADATA'' ''no''),
    SetOption ''projects.cache'' ''disable_getprint'' (getenv2 env ''QGSRV_DISABLE_GETPRINT'' ''QGIS_SERVER_DISABLE_GETPRINT'' ''no''),
    SetOption ''projects.cache'' ''disable_owsurls'' (getenv env ''QGSRV_CACHE_DISABLE_OWSURLS'' ''no''),
    SetOption ''projects.cache'' ''force_etag'' (getenv env ''QGSRV_CACHE_FORCE_ETAG'' ''no''),
    SetOption ''projects.cache'' ''default_handler'' (getenv env ''QGSRV_CACHE_DEFAULT_HANDLER'' ''file''),
    SetOption ''projects.cache'' ''allow_storage_schemes'' (getenv env ''QGSRV_CACHE_ALLOW_STORAGE_SCHEMES'' ''*''),
    SetOption ''projects.cache'' ''check_interval'' (getenv env ''QGSRV_CACHE_CHECK_INTERVAL'' ''0''),
    SetOption ''projects.cache'' ''observers'' (getenv env ''QGSRV_CACHE_OBSERVERS'' []),
    SetOption ''projects.cache'' ''advanced_report'' (getenv env ''QGSRV_CACHE_ADVANCED_REPORT'' ''no''),
    SetOption ''projects.cache'' ''force_readonly_layers'' (getenv env ''QGIS_SERVER_FORCE_READONLY_LAYERS'' ''yes'')]"

definition scheme_steps :: "conf_step list" where
  "scheme_steps =
   [AddSection ''projects.schemes'']"

definition zmq_steps :: "environ \<Rightarrow> conf_step list" where
  "zmq_steps env =
   [AddSection ''zmq'',
    SetOption ''zmq'' ''identity'' (getenv env ''QGSRV_ZMQ_IDENTITY'' ''OWS-SERVER''),
    SetOption ''zmq'' ''maxqueue'' (getenv env ''QGSRV_ZMQ_MAXQUEUE'' ''1000''),
    SetOption ''zmq'' ''timeout'' (getenv env ''QGSRV_ZMQ_TIMEOUT'' ''15000''),
    SetOption ''zmq'' ''hostaddr'' (getenv env ''QGSRV_ZMQ_HOSTADDR'' ''*''),
    SetOption ''zmq'' ''bindaddr'' (getenv env ''QGSRV_ZMQ_INADDR'' ''tcp://${zmq:hostaddr}:18080''),
    SetOption ''zmq'' ''broadcastaddr'' (getenv env ''QGSRV_ZMQ_BROADCASTADDR'' ''tcp://${zmq:hostaddr}:18090''),
    SetOption ''zmq'' ''cache_observer_addr'' (getenv env ''QGSRV_ZMQ_CACHEOBSERVERADDR'' ''tcp://${zmq:hostaddr}:18091'')]"

definition amqp_steps :: "environ \<Rightarrow> conf_step list" where
  "amqp_steps env =
   [AddSection ''monitor:amqp'',
    SetOption ''monitor:amqp'' ''routing_key'' (getenv env ''AMQP_ROUTING'' []),
    SetOption ''monitor:amqp'' ''host'' (getenv env ''AMQP_HOST'' ''amqp''),
    SetOption ''monitor:amqp'' ''user'' (getenv env ''AMQP_USER'' []),
    SetOption ''monitor:amqp'' ''vhost'' (getenv env ''AMQP_VHOST'' ''/''),
    SetOption ''monitor:amqp'' ''port'' (getenv env ''AMQP_PORT'' ''5672''),
    SetOption ''monitor:amqp'' ''exchange'' (getenv env ''AMQP_EXCHANGE'' ''qgis_log''),
    SetOption ''monitor:amqp'' ''reconnect_delay'' (getenv env ''AMQP_RECONNECT_DELAY'' ''5'')]"

definition management_steps :: "environ \<Rightarrow> conf_step list" where
  "management_steps env =
   [AddSection ''management'',
    SetOption ''management'' ''enabled'' (getenv env ''QGSRV_MANAGEMENT_ENABLED'' ''no''),
    SetOption ''management'' ''interfaces'' (getenv env ''QGSRV_MANAGEMENT_INTERFACES'' ''127.0.0.1''),
    SetOption ''management'' ''ssl'' (getenv env ''QGSRV_MANAGEMENT_SSL'' ''no''),
    SetOption ''management'' ''ss_key'' (getenv env ''QGSRV_MANAGEMENT_SSL_KEY'' []),
    SetOption ''management'' ''ssl_cert'' (getenv env ''QGSRV_MANAGEMENT_SSL_CERT'' []),
    SetOption ''management'' ''port'' (getenv env ''QGSRV_MANAGEMENT_PORT'' ''19876'')]"

definition metadata_steps :: "conf_step list" where
  "metadata_steps =
   [AddSection ''metadata'',
    SetOption ''metadata'' ''contact_name'' ''3liz'',
    SetOption ''metadata'' ''contact_address'' [],
    SetOption ''metadata'' ''contact_email'' ''info@3liz.com'',
    SetOption ''metadata'' ''contact_url'' ''https://www.3liz.com/'',
    SetOption ''metadata'' ''licence_url'' ''http://mozilla.org/MPL/2.0/'',
    SetOption ''metadata'' ''licence_name'' ''Mozilla Public Licences, v2.0'',
    SetOption ''metadata'' ''external_doc_description'' ''Py-qgis-server documentation'',
    SetOption ''metadata'' ''external_doc_url'' ''https://docs.3liz.org/py-qgis-server/'']"

fun run_step :: "conf_step \<Rightarrow> config \<Rightarrow> config result" where
  "run_step (AddSection s) c = parser_add_section s c"
| "run_step (SetOption s n v) c = parser_set s n v c"

fun run_steps :: "conf_step list \<Rightarrow> config \<Rightarrow> config result" where
  "run_steps [] c = Inr c"
| "run_steps (st # sts) c = rbind (run_step st c) (run_steps sts)"

definition load_steps :: "environ \<Rightarrow> conf_step list" where
  "load_steps env = concat
     [server_steps env, logging_steps env, endpoint_steps env, api_enabled_steps env, landing_steps,
      cache_steps env, scheme_steps, zmq_steps env, amqp_steps env, management_steps env, metadata_steps]"

definition load_configuration :: "environ \<Rightarrow> config \<Rightarrow> config result" where
  "load_configuration env c = run_steps (load_steps env) (parser_clear c)"

section \<open>The configuration service\<close>

text \<open>
  The variable of an option: upper case, punctuation replaced. The getters look there when the
  option is missing, store what they find in the configuration, and convert it.
\<close>

definition env_replace_chars :: "char list" where
  "env_replace_chars = '':.-@#$%&*''"

definition env_var_name :: "string \<Rightarrow> string \<Rightarrow> string" where
  "env_var_name s n = fold (\<lambda>ch v. replace_char ch CHR ''_'' v) env_replace_chars
     (''QGSRV_'' @ py_upper s @ ''_'' @ py_upper n)"

definition service_get ::
  "(string \<Rightarrow> 'a result) \<Rightarrow> environ \<Rightarrow> string \<Rightarrow> string \<Rightarrow> 'a option \<Rightarrow> config \<Rightarrow> 'a result \<times> config" where
  "service_get conv env s n fallback c = (case parser_conv conv c s n of
      Inl e \<Rightarrow> (Inl e, c)
    | Inr (Some x) \<Rightarrow> (Inr x, c)
    | Inr None \<Rightarrow>
        (case (case env (env_var_name s n) of None \<Rightarrow> Inr c | Some v \<Rightarrow> parser_set s n v c) of
           Inl e \<Rightarrow> (Inl e, c)
         | Inr c' \<Rightarrow>
             (case parser_conv conv c' s n of
                Inl e \<Rightarrow> (Inl e, c')
              | Inr (Some x) \<Rightarrow> (Inr x, c')
              | Inr None \<Rightarrow> (case fallback of None \<Rightarrow> (Inl KeyError, c') | Some x \<Rightarrow> (Inr x, c')))))"

definition conf_get :: "environ \<Rightarrow> string \<Rightarrow> string \<Rightarrow> string option \<Rightarrow> config \<Rightarrow> string result \<times> config" where
  "conf_get = service_get Inr"

definition conf_getint :: "environ \<Rightarrow> string \<Rightarrow> string \<Rightarrow> int option \<Rightarrow> config \<Rightarrow> int result \<times> config" where
  "conf_getint = service_get py_int"

definition conf_getboolean :: "environ \<Rightarrow> string \<Rightarrow> string \<Rightarrow> bool option \<Rightarrow> config \<Rightarrow> bool result \<times> config" where
  "conf_getboolean = service_get to_bool"

definition service_set :: "string \<Rightarrow> string \<Rightarrow> string \<Rightarrow> config \<Rightarrow> config result" where
  "service_set = parser_set"

definition service_add_section :: "string \<Rightarrow> config \<Rightarrow> config result" where
  "service_add_section s c = (case parser_add_section s c of
      Inl e \<Rightarrow> if e = OtherError ''DuplicateSectionError'' then Inr c else Inl e
    | Inr c' \<Rightarrow> Inr c')"

definition service_contains :: "string \<Rightarrow> config \<Rightarrow> bool" where
  "service_contains s c = (s = ''DEFAULT'' \<or> has_section c s)"

text \<open>Access through a section proxy: \<open>conf[s][n]\<close> and \<open>conf[s].get(n)\<close>.\<close>

definition proxy_get :: "(string \<Rightarrow> 'a result) \<Rightarrow> config \<Rightarrow> string \<Rightarrow> string \<Rightarrow> 'a option result" where
  "proxy_get conv c s n = (if service_contains s c then parser_conv conv c s n else Inl KeyError)"

definition proxy_item :: "config \<Rightarrow> string \<Rightarrow> string \<Rightarrow> string result" where
  "proxy_item c s n = rbind (proxy_get Inr c s n) (\<lambda>r. case r of None \<Rightarrow> Inl KeyError | Some v \<Rightarrow> Inr v)"

section \<open>Other accessors\<close>

fun items_of_sections :: "config \<Rightarrow> string list \<Rightarrow> (string \<times> options) list result" where
  "items_of_sections c [] = Inr []"
| "items_of_sections c (s # ss) =
     rbind (section_items c s) (\<lambda>kvs. rbind (items_of_sections c ss) (\<lambda>r. Inr ((s, kvs) # r)))"

definition config_to_dict :: "config \<Rightarrow> (string \<times> options) list result" where
  "config_to_dict c = items_of_sections c (''DEFAULT'' # od_keys (c_sections c))"

text \<open>A path value must be an existing directory with an absolute, normalized name.\<close>

definition validate_config_path :: "(string \<Rightarrow> bool) \<Rightarrow> string \<Rightarrow> string \<Rightarrow> bool \<Rightarrow> config \<Rightarrow> config result" where
  "validate_config_path isdir s n optional c =
     rbind (proxy_get Inr c s n) (\<lambda>r.
       let v = (case r of None \<Rightarrow> [] | Some v \<Rightarrow> v); p = normpath v
       in if v = [] \<and> optional then Inr c
          else if \<not> isdir p then Inl ValueError
          else if \<not> isabs p then Inl ValueError
          else parser_set s n p c)"

definition configure_qgis_api :: "string \<Rightarrow> config \<Rightarrow> environ \<Rightarrow> environ result" where
  "configure_qgis_api name c env =
     (let s = ''api:'' @ name in
      if \<not> has_section c s then Inr env
      else rbind (section_items c s) (\<lambda>kvs. Inr (foldl (\<lambda>e (k, v). e(k \<mapsto> v)) env kvs)))"

text \<open>The endpoints whose name is a true option of the section \<open>api.enabled\<close>.\<close>

fun enabled_endpoints :: "config \<Rightarrow> options \<Rightarrow> options result" where
  "enabled_endpoints c [] = Inr []"
| "enabled_endpoints c ((n, ep) # eps) =
     rbind (proxy_get to_bool c ''api.enabled'' n) (\<lambda>r.
       rbind (enabled_endpoints c eps) (\<lambda>rest. Inr (if r = Some True then (n, ep) # rest else rest)))"

definition qgis_api_endpoints :: "bool \<Rightarrow> config \<Rightarrow> options result" where
  "qgis_api_endpoints enabled_only c =
     (if \<not> service_contains ''api.endpoints'' c \<or> \<not> service_contains ''api.enabled'' c then Inl KeyError
      else rbind (section_items c ''api.endpoints'') (\<lambda>eps.
        if enabled_only then enabled_endpoints c eps else Inr eps))"

section \<open>Merging the sources\<close>

record cli_args =
  a_debug :: bool
  a_proxy :: bool
  a_setuid :: string
  a_rootdir :: "string option"
  a_interfaces :: "string option"
  a_port :: "int option"
  a_workers :: "int option"

definition set_arg :: "string \<Rightarrow> string \<Rightarrow> string option \<Rightarrow> config \<Rightarrow> config result" where
  "set_arg s n a c = (case a of None \<Rightarrow> Inr c | Some v \<Rightarrow> service_set s n v c)"

definition override_config :: "cli_args \<Rightarrow> config \<Rightarrow> config result" where
  "override_config a c =
     rbind (set_arg ''projects.cache'' ''rootdir'' (a_rootdir a) c) (\<lambda>c1.
     rbind (set_arg ''server'' ''interfaces'' (a_interfaces a) c1) (\<lambda>c2.
     rbind (set_arg ''server'' ''port'' (map_option int_str (a_port a)) c2) (\<lambda>c3.
     rbind (set_arg ''server'' ''workers'' (map_option int_str (a_workers a)) c3) (\<lambda>c4.
       if a_debug a then service_set ''logging'' ''level'' ''DEBUG'' c4 else Inr c4))))"

text \<open>
  \<open>read_configuration\<close> from line 127 on: the configuration and the settings that the
  caller uses (port, workers, interfaces).
\<close>

definition read_settings :: "config \<Rightarrow> (int option \<times> int option \<times> string option) result" where
  "read_settings c =
     rbind (proxy_get py_int c ''server'' ''port'') (\<lambda>p.
     rbind (proxy_get py_int c ''server'' ''workers'') (\<lambda>w.
     rbind (proxy_get Inr c ''server'' ''interfaces'') (\<lambda>i. Inr (p, w, i))))"

definition read_configuration ::
  "environ \<Rightarrow> (string \<times> options) list option \<Rightarrow> cli_args \<Rightarrow> config \<Rightarrow>
     (config \<times> int option \<times> int option \<times> string option) result" where
  "read_configuration env file a c0 =
     rbind (load_configuration env c0) (\<lambda>c.
     rbind (override_config a (case file of None \<Rightarrow> c | Some f \<Rightarrow> parser_read f c)) (\<lambda>c'.
     rbind (read_settings c') (\<lambda>st. Inr (c', st))))"

text \<open>\<open>main\<close>: what \<open>run_server\<close> is called with; a proxy has no workers.\<close>

definition server_main ::
  "environ \<Rightarrow> (string \<Rightarrow> bool) \<Rightarrow> (string \<times> options) list option \<Rightarrow> cli_args \<Rightarrow> config \<Rightarrow>
     (config \<times> int option \<times> int option \<times> string option) result" where
  "server_main env isdir file a c0 =
     rbind (read_configuration env file a c0) (\<lambda>(c, p, w, i).
       if a_proxy a then Inr (c, p, Some 0, i)
       else rbind (validate_config_path isdir ''projects.cache'' ''rootdir'' False c) (\<lambda>c'. Inr (c', p, w, i)))"

section \<open>Where a value comes from\<close>

text \<open>What the defaults (with the environment), the file and the command line say of an option.\<close>

fun last_set :: "conf_step list \<Rightarrow> string \<Rightarrow> string \<Rightarrow> string option" where
  "last_set [] s n = None"
| "last_set (st # sts) s n = (case last_set sts s n of
     Some v \<Rightarrow> Some v
   | None \<Rightarrow> (case st of AddSection _ \<Rightarrow> None | SetOption s' n' v \<Rightarrow> if s' = s \<and> n' = n then Some v else None))"

definition default_setting :: "environ \<Rightarrow> string \<Rightarrow> string \<Rightarrow> string option" where
  "default_setting env s n = last_set (load_steps env) s n"

fun file_setting :: "(string \<times> options) list \<Rightarrow> string \<Rightarrow> string \<Rightarrow> string option" where
  "file_setting [] s n = None"
| "file_setting ((s', d) # f) s n = (case file_setting f s n of
     Some v \<Rightarrow> Some v
   | None \<Rightarrow> if s' = s then od_get (rev d) n else None)"

definition cli_setting :: "cli_args \<Rightarrow> string \<Rightarrow> string \<Rightarrow> string option" where
  "cli_setting a s n =
     (if (s, n) = (''projects.cache'', ''rootdir'') then a_rootdir a
      else if (s, n) = (''server'', ''interfaces'') then a_interfaces a
      else if (s, n) = (''server'', ''port'') then map_option int_str (a_port a)
      else if (s, n) = (''server'', ''workers'') then map_option int_str (a_workers a)
      else if (s, n) = (''logging'', ''level'') \<and> a_debug a then Some ''DEBUG'' else None)"

fun first_set :: "'a option list \<Rightarrow> 'a option" where
  "first_set [] = None"
| "first_set (Some x # xs) = Some x"
| "first_set (None # xs) = first_set xs"

definition plain_value :: "string option \<Rightarrow> bool" where
  "plain_value r = (case r of None \<Rightarrow> True | Some v \<Rightarrow> CHR ''$'' \<notin> set v)"

text \<open>Steps that are accepted, given the sections that exist.\<close>

fun steps_ok :: "string list \<Rightarrow> conf_step list \<Rightarrow> bool" where
  "steps_ok ss [] = True"
| "steps_ok ss (AddSection s # sts) = (s \<noteq> ''DEFAULT'' \<and> s \<notin> set ss \<and> steps_ok (s # ss) sts)"
| "steps_ok ss (SetOption s n v # sts) = (s \<noteq> ''DEFAULT'' \<and> s \<in> set ss \<and> valid_value v \<and> steps_ok ss sts)"

lemma run_steps_ok:
  "steps_ok ss sts \<Longrightarrow> \<forall>s. has_section c s = (s \<in> set ss) \<Longrightarrow> c_defaults c = [] \<Longrightarrow>
     \<exists>c'. run_steps sts c = Inr c' \<and> c_defaults c' = []
        \<and> (\<forall>s. has_section c s \<longrightarrow> has_section c' s)
        \<and> (\<forall>s n. raw_get c' s n = first_set [last_set sts s n, raw_get c s n])"
proof (induction ss sts arbitrary: c rule: steps_ok.induct)
  case (1 ss)
  then show ?case by (auto simp: first_set.simps split: option.splits) (metis first_set.simps(2,3) first_set.simps(1) option.exhaust)
next
  case (2 ss s sts)
  define c1 where "c1 = c\<lparr>c_sections := od_set s [] (c_sections c)\<rparr>"
  have add: "parser_add_section s c = Inr c1"
    using 2 by (simp add: parser_add_section_def c1_def)
  have h: "\<forall>t. has_section c1 t = (t \<in> set (s # ss))" and d: "c_defaults c1 = []"
    using 2 by (auto simp: c1_def has_section_def od_has_def)
  have r: "raw_get c1 t n = raw_get c t n" for t n
    using raw_get_add_section [OF add] 2 by (simp add: c1_def)
  from 2 obtain c' where "run_steps sts c1 = Inr c'" "c_defaults c' = []"
      "\<forall>t. has_section c1 t \<longrightarrow> has_section c' t"
      "\<forall>t n. raw_get c' t n = first_set [last_set sts t n, raw_get c1 t n]"
    using 2(1) [OF _ h d] by auto
  then show ?case
    using add h 2(3) r by (auto split: option.splits)
next
  case (3 ss s n v sts)
  from 3 have "has_section c s" by simp
  then obtain dd where dd: "od_get (c_sections c) s = Some dd"
    unfolding has_section_def od_has_def by blast
  with 3 obtain c1 where set1: "parser_set s n v c = Inr c1"
    by (auto simp: parser_set_def)
  have h: "\<forall>t. has_section c1 t = (t \<in> set ss)" and d: "c_defaults c1 = []"
    using 3 has_section_set [OF set1] c_defaults_set [OF set1] by auto
  have r: "raw_get c1 t n' = (if t = s \<and> n' = n then Some v else raw_get c t n')" for t n'
    using raw_get_set [OF set1] 3 by simp
  from 3 obtain c' where "run_steps sts c1 = Inr c'" "c_defaults c' = []"
      "\<forall>t. has_section c1 t \<longrightarrow> has_section c' t"
      "\<forall>t n. raw_get c' t n = first_set [last_set sts t n, raw_get c1 t n]"
    using 3(1) [OF _ h d] by auto
  then show ?case
    using set1 h 3(3) r by (auto split: option.splits)
qed

lemma valid_getenv: "plain_value (env n) \<Longrightarrow> valid_value d \<Longrightarrow> valid_value (getenv env n d)"
  by (auto simp: getenv_def plain_value_def split: option.splits)

lemma steps_ok_append: "steps_ok ss (xs @ ys) = (steps_ok ss xs \<and> steps_ok (fold (\<lambda>st acc. case st of AddSection s \<Rightarrow> s # acc | _ \<Rightarrow> acc) xs ss) ys)"
  by (induction ss xs rule: steps_ok.induct) auto

text \<open>The step lists are accepted when no environment variable holds a dollar.\<close>

lemma valid_getenv2: "plain_value (env n1) \<Longrightarrow> plain_value (env n2) \<Longrightarrow> valid_value d \<Longrightarrow> valid_value (getenv2 env n1 n2 d)"
  by (auto simp: getenv2_def getenv_def plain_value_def split: option.splits)

lemma valid_refs:
  "valid_value ''${api.endpoints:landing_page}''" "valid_value ''${projects.cache:rootdir}''"
  "valid_value ''tcp://${zmq:hostaddr}:18080''" "valid_value ''tcp://${zmq:hostaddr}:18090''"
  "valid_value ''tcp://${zmq:hostaddr}:18091''"
  by (code_simp+)

lemma load_steps_ok: "(\<And>n. plain_value (env n)) \<Longrightarrow> steps_ok [] (load_steps env)"
  unfolding load_steps_def server_steps_def logging_steps_def endpoint_steps_def api_enabled_steps_def landing_steps_def
      cache_steps_def scheme_steps_def zmq_steps_def amqp_steps_def management_steps_def metadata_steps_def
  by (simp add: valid_getenv valid_getenv2 valid_refs)

lemma first_set2: "first_set [a, b] = (case a of None \<Rightarrow> b | Some v \<Rightarrow> Some v)"
  by (cases a; cases b) auto

lemma first_set3: "first_set [a, b, c] = first_set [a, first_set [b, c]]"
  by (cases a) (auto simp: first_set2 split: option.split)

text \<open>Reading a file.\<close>

lemma raw_get_merge:
  assumes "c_defaults c = []" "s' \<noteq> ''DEFAULT''"
  shows "raw_get (merge_section c (s', d)) s n = first_set [if s' = s then od_get (rev d) n else None, raw_get c s n]"
proof (cases "s = s'")
  case True
  then show ?thesis
    using assms by (auto simp: raw_get_def merge_section_def od_get_od_update first_set2 split: option.split)
next
  case False
  then show ?thesis
    using assms by (simp add: raw_get_def merge_section_def first_set2 split: option.split)
qed

lemma has_section_merge: "has_section c s \<Longrightarrow> has_section (merge_section c sd) s"
  by (auto simp: merge_section_def has_section_def od_has_def split_def Let_def)

lemma parser_read_spec:
  "''DEFAULT'' \<notin> fst ` set f \<Longrightarrow> c_defaults c = [] \<Longrightarrow>
     c_defaults (parser_read f c) = [] \<and> (\<forall>s. has_section c s \<longrightarrow> has_section (parser_read f c) s)
     \<and> (\<forall>s n. raw_get (parser_read f c) s n = first_set [file_setting f s n, raw_get c s n])"
proof (induction f arbitrary: c)
  case (Cons sd f)
  obtain s' d where sd: "sd = (s', d)" by (cases sd)
  have e: "parser_read (sd # f) c = parser_read f (merge_section c (s', d))"
    by (simp add: parser_read_def sd)
  from Cons.prems sd have s': "s' \<noteq> ''DEFAULT''" and d: "c_defaults (merge_section c (s', d)) = []"
    by (auto simp: merge_section_def)
  have m: "raw_get (merge_section c (s', d)) s n = first_set [if s' = s then od_get (rev d) n else None, raw_get c s n]" for s n
    using raw_get_merge Cons.prems(2) s' by blast
  have IH: "c_defaults (parser_read f (merge_section c (s', d))) = []"
     "has_section (merge_section c (s', d)) s \<Longrightarrow> has_section (parser_read f (merge_section c (s', d))) s"
     "raw_get (parser_read f (merge_section c (s', d))) s n = first_set [file_setting f s n, raw_get (merge_section c (s', d)) s n]" for s n
    using Cons.IH [OF _ d] Cons.prems(1) by auto
  show ?case
  proof (intro conjI allI impI)
    show "c_defaults (parser_read (sd # f) c) = []" using IH(1) e by simp
    show "has_section c s \<Longrightarrow> has_section (parser_read (sd # f) c) s" for s
      using IH(2) has_section_merge e by simp
    show "raw_get (parser_read (sd # f) c) s n = first_set [file_setting (sd # f) s n, raw_get c s n]" for s n
      unfolding e IH(3) m by (auto simp: sd first_set2 split: option.split)
  qed
qed (simp add: parser_read_def first_set2)

text \<open>The command line, as steps.\<close>

definition opt_step :: "string \<Rightarrow> string \<Rightarrow> string option \<Rightarrow> conf_step list" where
  "opt_step s n a = (case a of None \<Rightarrow> [] | Some v \<Rightarrow> [SetOption s n v])"

definition cli_steps :: "cli_args \<Rightarrow> conf_step list" where
  "cli_steps a = opt_step ''projects.cache'' ''rootdir'' (a_rootdir a) @ opt_step ''server'' ''interfaces'' (a_interfaces a)
     @ opt_step ''server'' ''port'' (map_option int_str (a_port a)) @ opt_step ''server'' ''workers'' (map_option int_str (a_workers a))
     @ opt_step ''logging'' ''level'' (if a_debug a then Some ''DEBUG'' else None)"

lemma run_steps_append: "run_steps (xs @ ys) c = rbind (run_steps xs c) (run_steps ys)"
proof (induction xs arbitrary: c)
  case (Cons x xs)
  show ?case by (cases "run_step x c") (simp_all add: Cons)
qed simp

lemma run_opt_step: "run_steps (opt_step s n a) c = set_arg s n a c"
  by (cases a; cases "parser_set s n (the a) c") (simp_all add: opt_step_def set_arg_def service_set_def)

lemma override_steps: "override_config a c = run_steps (cli_steps a) c"
proof -
  have e: "(if a_debug a then service_set ''logging'' ''level'' ''DEBUG'' x else Inr x)
      = set_arg ''logging'' ''level'' (if a_debug a then Some ''DEBUG'' else None) x" for x
    by (simp add: set_arg_def)
  show ?thesis unfolding override_config_def cli_steps_def run_steps_append run_opt_step e ..
qed

lemma last_set_append: "last_set (xs @ ys) s n = first_set [last_set ys s n, last_set xs s n]"
  by (induction xs) (auto simp: first_set2 split: option.split)

lemma last_set_opt_step: "last_set (opt_step s' n' a) s n = (if s' = s \<and> n' = n then a else None)"
  by (cases a) (simp_all add: opt_step_def)

lemma last_set_cli: "last_set (cli_steps a) s n = cli_setting a s n"
  unfolding cli_steps_def last_set_append last_set_opt_step cli_setting_def
  by (auto simp: first_set2 split: option.split)

lemma int_str_plain: "CHR ''$'' \<notin> set (int_str i)"
proof -
  have "\<not> is_digit CHR ''$''" by (simp add: is_digit_def)
  then have "CHR ''$'' \<notin> set (nat_str n)" for n using nat_str_digits [of n] by (auto simp: list_all_iff)
  then show ?thesis by (simp add: int_str_def)
qed

lemma steps_ok_opt_step:
  "s \<in> set ss \<Longrightarrow> s \<noteq> ''DEFAULT'' \<Longrightarrow> plain_value a \<Longrightarrow> steps_ok ss (opt_step s n a @ sts) = steps_ok ss sts"
  by (cases a) (simp_all add: opt_step_def plain_value_def)

lemma cli_steps_ok:
  "{''projects.cache'', ''server'', ''logging''} \<subseteq> set ss \<Longrightarrow> plain_value (a_rootdir a) \<Longrightarrow> plain_value (a_interfaces a) \<Longrightarrow>
     steps_ok ss (cli_steps a)"
proof -
  have p: "plain_value (map_option int_str x)" for x :: "int option"
    by (cases x) (auto simp: plain_value_def int_str_plain)
  have q: "plain_value (if a_debug a then Some ''DEBUG'' else None)" by (simp add: plain_value_def)
  have r: "steps_ok ss (opt_step s n b)" if "s \<in> set ss" "s \<noteq> ''DEFAULT''" "plain_value b" for s n b
    using steps_ok_opt_step [OF that, of n "[]"] by simp
  assume "{''projects.cache'', ''server'', ''logging''} \<subseteq> set ss" "plain_value (a_rootdir a)" "plain_value (a_interfaces a)"
  then show ?thesis
    unfolding cli_steps_def by (simp add: steps_ok_opt_step r p q)
qed

lemma raw_get_section: "raw_get c s n = Some v \<Longrightarrow> s \<noteq> ''DEFAULT'' \<Longrightarrow> service_contains s c"
  by (auto simp: raw_get_def service_contains_def has_section_def od_has_def split: if_splits option.splits)

lemma proxy_get_plain:
  assumes "raw_get c s n = Some v" "s \<noteq> ''DEFAULT''" "CHR ''$'' \<notin> set v" "conv v = Inr x"
  shows "proxy_get conv c s n = Inr (Some x)"
  using parser_get_plain [OF assms(1,3)] raw_get_section [OF assms(1,2)] assms(4)
  by (simp add: proxy_get_def parser_conv_def)

lemma section_of_steps: "run_steps sts c = Inr c' \<Longrightarrow> AddSection s \<in> set sts \<Longrightarrow> has_section c' s"
proof -
  have keep: "has_section c s \<Longrightarrow> run_steps sts c = Inr c' \<Longrightarrow> has_section c' s" for sts c c'
  proof (induction sts arbitrary: c)
    case (Cons st sts)
    then obtain c1 where c1: "run_step st c = Inr c1" "run_steps sts c1 = Inr c'" by auto
    then have "has_section c1 s"
      using Cons.prems(1) by (cases st)
        (auto simp: parser_add_section_def has_section_def od_has_def dest!: has_section_set split: if_splits)
    then show ?case using Cons.IH c1(2) by blast
  qed simp
  show "run_steps sts c = Inr c' \<Longrightarrow> AddSection s \<in> set sts \<Longrightarrow> has_section c' s"
  proof (induction sts arbitrary: c)
    case (Cons st sts)
    then obtain c1 where c1: "run_step st c = Inr c1" "run_steps sts c1 = Inr c'" by auto
    show ?case
    proof (cases "st = AddSection s")
      case True
      then have "has_section c1 s"
        using c1(1) by (auto simp: parser_add_section_def has_section_def od_has_def split: if_splits)
      then show ?thesis using keep c1(2) by blast
    next
      case False
      then show ?thesis using Cons.IH [OF c1(2)] Cons.prems by simp
    qed
  qed simp
qed

lemma load_sections:
  "AddSection ''projects.cache'' \<in> set (load_steps env)" "AddSection ''server'' \<in> set (load_steps env)"
  "AddSection ''logging'' \<in> set (load_steps env)" "AddSection ''management'' \<in> set (load_steps env)"
  by (simp_all add: load_steps_def cache_steps_def server_steps_def logging_steps_def management_steps_def)

text \<open>Loading, reading the file and overriding always succeed on plain values.\<close>

lemma load_ok:
  assumes "\<forall>n. plain_value (env n)" "c_defaults c0 = []"
  obtains c where "load_configuration env c0 = Inr c" "c_defaults c = []"
    "\<And>s n. raw_get c s n = default_setting env s n"
proof -
  have "\<exists>c'. run_steps (load_steps env) (parser_clear c0) = Inr c' \<and> c_defaults c' = []
        \<and> (\<forall>s. has_section (parser_clear c0) s \<longrightarrow> has_section c' s)
        \<and> (\<forall>s n. raw_get c' s n = first_set [last_set (load_steps env) s n, raw_get (parser_clear c0) s n])"
    by (rule run_steps_ok [OF load_steps_ok])
      (use assms in \<open>auto simp: parser_clear_def has_section_def od_has_def\<close>)
  then obtain c where c: "run_steps (load_steps env) (parser_clear c0) = Inr c" "c_defaults c = []"
      "\<And>s n. raw_get c s n = first_set [last_set (load_steps env) s n, raw_get (parser_clear c0) s n]"
    by blast
  moreover have "raw_get (parser_clear c0) s n = None" for s n
    using assms(2) by (simp add: raw_get_def parser_clear_def)
  ultimately show ?thesis
    using that [of c] by (simp add: load_configuration_def default_setting_def first_set2 split: option.split)
qed

lemma override_ok:
  assumes "has_section c ''projects.cache''" "has_section c ''server''" "has_section c ''logging''" "c_defaults c = []"
    "plain_value (a_rootdir a)" "plain_value (a_interfaces a)"
  obtains c' where "override_config a c = Inr c'" "\<And>s n. raw_get c' s n = first_set [cli_setting a s n, raw_get c s n]"
proof -
  have "steps_ok (od_keys (c_sections c)) (cli_steps a)"
    by (rule cli_steps_ok) (use assms in \<open>auto simp: has_section_def od_has_iff\<close>)
  then have "\<exists>c'. run_steps (cli_steps a) c = Inr c' \<and> c_defaults c' = []
        \<and> (\<forall>s. has_section c s \<longrightarrow> has_section c' s)
        \<and> (\<forall>s n. raw_get c' s n = first_set [last_set (cli_steps a) s n, raw_get c s n])"
    by (rule run_steps_ok) (use assms(4) in \<open>auto simp: has_section_def od_has_iff\<close>)
  then show ?thesis using that by (auto simp: override_steps last_set_cli)
qed

lemma merged_configuration:
  assumes "\<forall>n. plain_value (env n)" "plain_value (a_rootdir a)" "plain_value (a_interfaces a)"
    and "c_defaults c0 = []" "''DEFAULT'' \<notin> fst ` set f"
  obtains c c' where "load_configuration env c0 = Inr c" "override_config a (parser_read f c) = Inr c'"
    "\<And>s n. raw_get c' s n = first_set [cli_setting a s n, file_setting f s n, default_setting env s n]"
proof -
  obtain c where c: "load_configuration env c0 = Inr c" "c_defaults c = []" "\<And>s n. raw_get c s n = default_setting env s n"
    by (rule load_ok [OF assms(1,4)]) blast
  have run: "run_steps (load_steps env) (parser_clear c0) = Inr c" using c(1) by (simp add: load_configuration_def)
  have r: "c_defaults (parser_read f c) = []" "\<And>s. has_section c s \<Longrightarrow> has_section (parser_read f c) s"
      "\<And>s n. raw_get (parser_read f c) s n = first_set [file_setting f s n, raw_get c s n]"
    using parser_read_spec [OF assms(5) c(2)] by auto
  obtain c' where c': "override_config a (parser_read f c) = Inr c'"
      "\<And>s n. raw_get c' s n = first_set [cli_setting a s n, raw_get (parser_read f c) s n]"
    by (rule override_ok [of "parser_read f c" a])
      (use section_of_steps [OF run] load_sections r(1,2) assms(2,3) in auto)
  show ?thesis
    by (rule that [OF c(1) c'(1)]) (simp add: c'(2) r(3) c(3) first_set3)
qed

text \<open>A group of steps concerns one section; the defaults of a section are those of its group.\<close>

definition sets_other :: "string \<Rightarrow> conf_step \<Rightarrow> bool" where
  "sets_other s st = (case st of AddSection _ \<Rightarrow> True | SetOption s' _ _ \<Rightarrow> s' \<noteq> s)"

lemma last_set_other: "list_all (sets_other s) sts \<Longrightarrow> last_set sts s n = None"
  by (induction sts) (auto simp: sets_other_def split: conf_step.splits)

lemma group_sections:
  "s \<noteq> ''server'' \<Longrightarrow> list_all (sets_other s) (server_steps env)"
  "s \<noteq> ''logging'' \<Longrightarrow> list_all (sets_other s) (logging_steps env)"
  "s \<noteq> ''api.endpoints'' \<Longrightarrow> list_all (sets_other s) (endpoint_steps env)"
  "s \<noteq> ''api.enabled'' \<Longrightarrow> list_all (sets_other s) (api_enabled_steps env)"
  "s \<noteq> ''api:landing_page'' \<Longrightarrow> list_all (sets_other s) landing_steps"
  "s \<noteq> ''projects.cache'' \<Longrightarrow> list_all (sets_other s) (cache_steps env)"
  "list_all (sets_other s) scheme_steps"
  "s \<noteq> ''zmq'' \<Longrightarrow> list_all (sets_other s) (zmq_steps env)"
  "s \<noteq> ''monitor:amqp'' \<Longrightarrow> list_all (sets_other s) (amqp_steps env)"
  "s \<noteq> ''management'' \<Longrightarrow> list_all (sets_other s) (management_steps env)"
  "s \<noteq> ''metadata'' \<Longrightarrow> list_all (sets_other s) metadata_steps"
  by (simp_all add: sets_other_def server_steps_def logging_steps_def endpoint_steps_def api_enabled_steps_def landing_steps_def
    cache_steps_def scheme_steps_def zmq_steps_def amqp_steps_def management_steps_def metadata_steps_def)

lemma group_defaults:
  "default_setting env ''server'' n = last_set (server_steps env) ''server'' n"
  "default_setting env ''logging'' n = last_set (logging_steps env) ''logging'' n"
  "default_setting env ''projects.cache'' n = last_set (cache_steps env) ''projects.cache'' n"
  "default_setting env ''zmq'' n = last_set (zmq_steps env) ''zmq'' n"
  "default_setting env ''management'' n = last_set (management_steps env) ''management'' n"
  by (simp_all add: default_setting_def load_steps_def last_set_append last_set_other group_sections first_set2 split: option.split)

lemma port_default: "default_setting env ''server'' ''port'' = Some (getenv env ''QGSRV_SERVER_HTTP_PORT'' ''8080'')"
  by (simp add: group_defaults server_steps_def)

text \<open>
  C22: Every option has the value of the first of these that gives one: the command line, the
  configuration file, the environment and built-in defaults. Merging them cannot fail when no
  value of the environment or of the command line holds a dollar sign, and the port, worker count
  and interfaces of the command line are the ones the server starts with.
\<close>

theorem configuration_precedence:
  assumes "\<forall>n. plain_value (env n)" "plain_value (a_rootdir a)" "plain_value (a_interfaces a)"
    and "c_defaults c0 = []" "''DEFAULT'' \<notin> fst ` set f"
  shows "\<exists>c c'. load_configuration env c0 = Inr c \<and> override_config a (parser_read f c) = Inr c'
     \<and> (\<forall>s n. raw_get c' s n = first_set [cli_setting a s n, file_setting f s n, default_setting env s n])
     \<and> default_setting env ''server'' ''port'' = Some (getenv env ''QGSRV_SERVER_HTTP_PORT'' ''8080'')
     \<and> (\<forall>p w i. a_port a = Some p \<and> a_workers a = Some w \<and> a_interfaces a = Some i \<longrightarrow>
           read_configuration env (Some f) a c0 = Inr (c', Some p, Some w, Some i))"
proof -
  obtain c c' where c: "load_configuration env c0 = Inr c" "override_config a (parser_read f c) = Inr c'"
      "\<And>s n. raw_get c' s n = first_set [cli_setting a s n, file_setting f s n, default_setting env s n]"
    by (rule merged_configuration [OF assms]) blast
  have r: "read_settings c' = Inr (Some p, Some w, Some i)"
    if "a_port a = Some p" "a_workers a = Some w" "a_interfaces a = Some i" for p w i
    unfolding read_settings_def
    using proxy_get_plain [of c' "''server''" "''port''" "int_str p" py_int p]
      proxy_get_plain [of c' "''server''" "''workers''" "int_str w" py_int w]
      proxy_get_plain [of c' "''server''" "''interfaces''" i Inr i] assms(3) that
    by (simp add: c(3) cli_setting_def int_str_plain plain_value_def)
  show ?thesis
    using c r port_default by (intro exI [of _ c] exI [of _ c']) (simp add: read_configuration_def)
qed

definition town_args :: cli_args where
  "town_args = \<lparr>a_debug = False, a_proxy = False, a_setuid = [], a_rootdir = Some ''/srv'',
     a_interfaces = Some ''127.0.0.1'', a_port = Some 9090, a_workers = Some 4\<rparr>"

definition town_env :: environ where
  "town_env n = (if n = ''QGSRV_SERVER_HTTP_PORT'' then Some ''8888'' else None)"

theorem configuration_precedence_witness:
  "\<exists>c. read_configuration town_env (Some [(''server'', [(''port'', ''7070''), (''timeout'', ''5'')])]) town_args empty_config
       = Inr (c, Some 9090, Some 4, Some ''127.0.0.1'')
     \<and> raw_get c ''server'' ''timeout'' = Some ''5''"
proof -
  have e: "\<forall>n. plain_value (town_env n)" by (simp add: town_env_def plain_value_def)
  show ?thesis
    using configuration_precedence [of town_env town_args empty_config "[(''server'', [(''port'', ''7070''), (''timeout'', ''5'')])]", OF e]
    by (auto simp: town_args_def plain_value_def empty_config_def cli_setting_def)
qed

end
