(* ===== verification/ComponentManager.thy ===== *)
theory ComponentManager
  imports Prelude
begin

text \<open>
  \<open>src/pyqgisservercontrib/core/componentmanager.py\<close> (factories, services and entry
  points) and \<open>src/pyqgisserver/utils/decorators.py\<close> (\<open>singleton\<close>,
  \<open>once\<close>, \<open>lazy_property\<close>). A factory is what calling it gives at a moment: a
  function of a clock, so that two calls may give different objects. The entry points that
  \<open>importlib.metadata\<close> lists are a parameter.
\<close>

section \<open>Factories and services\<close>

record 'a factory_entry =
  fe_create :: "nat \<Rightarrow> 'a result"
  fe_service :: "'a option"

type_synonym 'a components = "(string, 'a factory_entry) odict"

definition register_factory :: "string \<Rightarrow> (nat \<Rightarrow> 'a result) option \<Rightarrow> 'a components \<Rightarrow> 'a components result" where
  "register_factory cid factory cs = (case factory of
      None \<Rightarrow> Inl ValueError
    | Some f \<Rightarrow> Inr (od_set cid \<lparr>fe_create = f, fe_service = None\<rparr> cs))"

definition register_service :: "string \<Rightarrow> 'a option \<Rightarrow> 'a components \<Rightarrow> 'a components" where
  "register_service cid service cs =
     od_set cid \<lparr>fe_create = (\<lambda>_. Inl NoRegisteredFactoryError), fe_service = service\<rparr> cs"

definition create_instance :: "nat \<Rightarrow> string \<Rightarrow> 'a components \<Rightarrow> 'a result" where
  "create_instance now cid cs = (case od_get cs cid of
      None \<Rightarrow> Inl FactoryNotFoundError
    | Some fe \<Rightarrow> fe_create fe now)"

definition get_service :: "nat \<Rightarrow> string \<Rightarrow> 'a components \<Rightarrow> 'a result \<times> 'a components" where
  "get_service now cid cs = (case od_get cs cid of
      None \<Rightarrow> (Inl FactoryNotFoundError, cs)
    | Some fe \<Rightarrow> (case fe_service fe of
          Some s \<Rightarrow> (Inr s, cs)
        | None \<Rightarrow> (case fe_create fe now of
              Inl e \<Rightarrow> (Inl e, cs)
            | Inr s \<Rightarrow> (Inr s, od_set cid (fe\<lparr>fe_service := Some s\<rparr>) cs))))"

text \<open>The global manager starts empty. The decorators register an object and return it unchanged.\<close>

definition components_init :: "'a components" where
  "components_init = []"

definition service_decorator :: "string \<Rightarrow> 'a \<Rightarrow> 'a components \<Rightarrow> 'a \<times> 'a components" where
  "service_decorator cid obj cs = (obj, register_service cid (Some obj) cs)"

definition factory_decorator :: "string \<Rightarrow> (nat \<Rightarrow> 'a result) \<Rightarrow> 'a components \<Rightarrow> (nat \<Rightarrow> 'a result) result \<times> 'a components" where
  "factory_decorator cid obj cs = (case register_factory cid (Some obj) cs of
      Inl e \<Rightarrow> (Inl e, cs) | Inr cs' \<Rightarrow> (Inr obj, cs'))"

section \<open>Entry points\<close>

record 'a entry_point =
  ep_group :: string
  ep_name :: string
  ep_load :: "'a result"

definition entry_points :: "'a entry_point list \<Rightarrow> string \<Rightarrow> string option \<Rightarrow> 'a entry_point list" where
  "entry_points eps category name = filter (\<lambda>ep. ep_group ep = category
     \<and> (case name of None \<Rightarrow> True | Some n \<Rightarrow> n = [] \<or> ep_name ep = n)) eps"

definition load_entrypoint :: "'a entry_point list \<Rightarrow> string \<Rightarrow> string \<Rightarrow> 'a result" where
  "load_entrypoint eps category name = (case entry_points eps category (Some name) of
      [] \<Rightarrow> Inl EntryPointNotFoundError
    | ep # _ \<Rightarrow> ep_load ep)"

text \<open>
  \<open>register_entrypoints\<close>: every entry point of the category is loaded and called on the
  state; the first failure leaves, with the effects so far.
\<close>

fun call_entrypoints :: "('s \<Rightarrow> unit result \<times> 's) entry_point list \<Rightarrow> 's \<Rightarrow> unit result \<times> 's" where
  "call_entrypoints [] s = (Inr (), s)"
| "call_entrypoints (ep # eps) s = (case ep_load ep of
      Inl e \<Rightarrow> (Inl e, s)
    | Inr f \<Rightarrow> (case f s of (Inl e, s') \<Rightarrow> (Inl e, s') | (Inr _, s') \<Rightarrow> call_entrypoints eps s'))"

definition register_entrypoints :: "('s \<Rightarrow> unit result \<times> 's) entry_point list \<Rightarrow> string \<Rightarrow> 's \<Rightarrow> unit result \<times> 's" where
  "register_entrypoints eps category s = call_entrypoints (entry_points eps category None) s"

section \<open>Evaluation at most once\<close>

text \<open>\<open>singleton\<close>, \<open>once\<close> and \<open>lazy_property\<close>: a memory cell that the first call fills.\<close>

fun once_call :: "'a result \<Rightarrow> 'a option \<Rightarrow> 'a result \<times> 'a option" where
  "once_call r (Some v) = (Inr v, Some v)"
| "once_call (Inl e) None = (Inl e, None)"
| "once_call (Inr v) None = (Inr v, Some v)"

text \<open>A decorated class is instantiated with the arguments of the first call that succeeds.\<close>

definition singleton_call :: "('r \<Rightarrow> 'a result) \<Rightarrow> 'r \<Rightarrow> 'a option \<Rightarrow> 'a result \<times> 'a option" where
  "singleton_call decorated args inst = (case inst of
      Some v \<Rightarrow> (Inr v, inst)
    | None \<Rightarrow> (case decorated args of Inl e \<Rightarrow> (Inl e, None) | Inr v \<Rightarrow> (Inr v, Some v)))"

definition lazy_get :: "string \<Rightarrow> 'a result \<Rightarrow> (string, 'a) odict \<Rightarrow> 'a result \<times> (string, 'a) odict" where
  "lazy_get name r attrs = (case once_call r (od_get attrs name) of
      (Inl e, _) \<Rightarrow> (Inl e, attrs)
    | (Inr v, _) \<Rightarrow> (Inr v, if od_has name attrs then attrs else od_set name v attrs))"

section \<open>A cell that is filled once\<close>

text \<open>
  The contract of the three: after a value was returned, every later call returns it, whatever
  the underlying call would give then.
\<close>

locale memo =
  fixes call :: "'r \<Rightarrow> 's \<Rightarrow> 'a result \<times> 's"
  assumes stable: "call r s = (Inr v, s') \<Longrightarrow> call q s' = (Inr v, s')"
begin

lemma stable_run: "call r s = (Inr v, s') \<Longrightarrow> snd (call q (foldl (\<lambda>t p. snd (call p t)) s' ps)) = s'"
proof (induction ps)
  case Nil
  then show ?case using stable [of r s v s' q] by simp
next
  case (Cons p ps)
  then have "call p s' = (Inr v, s')" by (intro stable)
  with Cons show ?case by simp
qed

end

interpretation once: memo once_call
proof
  show "once_call r s = (Inr v, s') \<Longrightarrow> once_call q s' = (Inr v, s')" for r s v s' q
    by (cases "(r, s)" rule: once_call.cases) auto
qed

interpretation singleton: memo "singleton_call decorated"
  by unfold_locales (auto simp: singleton_call_def split: option.splits sum.splits)

interpretation lazy: memo "\<lambda>r attrs. lazy_get name r attrs"
proof
  show "lazy_get name r s = (Inr v, s') \<Longrightarrow> lazy_get name q s' = (Inr v, s')" for r s v s' q
    by (cases "(r, od_get s name)" rule: once_call.cases) (auto simp: lazy_get_def od_has_def)
qed

interpretation service: memo "\<lambda>now cs. get_service now cid cs"
proof
  show "get_service r cid s = (Inr v, s') \<Longrightarrow> get_service q cid s' = (Inr v, s')" for q r s v s'
    by (auto simp: get_service_def split: option.splits sum.splits)
qed

text \<open>A decorated factory gives its service at the next request, and always the same one.\<close>

lemma decorated_factory_served:
  assumes "factory_decorator cid f cs = (Inr g, cs')" and "f now = Inr s"
  shows "g = f \<and> fst (get_service now cid cs') = Inr s
    \<and> fst (get_service later cid (snd (get_service now cid cs'))) = Inr s"
  using assms by (auto simp: factory_decorator_def register_factory_def get_service_def)

lemma decorated_service_served: "fst (get_service now cid (snd (service_decorator cid obj cs))) = Inr obj"
  by (simp add: service_decorator_def register_service_def get_service_def)

end
