(* ===== verification/Observer.thy ===== *)
theory Observer
  imports CacheManager Config ComponentManager
begin

text \<open>
  \<open>src/pyqgisserver/qgscache/observer.py\<close> with its two observers: workers push their cache
  updates, the server keeps the last one of each key and notifies the observers of newer ones.
  The server is a step relation on the events of its socket; notifications are kept as a trace.
\<close>

section \<open>The worker side\<close>

type_synonym update_msg = "int \<times> string \<times> int \<times> update_state"

text \<open>A send that the socket refuses is dropped (\<open>EAGAIN\<close>) or logged.\<close>

definition observer_send :: "bool \<Rightarrow> int \<Rightarrow> string \<times> int \<times> update_state \<Rightarrow> update_msg list" where
  "observer_send ok pid data = (if ok then [(pid, data)] else [])"

definition client_observe :: "bool \<Rightarrow> int \<Rightarrow> string \<Rightarrow> int \<Rightarrow> update_state \<Rightarrow> update_msg list" where
  "client_observe ok pid key t st = observer_send ok pid (key, t, st)"

section \<open>Declaration and loading\<close>

definition observer_names :: "string \<Rightarrow> string list" where
  "observer_names v = filter (\<lambda>n. n \<noteq> []) (map py_strip (split_on CHR '','' v))"

text \<open>\<open>declare_observers\<close>: the names, whether the server runs at all, and the option it sets.\<close>

definition declare_observers :: "environ \<Rightarrow> config \<Rightarrow> (string list \<times> bool \<times> config) result" where
  "declare_observers env c =
     (case conf_get env ''projects.cache'' ''observers'' (Some []) c of
        (Inl e, _) \<Rightarrow> Inl e
      | (Inr v, c1) \<Rightarrow>
          (let names = observer_names v in
           case (if names \<noteq> [] then (Inr True, c1) else conf_getboolean env ''management'' ''enabled'' None c1) of
             (Inl e, _) \<Rightarrow> Inl e
           | (Inr enabled, c2) \<Rightarrow>
               rbind (service_set ''projects.cache'' ''has_observers'' (if enabled then ''yes'' else ''no'') c2)
                 (\<lambda>c3. Inr (names, enabled, c3))))"

text \<open>
  An observer: \<open>init\<close> may fail (the first failure that is not a missing entry point ends the
  start); \<open>observe\<close> may raise, which is logged.
\<close>

record cache_observer =
  ob_name :: string
  ob_init :: "unit result"

fun load_observers :: "cache_observer entry_point list \<Rightarrow> string list \<Rightarrow> cache_observer list result" where
  "load_observers eps [] = Inr []"
| "load_observers eps (n # ns) =
     (case load_entrypoint eps ''py_qgis_server.cache.observers'' n of
        Inl e \<Rightarrow> if e = EntryPointNotFoundError then load_observers eps ns else Inl e
      | Inr ob \<Rightarrow> rbind (ob_init ob) (\<lambda>_. rbind (load_observers eps ns) (\<lambda>obs. Inr (ob # obs))))"

section \<open>The server\<close>

record obs_server =
  os_observers :: "cache_observer list"
  os_enabled :: bool
  os_stopped :: bool
  os_last :: "(string, int \<times> update_state) odict"
  os_notes :: "(string \<times> string \<times> int \<times> bool) list"

definition obs_server_init :: "cache_observer entry_point list \<Rightarrow> string list \<Rightarrow> bool \<Rightarrow> obs_server result" where
  "obs_server_init eps names enabled =
     rbind (load_observers eps names) (\<lambda>obs. Inr
       \<lparr>os_observers = obs, os_enabled = enabled, os_stopped = True, os_last = [], os_notes = []\<rparr>)"

text \<open>\<open>run\<close>: the task is started only when the server is enabled.\<close>

definition obs_start :: "obs_server \<Rightarrow> obs_server" where
  "obs_start s = (if os_enabled s then s\<lparr>os_stopped := False\<rparr> else s)"

definition obs_notify :: "string \<Rightarrow> int \<Rightarrow> update_state \<Rightarrow> obs_server \<Rightarrow> obs_server" where
  "obs_notify key t st s =
     s\<lparr>os_notes := os_notes s @ map (\<lambda>ob. (ob_name ob, key, t, st = Inserted)) (os_observers s)\<rparr>"

text \<open>Lines 148--163: an update of an unknown key, or one newer than the last, is notified.\<close>

definition handle_update :: "string \<Rightarrow> int \<Rightarrow> update_state \<Rightarrow> obs_server \<Rightarrow> obs_server" where
  "handle_update key t st s =
     (let do_notify = (case od_get (os_last s) key of Some (t', _) \<Rightarrow> t' < t | None \<Rightarrow> True);
          s' = s\<lparr>os_last := od_set key (t, st) (os_last s)\<rparr>
      in if do_notify then obs_notify key t st s' else s')"

definition obs_stop :: "obs_server \<Rightarrow> obs_server" where
  "obs_stop s = (if os_stopped s then s else s\<lparr>os_stopped := True\<rparr>)"

definition obs_find :: "obs_server \<Rightarrow> string \<Rightarrow> (int \<times> update_state) option" where
  "obs_find s key = od_get (os_last s) key"

definition obs_items :: "obs_server \<Rightarrow> (string \<times> int \<times> update_state) list" where
  "obs_items s = os_last s"

datatype obs_event = Update update_msg | SocketError | Stop

text \<open>One turn of \<open>_run_async\<close>, or a call of \<open>stop\<close>; a stopped server reads nothing.\<close>

inductive obs_step :: "obs_server \<Rightarrow> obs_event \<Rightarrow> obs_server \<Rightarrow> bool" where
  received: "\<not> os_stopped s \<Longrightarrow> obs_step s (Update (pid, key, t, st)) (handle_update key t st s)"
| failed: "\<not> os_stopped s \<Longrightarrow> obs_step s SocketError s"
| stopped: "obs_step s Stop (obs_stop s)"

inductive obs_run :: "obs_server \<Rightarrow> obs_event list \<Rightarrow> obs_server \<Rightarrow> bool" where
  refl: "obs_run s [] s"
| step: "obs_run s es s' \<Longrightarrow> obs_step s' e s'' \<Longrightarrow> obs_run s (es @ [e]) s''"

code_pred obs_step .

inductive_cases obs_stepE: "obs_step s e s'"
inductive_simps obs_step_update: "obs_step s (Update (pid, key, t, st)) s'"
inductive_simps obs_step_error: "obs_step s SocketError s'"
inductive_simps obs_step_stop: "obs_step s Stop s'"

lemmas obs_step_simps = obs_step_update obs_step_error obs_step_stop

section \<open>The built-in observers\<close>

record ban_request =
  br_address :: string
  br_method :: string
  br_headers :: "(string, string) odict"

definition ban_init :: "environ \<Rightarrow> config \<Rightarrow> string result \<times> config" where
  "ban_init env c = (case service_add_section ''cache.observers:ban'' c of
      Inl e \<Rightarrow> (Inl e, c)
    | Inr c' \<Rightarrow> conf_get env ''cache.observers:ban'' ''server_address'' None c')"

definition ban :: "string \<Rightarrow> string \<Rightarrow> ban_request" where
  "ban addr key = \<lparr>br_address = addr, br_method = ''BAN'', br_headers = [(''X-Map-Id'', key)]\<rparr>"

definition ban_observe :: "string \<Rightarrow> string \<Rightarrow> int \<Rightarrow> bool \<Rightarrow> ban_request list" where
  "ban_observe addr key t inserted = [ban addr key]"

definition test_observe ::
  "string \<Rightarrow> int \<Rightarrow> bool \<Rightarrow> (string, string \<times> int \<times> bool) odict \<Rightarrow> (string, string \<times> int \<times> bool) odict" where
  "test_observe key t inserted d = od_set key (key, t, inserted) d"

section \<open>What is notified\<close>

text \<open>The times received for a key, and the ones of them that were notified, in order.\<close>

fun event_time :: "string \<Rightarrow> obs_event \<Rightarrow> int list" where
  "event_time k (Update (pid, key, t, st)) = (if key = k then [t] else [])"
| "event_time k _ = []"

definition received_times :: "string \<Rightarrow> obs_event list \<Rightarrow> int list" where
  "received_times k es = concat (map (event_time k) es)"

definition notified_times :: "string \<Rightarrow> string \<Rightarrow> obs_server \<Rightarrow> int list" where
  "notified_times name k s = map (\<lambda>(_, _, t, _). t) (filter (\<lambda>(n, key, _, _). n = name \<and> key = k) (os_notes s))"

text \<open>The elements of a list that are greater than the one before them.\<close>

fun ascents :: "int option \<Rightarrow> int list \<Rightarrow> int list" where
  "ascents p [] = []"
| "ascents p (t # ts) = (if (case p of None \<Rightarrow> True | Some q \<Rightarrow> q < t) then t # ascents (Some t) ts else ascents (Some t) ts)"

lemma ascents_snoc:
  "ascents p (ts @ [t]) = ascents p ts @
     (case (if ts = [] then p else Some (last ts)) of None \<Rightarrow> [t] | Some q \<Rightarrow> if q < t then [t] else [])"
  by (induction ts arbitrary: p) (auto split: option.split)

lemma ascents_sorted: "sorted ts \<Longrightarrow> (\<forall>t \<in> set ts. q \<le> t) \<Longrightarrow> ascents (Some q) ts = tl (remdups_adj (q # ts))"
proof (induction ts arbitrary: q)
  case (Cons t ts)
  show ?case
  proof (cases "q = t")
    case True
    then show ?thesis using Cons by simp
  next
    case False
    have "remdups_adj (t # ts) = t # tl (remdups_adj (t # ts))"
      by (cases "remdups_adj (t # ts)") (auto dest: arg_cong [where f = hd])
    then show ?thesis using Cons False by (auto simp: less_le)
  qed
qed simp

lemma ascents_sorted_None: "sorted ts \<Longrightarrow> ascents None ts = remdups_adj ts"
proof (cases ts)
  case (Cons t ts')
  have "remdups_adj (t # ts') = t # tl (remdups_adj (t # ts'))"
    by (cases "remdups_adj (t # ts')") (auto dest: arg_cong [where f = hd])
  moreover assume "sorted ts"
  ultimately show ?thesis using ascents_sorted [of ts' t] Cons by simp
qed simp

definition obs_inv :: "obs_server \<Rightarrow> obs_event list \<Rightarrow> obs_server \<Rightarrow> bool" where
  "obs_inv s0 es s \<longleftrightarrow> os_observers s = os_observers s0
     \<and> (\<forall>k. map_option fst (od_get (os_last s) k) =
          (if received_times k es = [] then None else Some (last (received_times k es))))
     \<and> (\<forall>name k. name \<in> ob_name ` set (os_observers s) \<longrightarrow> notified_times name k s = ascents None (received_times k es))"

lemma notified_notify:
  assumes "distinct (map ob_name obs)" "os_observers s = obs" "name \<in> ob_name ` set obs"
  shows "notified_times name k (obs_notify key t st s) = notified_times name k s @ (if key = k then [t] else [])"
proof -
  have "filter (\<lambda>(n, j, _, _). n = name \<and> j = k) (map (\<lambda>ob. (ob_name ob, key, t, st = Inserted)) obs) =
      (if key = k then [(name, key, t, st = Inserted)] else [])"
    using assms(1,3)
  proof (induction obs)
    case (Cons a obs)
    then show ?case by (auto simp: filter_empty_conv) (metis image_eqI)
  qed simp
  then show ?thesis using assms(2) by (auto simp: notified_times_def obs_notify_def)
qed

lemma obs_inv_update:
  assumes inv: "obs_inv s0 es s" and d: "distinct (map ob_name (os_observers s0))"
  shows "obs_inv s0 (es @ [Update (pid, key, t, st)]) (handle_update key t st s)"
proof -
  let ?old = "od_get (os_last s) key"
  define s1 where "s1 = s\<lparr>os_last := od_set key (t, st) (os_last s)\<rparr>"
  define b where "b = (case ?old of Some (t', _) \<Rightarrow> t' < t | None \<Rightarrow> True)"
  have h: "handle_update key t st s = (if b then obs_notify key t st s1 else s1)"
    by (simp add: handle_update_def b_def s1_def Let_def)
  have o: "os_observers s = os_observers s0" "os_observers s1 = os_observers s0"
    using inv by (simp_all add: obs_inv_def s1_def)
  have r: "received_times k (es @ [Update (pid, key, t, st)]) = received_times k es @ (if key = k then [t] else [])" for k
    by (simp add: received_times_def)
  have n1: "notified_times name k s1 = notified_times name k s" for name k
    by (simp add: notified_times_def s1_def)
  have last: "map_option fst (od_get (os_last s) k) =
      (if received_times k es = [] then None else Some (last (received_times k es)))" for k
    using inv by (simp add: obs_inv_def)
  have b': "b = (case (if received_times key es = [] then None else Some (last (received_times key es))) of None \<Rightarrow> True | Some q \<Rightarrow> q < t)"
    unfolding last [symmetric] b_def by (auto split: option.split)
  have nt: "notified_times name k (handle_update key t st s) = ascents None (received_times k es @ (if key = k then [t] else []))"
    if nm: "name \<in> ob_name ` set (os_observers s0)" for name k
  proof -
    have old: "notified_times name k s1 = ascents None (received_times k es)"
      using inv nm o by (simp add: obs_inv_def n1)
    have "notified_times name k (obs_notify key t st s1) = ascents None (received_times k es) @ (if key = k then [t] else [])"
      using notified_notify [OF d, of s1 name k key t st] o nm old by simp
    then show ?thesis
      using old b' unfolding h by (cases "key = k") (auto simp: ascents_snoc split: option.split if_splits)
  qed
  have l: "os_last (handle_update key t st s) = od_set key (t, st) (os_last s)" "os_observers (handle_update key t st s) = os_observers s0"
    using o by (simp_all add: h s1_def obs_notify_def)
  have "map_option fst (od_get (os_last (handle_update key t st s)) k) =
      (if received_times k es @ (if key = k then [t] else []) = [] then None
       else Some (List.last (received_times k es @ (if key = k then [t] else []))))" for k
    using last [of k] unfolding l by (cases "key = k") simp_all
  then show ?thesis
    unfolding obs_inv_def r using nt l(2) by simp
qed

lemma obs_inv_run:
  assumes "obs_run s0 es s" "os_last s0 = []" "os_notes s0 = []" "distinct (map ob_name (os_observers s0))"
  shows "obs_inv s0 es s"
  using assms
proof (induction rule: obs_run.induct)
  case (refl s)
  then show ?case by (simp add: obs_inv_def received_times_def notified_times_def)
next
  case (step s es s' e s'')
  then have inv: "obs_inv s es s'" by simp
  from step.hyps(2) show ?case
  proof (cases rule: obs_step.cases)
    case (received pid key t st)
    then show ?thesis using obs_inv_update [OF inv] step.prems by simp
  next
    case failed
    with inv show ?thesis by (simp add: obs_inv_def received_times_def)
  next
    case stopped
    with inv show ?thesis by (simp add: obs_inv_def received_times_def obs_stop_def notified_times_def)
  qed
qed

lemma strict_remdups_adj: "sorted (ts :: int list) \<Longrightarrow> sorted_wrt (<) (remdups_adj ts)"
  by (induction ts rule: remdups_adj.induct) (auto simp: less_le)

text \<open>
  C26: An observer is notified of an update exactly when it is newer than the update of that key
  received just before, whatever the workers send. When the times received for a key never
  decrease, every modification time is notified once, in order.
\<close>

theorem observer_notifications:
  assumes "obs_run s0 es s" "os_last s0 = []" "os_notes s0 = []"
    and "distinct (map ob_name (os_observers s0))" "name \<in> ob_name ` set (os_observers s0)"
  shows "notified_times name k s = ascents None (received_times k es)
     \<and> (sorted (received_times k es) \<longrightarrow>
          notified_times name k s = remdups_adj (received_times k es) \<and> sorted_wrt (<) (notified_times name k s))"
proof -
  have inv: "obs_inv s0 es s" by (rule obs_inv_run [OF assms(1-4)])
  then have n: "notified_times name k s = ascents None (received_times k es)"
    using assms(5) by (simp add: obs_inv_def)
  then show ?thesis by (simp add: ascents_sorted_None strict_remdups_adj)
qed

definition one_observer :: obs_server where
  "one_observer = \<lparr>os_observers = [\<lparr>ob_name = ''test'', ob_init = Inr ()\<rparr>], os_enabled = True, os_stopped = False, os_last = [], os_notes = []\<rparr>"

text \<open>Three workers report the times 5, 3 and 5 of one key.\<close>

definition late_report :: "obs_event list" where
  "late_report = [Update (11, ''town'', 5, Updated), Update (12, ''town'', 3, Updated), Update (13, ''town'', 5, Updated)]"

lemma obs_run_update:
  "obs_run s0 es s \<Longrightarrow> \<not> os_stopped s \<Longrightarrow> obs_run s0 (es @ [Update (i, k, t, st)]) (handle_update k t st s)"
  by (rule obs_run.step) (auto intro: obs_step.received)

lemma handle_update_stopped: "os_stopped (handle_update k t st s) = os_stopped s"
  by (simp add: handle_update_def obs_notify_def Let_def)

lemma late_report_runs: "\<exists>s. obs_run one_observer late_report s"
proof -
  have l: "\<not> os_stopped one_observer" by (simp add: one_observer_def)
  have "obs_run one_observer ((([] @ [Update (11, ''town'', 5, Updated)]) @ [Update (12, ''town'', 3, Updated)])
        @ [Update (13, ''town'', 5, Updated)])
      (handle_update ''town'' 5 Updated (handle_update ''town'' 3 Updated (handle_update ''town'' 5 Updated one_observer)))"
    by (intro obs_run_update obs_run.refl) (simp_all add: handle_update_stopped l)
  then show ?thesis by (auto simp: late_report_def)
qed

theorem observer_notifications_witness:
  "\<exists>s. obs_run one_observer late_report s \<and> notified_times ''test'' ''town'' s = [5, 5]"
proof -
  obtain s where s: "obs_run one_observer late_report s" using late_report_runs by blast
  have "ascents None (received_times ''town'' late_report) = [5, 5]" by code_simp
  with s show ?thesis
    using observer_notifications [OF s, of "''test''" "''town''"] by (auto simp: one_observer_def)
qed

end
