(* ===== verification/Plugins.thy ===== *)
theory Plugins
  imports Config
begin

text \<open>
  \<open>src/pyqgisserver/plugins.py\<close>: the version check, the scan of the plugin directory, the
  loading of plugins and their metadata. The directory listing, the metadata files and what the
  import of a plugin gives are parameters. The scan is a generator: a plugin is loaded before the
  next directory entry is looked at.
\<close>

section \<open>Versions\<close>

definition pad2 :: "int \<Rightarrow> string" where
  "pad2 i = (let s = int_str i in if length s < 2 then CHR ''0'' # s else s)"

text \<open>The second and third components default to zero; minor versions from 99 on announce the next major.\<close>

fun version_part :: "string list \<Rightarrow> nat \<Rightarrow> int result" where
  "version_part vs i = (if i < length vs then py_int (vs ! i) else Inr 0)"

definition to_int :: "string \<Rightarrow> int result" where
  "to_int ver =
     (let parts = split_on CHR ''.'' ver in
      rbind (py_int (hd parts)) (\<lambda>major.
      rbind (version_part (tl parts) 0) (\<lambda>minor.
      rbind (version_part (tl parts) 1) (\<lambda>rev.
        let (major, minor, rev) = (if 99 \<le> minor then (major + 1, 0, 0) else (major, minor, rev));
            rev = (if 99 < rev then 99 else rev)
        in py_int (int_str major @ pad2 minor @ pad2 rev)))))"

definition opt_version :: "string option \<Rightarrow> int \<Rightarrow> int result" where
  "opt_version v dflt = (case v of None \<Rightarrow> Inr dflt | Some s \<Rightarrow> if s = [] then Inr dflt else to_int s)"

definition checkQgisVersion :: "string \<Rightarrow> string option \<Rightarrow> string option \<Rightarrow> bool result" where
  "checkQgisVersion qgis_version minver maxver =
     rbind (to_int (before CHR ''-'' qgis_version)) (\<lambda>version.
     rbind (opt_version minver version) (\<lambda>mn.
     rbind (opt_version maxver version) (\<lambda>mx. Inr (mn \<le> version \<and> version \<le> mx))))"

section \<open>The plugin directory\<close>

text \<open>
  An entry of the directory. \<open>pd_general\<close> is the section \<open>general\<close> of its metadata
  file, or the exception of reading it; \<open>pd_init\<close> what importing it and calling its
  \<open>serverClassFactory\<close> gives.
\<close>

record 'p plugin_dir =
  pd_name :: string
  pd_is_dir :: bool
  pd_has_metadata :: bool
  pd_has_init :: bool
  pd_general :: "options result"
  pd_init :: "'p result"

definition plugin_versions :: "'p plugin_dir \<Rightarrow> (string option \<times> string option) option result" where
  "plugin_versions d = rbind (pd_general d) (\<lambda>g.
     rbind (case od_get g ''server'' of None \<Rightarrow> Inr False | Some v \<Rightarrow> to_bool v) (\<lambda>server.
       Inr (if server then Some (od_get g ''qgisMinimumVersion'', od_get g ''qgisMaximumVersion'') else None)))"

text \<open>One turn of \<open>find_plugins\<close>: whether the entry is yielded.\<close>

definition find_plugin :: "string \<Rightarrow> 'p plugin_dir \<Rightarrow> bool result" where
  "find_plugin qv d =
     (if \<not> pd_is_dir d then Inr False
      else if \<not> pd_has_metadata d then Inr False
      else if \<not> pd_has_init d then Inr False
      else case plugin_versions d of
        Inl e \<Rightarrow> Inr False
      | Inr None \<Rightarrow> Inr False
      | Inr (Some (mn, mx)) \<Rightarrow> checkQgisVersion qv mn mx)"

record 'p plugins =
  pl_loaded :: "(string, 'p) odict"
  pl_failed :: "(string, exn) odict"

definition load_plugin :: "'p plugin_dir \<Rightarrow> 'p plugins \<Rightarrow> 'p plugins" where
  "load_plugin d ps = (case pd_init d of
      Inl e \<Rightarrow> ps\<lparr>pl_failed := od_set (pd_name d) e (pl_failed ps)\<rparr>
    | Inr p \<Rightarrow> ps\<lparr>pl_loaded := od_set (pd_name d) p (pl_loaded ps)\<rparr>)"

fun load_found :: "string \<Rightarrow> 'p plugin_dir list \<Rightarrow> 'p plugins \<Rightarrow> unit result \<times> 'p plugins" where
  "load_found qv [] ps = (Inr (), ps)"
| "load_found qv (d # ds) ps = (case find_plugin qv d of
      Inl e \<Rightarrow> (Inl e, ps)
    | Inr yielded \<Rightarrow> load_found qv ds (if yielded then load_plugin d ps else ps))"

text \<open>\<open>find_plugins\<close> as the list it yields, and the exception that ends it, if any.\<close>

fun find_plugins :: "string \<Rightarrow> 'p plugin_dir list \<Rightarrow> string list \<times> exn option" where
  "find_plugins qv [] = ([], None)"
| "find_plugins qv (d # ds) = (case find_plugin qv d of
      Inl e \<Rightarrow> ([], Some e)
    | Inr yielded \<Rightarrow> (let (ns, r) = find_plugins qv ds in (if yielded then pd_name d # ns else ns, r)))"

definition load_plugins ::
  "environ \<Rightarrow> config \<Rightarrow> string \<Rightarrow> (string \<Rightarrow> 'p plugin_dir list) \<Rightarrow> 'p plugins \<Rightarrow> unit result \<times> 'p plugins" where
  "load_plugins env c qv dir ps = (case conf_get env ''server'' ''pluginpath'' None c of
      (Inl e, _) \<Rightarrow> (Inl e, ps)
    | (Inr path, _) \<Rightarrow> if path = [] then (Inr (), ps) else load_found qv (dir path) ps)"

text \<open>\<open>plugin_metadata\<close>: \<open>file\<close> is the parsed metadata of a loaded plugin and its path.\<close>

definition plugin_metadata ::
  "(string \<Rightarrow> (string \<times> (string \<times> options) list) option) \<Rightarrow> 'p plugins \<Rightarrow> string \<Rightarrow> ((string \<times> options) list \<times> string) option" where
  "plugin_metadata file ps plugin =
     (if \<not> od_has plugin (pl_loaded ps) then None
      else case file plugin of None \<Rightarrow> None
         | Some (path, sections) \<Rightarrow> Some (filter (\<lambda>(s, _). s \<noteq> ''DEFAULT'') sections, path))"

definition plugin_list :: "'p plugins \<Rightarrow> string list" where
  "plugin_list ps = od_keys (pl_loaded ps)"

section \<open>Versions compare component by component\<close>

lemma digits_val_append: "digits_val (s @ t) = digits_val s * 10 ^ length t + digits_val t"
proof (induction t rule: rev_induct)
  case (snoc c t)
  have "digits_val (s @ t @ [c]) = digits_val ((s @ t) @ [c])" by simp
  also have "\<dots> = 10 * digits_val (s @ t) + (int (of_char c) - 48)" by (rule digits_val_snoc)
  finally show ?case using snoc digits_val_snoc [of t c] by (simp add: algebra_simps)
qed (simp add: digits_val_def)

lemma nat_str_length2: "n < 100 \<Longrightarrow> length (nat_str n) = (if n < 10 then 1 else 2)"
  using nat_str.simps [of n] nat_str.simps [of "n div 10"] by auto

lemma pad2_spec: "0 \<le> i \<Longrightarrow> i < 100 \<Longrightarrow> length (pad2 i) = 2 \<and> list_all is_digit (pad2 i) \<and> digits_val (pad2 i) = i"
proof -
  assume i: "0 \<le> i" "i < 100"
  then have l: "length (int_str i) = (if i < 10 then 1 else 2)"
    using nat_str_length2 [of "nat i"] by (auto simp: int_str_def)
  have d: "list_all is_digit (int_str i)" "digits_val (int_str i) = i"
    using i nat_str_digits digits_val_nat_str by (simp_all add: int_str_def)
  have z: "digits_val (CHR ''0'' # s) = digits_val s" for s by (simp add: digits_val_def)
  show ?thesis using l d by (auto simp: pad2_def Let_def z is_digit_def)
qed

lemma py_int_digits: "s \<noteq> [] \<Longrightarrow> list_all is_digit s \<Longrightarrow> py_int s = Inr (digits_val s)"
proof -
  assume s: "s \<noteq> []" "list_all is_digit s"
  then have h: "is_digit (hd s)" "is_digit (last s)" by (auto simp: list_all_iff)
  have "py_strip s = s"
    unfolding py_strip_def
    by (rule strip_keeps) (use s digit_not_special [OF h(1)] digit_not_special [OF h(2)] in auto)
  then show ?thesis
    using s digit_not_special [OF h(1)] digit_groups_digits [OF s] by (cases s) (auto simp: py_int_def)
qed

definition dotted :: "nat list \<Rightarrow> string" where
  "dotted vs = join_with CHR ''.'' (map nat_str vs)"

text \<open>Three components within their usual bounds give the number of their digits.\<close>

lemma to_int_dotted:
  assumes "b < 99" "c \<le> 99"
  shows "to_int (dotted [a, b, c]) = Inr (int a * 10000 + int b * 100 + int c)"
proof -
  have nodot: "CHR ''.'' \<notin> set (nat_str n)" for n
    using nat_str_digits [of n] by (auto simp: list_all_iff is_digit_def)
  have s: "split_on CHR ''.'' (dotted [a, b, c]) = [nat_str a, nat_str b, nat_str c]"
    unfolding dotted_def by (subst split_join) (use nodot in auto)
  have p: "py_int (nat_str n) = Inr (int n)" for n
    using py_int_int_str [of "int n"] by (simp add: int_str_def)
  have pb: "length (pad2 (int b)) = 2 \<and> list_all is_digit (pad2 (int b)) \<and> digits_val (pad2 (int b)) = int b"
    and pc: "length (pad2 (int c)) = 2 \<and> list_all is_digit (pad2 (int c)) \<and> digits_val (pad2 (int c)) = int c"
    using assms by (auto intro!: pad2_spec)
  have a: "int_str (int a) = nat_str a" by (simp add: int_str_def)
  have "py_int (int_str (int a) @ pad2 (int b) @ pad2 (int c)) = Inr (int a * 10000 + int b * 100 + int c)"
    using py_int_digits [of "nat_str a @ pad2 (int b) @ pad2 (int c)"] pb pc nat_str_digits [of a] digits_val_nat_str [of a]
    by (simp add: a digits_val_append)
  then show ?thesis
    using assms by (simp add: to_int_def s p Let_def)
qed

lemma version_order:
  fixes x y z u v w :: nat
  assumes "y < 99" "z \<le> 99" "v < 99" "w \<le> 99"
  shows "(int x * 10000 + int y * 100 + int z \<le> int u * 10000 + int v * 100 + int w) =
      (x < u \<or> x = u \<and> (y < v \<or> y = v \<and> z \<le> w))"
proof (cases x u rule: linorder_cases)
  case equal
  then show ?thesis using assms by (cases y v rule: linorder_cases) auto
next
  case less
  then have "int x + 1 \<le> int u" by simp
  with less assms show ?thesis by simp
next
  case greater
  then have "int u + 1 \<le> int x" by simp
  with greater assms show ?thesis by simp
qed

text \<open>
  For versions of three components below 99 the check compares component by component: it
  accepts exactly the QGIS versions between the minimum and the maximum in lexicographic order.
\<close>

theorem version_check_lexicographic:
  assumes "b < 99" "c \<le> 99" "b1 < 99" "c1 \<le> 99" "b2 < 99" "c2 \<le> 99"
  shows "checkQgisVersion (dotted [a, b, c] @ ''-Name'') (Some (dotted [a1, b1, c1])) (Some (dotted [a2, b2, c2])) =
     Inr ((a1 < a \<or> a1 = a \<and> (b1 < b \<or> b1 = b \<and> c1 \<le> c)) \<and> (a < a2 \<or> a = a2 \<and> (b < b2 \<or> b = b2 \<and> c \<le> c2)))"
proof -
  have nominus: "CHR ''-'' \<notin> set (dotted [a, b, c])"
    using nat_str_digits set_join_with [of "CHR ''.''" "map nat_str [a, b, c]"]
    by (fastforce simp: dotted_def list_all_iff is_digit_def)
  have bf: "before CHR ''-'' (dotted [a, b, c] @ ''-Name'') = dotted [a, b, c]"
    using before_append_sep [OF nominus, of "''Name''"] by simp
  have ne: "dotted [x, y, z] \<noteq> []" for x y z by (simp add: dotted_def)
  show ?thesis
    using assms by (simp add: checkQgisVersion_def bf opt_version_def ne to_int_dotted version_order)
qed

theorem version_check_lexicographic_witness:
  "checkQgisVersion (dotted [3, 34, 5] @ ''-Name'') (Some (dotted [3, 28, 0])) (Some (dotted [3, 98, 0])) = Inr True"
  using version_check_lexicographic [of 34 5 28 0 98 0 3 3 3] by simp

section \<open>A version that is no number\<close>

definition admissible :: "string \<Rightarrow> 'p plugin_dir \<Rightarrow> bool" where
  "admissible qv d = (find_plugin qv d = Inr True)"

lemma load_found_prefix:
  "\<forall>d \<in> set ds. is_ok (find_plugin qv d) \<Longrightarrow>
     load_found qv (ds @ es) ps = load_found qv es (fold load_plugin (filter (admissible qv) ds) ps)"
proof (induction ds arbitrary: ps)
  case (Cons d ds)
  then obtain y where "find_plugin qv d = Inr y" by (auto simp: is_ok_iff)
  with Cons show ?case by (simp add: admissible_def)
qed simp

text \<open>
  Plugins are loaded in directory order: of the entries before the first one whose version
  entry is no number, exactly the admissible ones are loaded, a failing one being recorded and
  not stopping the others. But that entry raises out of the scan, and of what follows nothing is
  loaded or recorded.
\<close>

theorem plugins_loaded_up_to_bad_version:
  assumes "conf_get env ''server'' ''pluginpath'' None c = (Inr path, c')" "path \<noteq> []"
    and "\<forall>d \<in> set ds. is_ok (find_plugin qv d)"
  shows "(dir path = ds \<longrightarrow> load_plugins env c qv dir ps = (Inr (), fold load_plugin (filter (admissible qv) ds) ps))
     \<and> (\<forall>d es e. dir path = ds @ d # es \<and> find_plugin qv d = Inl e \<longrightarrow>
          load_plugins env c qv dir ps = (Inl e, fold load_plugin (filter (admissible qv) ds) ps))"
  using assms(1,2) load_found_prefix [OF assms(3), of "[]" ps] load_found_prefix [OF assms(3)]
  by (auto simp: load_plugins_def)

definition plugin_at :: "string \<Rightarrow> string \<Rightarrow> nat plugin_dir" where
  "plugin_at name minver = \<lparr>pd_name = name, pd_is_dir = True, pd_has_metadata = True, pd_has_init = True,
     pd_general = Inr [(''server'', ''True''), (''qgisMinimumVersion'', minver)], pd_init = Inr 1\<rparr>"

definition plugin_conf :: config where
  "plugin_conf = \<lparr>c_defaults = [], c_sections = [(''server'', [(''pluginpath'', ''/p'')])]\<rparr>"

theorem plugins_loaded_up_to_bad_version_witness:
  "load_plugins Map.empty plugin_conf ''3.34.5-P'' (\<lambda>_. [plugin_at ''one'' ''3.0'', plugin_at ''two'' ''3.x'', plugin_at ''three'' ''3.0''])
      \<lparr>pl_loaded = [], pl_failed = []\<rparr> = (Inl ValueError, \<lparr>pl_loaded = [(''one'', 1)], pl_failed = []\<rparr>)"
proof -
  have c: "conf_get Map.empty ''server'' ''pluginpath'' None plugin_conf = (Inr ''/p'', plugin_conf)" by code_simp
  have f: "find_plugin ''3.34.5-P'' (plugin_at ''one'' ''3.0'') = Inr True" by code_simp
  have g: "find_plugin ''3.34.5-P'' (plugin_at ''two'' ''3.x'') = Inl ValueError" by code_simp
  show ?thesis
    using plugins_loaded_up_to_bad_version [OF c, of "[plugin_at ''one'' ''3.0'']" "''3.34.5-P''"] f g
    by (simp add: admissible_def load_plugin_def plugin_at_def)
qed

end
