(* ===== verification/Pool.thy ===== *)
theory Pool
  imports Prelude
begin

text \<open>
  \<open>src/pyqgisserver/zeromq/pool.py\<close> and the process that runs it
  (\<open>run_worker_pool\<close> of \<open>src/pyqgisserver/qgspool.py\<close>): the list of worker
  processes, the reaping of exited ones with the early-failure rule, their replacement and their
  termination. The world gives the exit codes, the time in milliseconds and the pids of new
  processes. The signal SIGABRT has its default disposition (nothing in the program changes it):
  it ends the process at once, without the \<open>finally\<close> block.
\<close>

section \<open>The pool\<close>

record wproc =
  w_pid :: int
  w_exit :: "int option"

record pool =
  p_num :: nat
  p_procs :: "wproc list"
  p_start :: int
  p_critical :: bool

definition EARLY_FAILURE_DELAY :: int where
  "EARLY_FAILURE_DELAY = 5000"

definition start_worker :: "int \<Rightarrow> wproc" where
  "start_worker pid = \<lparr>w_pid = pid, w_exit = None\<rparr>"

text \<open>\<open>pids\<close> supplies the pids of the processes that are started.\<close>

definition repopulate_pool :: "int list \<Rightarrow> pool \<Rightarrow> pool" where
  "repopulate_pool pids p =
     p\<lparr>p_procs := p_procs p @ map start_worker (take (p_num p - length (p_procs p)) pids)\<rparr>"

definition pool_init :: "nat \<Rightarrow> int \<Rightarrow> int list \<Rightarrow> pool" where
  "pool_init n now pids = repopulate_pool pids \<lparr>p_num = n, p_procs = [], p_start = now, p_critical = False\<rparr>"

text \<open>
  The loop of \<open>_join_exited_workers\<close> over the pool from its end: what is left, whether a
  worker was cleaned up, and whether the process aborted itself at this point.
\<close>

fun reap :: "int \<Rightarrow> wproc list \<Rightarrow> wproc list \<times> bool \<times> bool" where
  "reap age [] = ([], False, False)"
| "reap age (w # ws) = (case w_exit w of
      None \<Rightarrow> (let (r, c, a) = reap age ws in (w # r, c, a))
    | Some code \<Rightarrow>
        if code \<noteq> 0 \<and> age < EARLY_FAILURE_DELAY then (w # ws, False, True)
        else (let (r, c, a) = reap age ws in (r, True, a)))"

definition join_exited_workers :: "int \<Rightarrow> pool \<Rightarrow> pool \<times> bool \<times> bool" where
  "join_exited_workers now p =
     (let (r, cleaned, aborted) = reap (now - p_start p) (rev (p_procs p))
      in (p\<lparr>p_procs := rev r, p_critical := p_critical p \<or> aborted\<rparr>, cleaned, aborted))"

definition maintain_pool :: "int \<Rightarrow> int list \<Rightarrow> pool \<Rightarrow> pool \<times> bool" where
  "maintain_pool now pids p =
     (let (p', cleaned, aborted) = join_exited_workers now p
      in if aborted then (p', True) else (if cleaned then repopulate_pool pids p' else p', False))"

text \<open>The workers that are sent SIGTERM when the pool is terminated.\<close>

definition terminate_pool :: "pool \<Rightarrow> int list" where
  "terminate_pool p = map w_pid (filter (\<lambda>w. w_exit w = None) (p_procs p))"

definition pool_kill :: "int \<Rightarrow> pool \<Rightarrow> bool" where
  "pool_kill pid p = (find (\<lambda>w. w_pid w = pid) (p_procs p) \<noteq> None)"

section \<open>The pool process\<close>

datatype pool_event = Exits "(int \<times> int) list" | Tick int "int list" | Terminated

datatype pool_proc = Live pool | Ended int "int list"

definition mark_exits :: "(int \<times> int) list \<Rightarrow> pool \<Rightarrow> pool" where
  "mark_exits xs p = p\<lparr>p_procs := map (\<lambda>w. case w_exit w of
      Some c \<Rightarrow> w | None \<Rightarrow> w\<lparr>w_exit := map_of xs (w_pid w)\<rparr>) (p_procs p)\<rparr>"

text \<open>
  \<open>run_worker_pool\<close>: a tick is one turn of its loop. \<open>Ended c ws\<close> is the exit code of
  the process (negative for a signal) and the workers it terminated before.
\<close>

fun pool_step :: "pool_proc \<Rightarrow> pool_event \<Rightarrow> pool_proc" where
  "pool_step (Ended c ws) e = Ended c ws"
| "pool_step (Live p) (Exits xs) = Live (mark_exits xs p)"
| "pool_step (Live p) (Tick now pids) =
     (if p_critical p then Ended 1 (terminate_pool p)
      else let (p', aborted) = maintain_pool now pids p in if aborted then Ended (- 6) [] else Live p')"
| "pool_step (Live p) Terminated = Ended 0 (terminate_pool p)"

definition run_worker_pool :: "nat \<Rightarrow> int \<Rightarrow> int list \<Rightarrow> pool_event list \<Rightarrow> pool_proc" where
  "run_worker_pool n now pids es = foldl pool_step (Live (pool_init n now pids)) es"

section \<open>The number of workers\<close>

text \<open>Ticks that can start as many processes as they have to.\<close>

definition enough_pids :: "nat \<Rightarrow> pool_event \<Rightarrow> bool" where
  "enough_pids n e = (case e of Tick now pids \<Rightarrow> n \<le> length pids | _ \<Rightarrow> True)"

lemma reap_spec:
  "reap age ws = (r, c, a) \<Longrightarrow>
     a = (age < EARLY_FAILURE_DELAY \<and> (\<exists>w \<in> set ws. w_exit w \<noteq> None \<and> w_exit w \<noteq> Some 0))
     \<and> (\<not> a \<longrightarrow> r = filter (\<lambda>w. w_exit w = None) ws \<and> c = (\<exists>w \<in> set ws. w_exit w \<noteq> None))"
  by (induction ws arbitrary: r c a) (auto split: option.splits if_splits prod.splits)

definition failed :: "wproc \<Rightarrow> bool" where
  "failed w \<longleftrightarrow> w_exit w \<noteq> None \<and> w_exit w \<noteq> Some 0"

definition early_failure :: "int \<Rightarrow> pool \<Rightarrow> bool" where
  "early_failure now p \<longleftrightarrow> now - p_start p < EARLY_FAILURE_DELAY \<and> (\<exists>w \<in> set (p_procs p). failed w)"

lemma maintain_pool_spec:
  assumes "maintain_pool now pids p = (p', aborted)"
  shows "aborted = early_failure now p"
    and "\<not> aborted \<Longrightarrow> p_num p' = p_num p \<and> p_start p' = p_start p \<and> p_critical p' = p_critical p"
    and "\<not> aborted \<Longrightarrow> p_procs p' = filter (\<lambda>w. w_exit w = None) (p_procs p) @
       (if \<exists>w \<in> set (p_procs p). w_exit w \<noteq> None
        then map start_worker (take (p_num p - length (filter (\<lambda>w. w_exit w = None) (p_procs p))) pids) else [])"
proof -
  obtain r c a where r: "reap (now - p_start p) (rev (p_procs p)) = (r, c, a)" by (metis prod_cases3)
  note spec = reap_spec [OF r]
  have "maintain_pool now pids p =
      (if a then (p\<lparr>p_procs := rev r, p_critical := p_critical p \<or> a\<rparr>, True)
       else (if c then repopulate_pool pids (p\<lparr>p_procs := rev r, p_critical := p_critical p \<or> a\<rparr>)
             else p\<lparr>p_procs := rev r, p_critical := p_critical p \<or> a\<rparr>, False))"
    by (simp add: maintain_pool_def join_exited_workers_def r)
  with assms have m: "aborted = a" "\<not> a \<Longrightarrow> p' = (if c then repopulate_pool pids (p\<lparr>p_procs := rev r\<rparr>) else p\<lparr>p_procs := rev r\<rparr>)"
    by (auto split: if_splits)
  show "aborted = early_failure now p"
    unfolding m(1) early_failure_def failed_def using spec by auto
  show "\<not> aborted \<Longrightarrow> p_num p' = p_num p \<and> p_start p' = p_start p \<and> p_critical p' = p_critical p"
    using m by (simp add: repopulate_pool_def)
  show "\<not> aborted \<Longrightarrow> p_procs p' = filter (\<lambda>w. w_exit w = None) (p_procs p) @
       (if \<exists>w \<in> set (p_procs p). w_exit w \<noteq> None
        then map start_worker (take (p_num p - length (filter (\<lambda>w. w_exit w = None) (p_procs p))) pids) else [])"
    using m spec by (auto simp: repopulate_pool_def rev_filter)
qed

definition pool_inv :: "nat \<Rightarrow> int \<Rightarrow> pool_proc \<Rightarrow> bool" where
  "pool_inv n t0 s = (case s of
      Live p \<Rightarrow> p_num p = n \<and> p_start p = t0 \<and> \<not> p_critical p \<and> length (p_procs p) = n
    | Ended c ws \<Rightarrow> c \<in> {0, - 6} \<and> length ws \<le> n)"

lemma start_worker_live [simp]: "w_exit (start_worker i) = None"
  by (simp add: start_worker_def)

lemma pool_inv_step: "enough_pids n e \<Longrightarrow> pool_inv n t0 s \<Longrightarrow> pool_inv n t0 (pool_step s e)"
proof (induction s e rule: pool_step.induct)
  case (2 p xs)
  then show ?case by (simp add: pool_inv_def mark_exits_def)
next
  case (3 p now pids)
  obtain p' a where m: "maintain_pool now pids p = (p', a)" by fastforce
  note spec = maintain_pool_spec [OF m]
  have p: "p_num p = n" "p_start p = t0" "\<not> p_critical p" "length (p_procs p) = n" and np: "n \<le> length pids"
    using 3 by (auto simp: pool_inv_def enough_pids_def)
  define live where "live = filter (\<lambda>w. w_exit w = None) (p_procs p)"
  have l: "length live \<le> n" using length_filter_le [of _ "p_procs p"] p(4) by (simp add: live_def)
  have all: "live = p_procs p" if "\<not> (\<exists>w \<in> set (p_procs p). w_exit w \<noteq> None)"
    using that by (simp add: live_def filter_id_conv)
  have len: "length (p_procs p') = n" if "\<not> a"
    using spec(3) [OF that, folded live_def] l all np p by (cases "\<exists>w \<in> set (p_procs p). w_exit w \<noteq> None") simp_all
  show ?case
  proof (cases a)
    case True
    with m p show ?thesis by (simp add: pool_inv_def)
  next
    case False
    with m p len spec(2) show ?thesis by (simp add: pool_inv_def)
  qed
next
  case (4 p)
  then show ?case
    using length_filter_le [of "\<lambda>w. w_exit w = None" "p_procs p"] by (simp add: pool_inv_def terminate_pool_def)
qed (auto simp: pool_inv_def)

text \<open>The invariant along a run, as an instance of the step system.\<close>

definition pool_step_ok :: "nat \<Rightarrow> pool_proc \<Rightarrow> pool_event \<Rightarrow> pool_proc" where
  "pool_step_ok n s e = (if enough_pids n e then pool_step s e else s)"

interpretation pool_sys: step_system "pool_step_ok n" "pool_inv n t0"
  by unfold_locales (simp add: pool_step_ok_def pool_inv_step)

lemma pool_run_ok: "list_all (enough_pids n) es \<Longrightarrow> foldl pool_step s es = foldl (pool_step_ok n) s es"
  by (induction es arbitrary: s) (simp_all add: pool_step_ok_def)

lemma pool_inv_run:
  assumes "n \<le> length pids" "list_all (enough_pids n) es"
  shows "pool_inv n now (run_worker_pool n now pids es)"
proof -
  have "pool_inv n now (Live (pool_init n now pids))"
    using assms(1) by (simp add: pool_inv_def pool_init_def repopulate_pool_def)
  then show ?thesis
    unfolding run_worker_pool_def pool_run_ok [OF assms(2)] by (rule pool_sys.inv_run)
qed

text \<open>The two ways in which the pool process ends.\<close>

fun_cases pool_step_EndedE: "pool_step (Live p) e = Ended c ws"

lemma pool_end:
  assumes "pool_inv n t0 (Live p)" and "pool_step (Live p) e = Ended c ws"
  shows "e = Terminated \<and> c = 0 \<and> ws = terminate_pool p
     \<or> (\<exists>now pids. e = Tick now pids \<and> early_failure now p) \<and> c = - 6 \<and> ws = []"
  using assms(2)
proof (rule pool_step_EndedE)
  fix now pids
  assume e: "e = Tick now pids"
  obtain p' a where m: "maintain_pool now pids p = (p', a)" by fastforce
  show ?thesis
    using assms e m maintain_pool_spec(1) [OF m] by (auto simp: pool_inv_def split: if_splits)
qed auto

text \<open>
  C25: The pool always holds the configured number of workers: after every turn of its loop none
  of them is one that had exited, the running ones are kept in order, and the missing ones are
  started. The loop never ends with an error of its own: it runs until it is terminated, or the
  process aborts.
\<close>

theorem pool_population:
  assumes "n \<le> length pids" "list_all (enough_pids n) es" "n \<le> length new"
    and "run_worker_pool n t0 pids es = Live p"
  shows "length (p_procs p) = n
     \<and> (\<not> early_failure now p \<longrightarrow> (\<exists>p'. run_worker_pool n t0 pids (es @ [Tick now new]) = Live p'
          \<and> length (p_procs p') = n \<and> (\<forall>w \<in> set (p_procs p'). w_exit w = None)
          \<and> prefix (filter (\<lambda>w. w_exit w = None) (p_procs p)) (p_procs p')))"
proof -
  have inv: "pool_inv n t0 (Live p)" using pool_inv_run [OF assms(1,2), of t0] assms(4) by simp
  obtain p' a where m: "maintain_pool now new p = (p', a)" by fastforce
  note spec = maintain_pool_spec [OF m]
  have tick: "run_worker_pool n t0 pids (es @ [Tick now new]) = (if a then Ended (- 6) [] else Live p')"
    using assms(4) inv m by (simp add: run_worker_pool_def pool_inv_def)
  have all: "list_all (enough_pids n) (es @ [Tick now new])" using assms(2,3) by (simp add: enough_pids_def)
  have len: "\<not> a \<Longrightarrow> length (p_procs p') = n"
    using pool_inv_run [OF assms(1) all, of t0] tick by (simp add: pool_inv_def)
  have alive: "\<forall>w \<in> set (p_procs p'). w_exit w = None" if "\<not> a"
    unfolding spec(3) [OF that] by (auto dest: in_set_takeD)
  have pre: "prefix (filter (\<lambda>w. w_exit w = None) (p_procs p)) (p_procs p')" if "\<not> a"
    unfolding spec(3) [OF that] by simp
  have "length (p_procs p) = n" using inv by (simp add: pool_inv_def)
  moreover have "\<exists>p'. run_worker_pool n t0 pids (es @ [Tick now new]) = Live p'
          \<and> length (p_procs p') = n \<and> (\<forall>w \<in> set (p_procs p'). w_exit w = None)
          \<and> prefix (filter (\<lambda>w. w_exit w = None) (p_procs p)) (p_procs p')" if "\<not> early_failure now p"
  proof -
    have na: "\<not> a" using that spec(1) by simp
    show ?thesis using tick len [OF na] alive [OF na] pre [OF na] na by (intro exI [of _ p']) simp
  qed
  ultimately show ?thesis by blast
qed

theorem pool_population_witness:
  "run_worker_pool 2 0 [11, 12] [Exits [(11, 1)]] = Live \<lparr>p_num = 2, p_procs = [\<lparr>w_pid = 11, w_exit = Some 1\<rparr>, \<lparr>w_pid = 12, w_exit = None\<rparr>],
        p_start = 0, p_critical = False\<rparr>
     \<and> (\<exists>p'. run_worker_pool 2 0 [11, 12] ([Exits [(11, 1)]] @ [Tick 6000 [13, 14]]) = Live p' \<and> length (p_procs p') = 2)"
proof -
  define p where "p = \<lparr>p_num = 2, p_procs = [\<lparr>w_pid = 11, w_exit = Some 1\<rparr>, \<lparr>w_pid = 12, w_exit = None\<rparr>],
        p_start = 0, p_critical = False\<rparr>"
  have r: "run_worker_pool 2 0 [11, 12] [Exits [(11, 1)]] = Live p" unfolding p_def by code_simp
  have e: "\<not> early_failure 6000 p" by (simp add: early_failure_def p_def EARLY_FAILURE_DELAY_def)
  show ?thesis
    unfolding p_def [symmetric]
    using pool_population [of 2 "[11, 12]" "[Exits [(11, 1)]]" "[13, 14]", OF _ _ _ r, of 6000] e r
    by (auto simp: enough_pids_def)
qed

text \<open>
  A worker that fails within five seconds of the start takes the whole pool process down at
  the next turn of the loop: it dies of SIGABRT, without terminating the other workers. Later
  failures are repaired.
\<close>

theorem early_failure_aborts:
  assumes "n \<le> length pids" "list_all (enough_pids n) es" "run_worker_pool n t0 pids es = Live p"
    and "w \<in> set (p_procs p)" "failed w"
  shows "run_worker_pool n t0 pids (es @ [Tick now new]) = Ended (- 6) [] \<longleftrightarrow> now - t0 < EARLY_FAILURE_DELAY"
proof -
  have inv: "pool_inv n t0 (Live p)" using pool_inv_run [OF assms(1,2), of t0] assms(3) by simp
  obtain p' a where m: "maintain_pool now new p = (p', a)" by fastforce
  have "run_worker_pool n t0 pids (es @ [Tick now new]) = (if a then Ended (- 6) [] else Live p')"
    using assms(3) inv m by (simp add: run_worker_pool_def pool_inv_def)
  moreover have "early_failure now p \<longleftrightarrow> now - t0 < EARLY_FAILURE_DELAY"
    using inv assms(4,5) by (auto simp: early_failure_def pool_inv_def)
  ultimately show ?thesis using maintain_pool_spec(1) [OF m] by simp
qed

theorem early_failure_aborts_witness:
  "run_worker_pool 2 0 [11, 12] ([Exits [(11, 1)]] @ [Tick 4999 [13, 14]]) = Ended (- 6) []"
proof -
  define p where "p = \<lparr>p_num = 2, p_procs = [\<lparr>w_pid = 11, w_exit = Some 1\<rparr>, \<lparr>w_pid = 12, w_exit = None\<rparr>],
        p_start = 0, p_critical = False\<rparr>"
  have r: "run_worker_pool 2 0 [11, 12] [Exits [(11, 1)]] = Live p" unfolding p_def by code_simp
  show ?thesis
    using early_failure_aborts [of 2 "[11, 12]" "[Exits [(11, 1)]]", OF _ _ r, of "\<lparr>w_pid = 11, w_exit = Some 1\<rparr>" 4999 "[13, 14]"]
    by (simp add: p_def failed_def EARLY_FAILURE_DELAY_def enough_pids_def)
qed

end
