(* ===== verification/Watchfiles.thy ===== *)
theory Watchfiles
  imports Prelude
begin

text \<open>
  \<open>src/pyqgisservercontrib/core/watchfiles.py\<close>: a periodic check of modification times. The
  first sight of a file only records its time; a missing file, or one that cannot be examined, is
  not reported and keeps the recorded time.
\<close>

type_synonym modify_times = "(string, int) odict"

text \<open>\<open>st\<close> is \<open>os.stat(path).st_mtime\<close> at this moment.\<close>

definition wf_check_file :: "(string \<Rightarrow> int result) \<Rightarrow> modify_times \<Rightarrow> string \<Rightarrow> string option \<times> modify_times" where
  "wf_check_file st mt path = (case st path of
      Inl e \<Rightarrow> (None, mt)
    | Inr t \<Rightarrow> (case od_get mt path of
          None \<Rightarrow> (None, od_set path t mt)
        | Some t' \<Rightarrow> if t' \<noteq> t then (Some path, od_set path t mt) else (None, mt)))"

fun modified_files :: "(string \<Rightarrow> int result) \<Rightarrow> string list \<Rightarrow> modify_times \<Rightarrow> string list \<times> modify_times" where
  "modified_files st [] mt = ([], mt)"
| "modified_files st (p # ps) mt =
     (let (r, mt1) = wf_check_file st mt p; (rs, mt2) = modified_files st ps mt1
      in (if r \<noteq> None then p # rs else rs, mt2))"

text \<open>One tick: the files handed to the update function, if it is called at all.\<close>

definition update_callback :: "(string \<Rightarrow> int result) \<Rightarrow> string list \<Rightarrow> modify_times \<Rightarrow> string list option \<times> modify_times" where
  "update_callback st files mt =
     (let (rs, mt') = modified_files st files mt in (if 0 < length rs then Some rs else None, mt'))"

section \<open>What a tick reports\<close>

definition changed :: "(string \<Rightarrow> int result) \<Rightarrow> modify_times \<Rightarrow> string \<Rightarrow> bool" where
  "changed st mt p \<longleftrightarrow> (\<exists>t t'. st p = Inr t \<and> od_get mt p = Some t' \<and> t' \<noteq> t)"

definition seen :: "(string \<Rightarrow> int result) \<Rightarrow> modify_times \<Rightarrow> string list \<Rightarrow> string \<Rightarrow> int option" where
  "seen st mt ps p = (if p \<in> set ps then (case st p of Inl e \<Rightarrow> od_get mt p | Inr t \<Rightarrow> Some t) else od_get mt p)"

lemma check_file_cases:
  "wf_check_file st mt p = (r, mt') \<Longrightarrow>
     (r \<noteq> None) = changed st mt p
     \<and> (\<forall>q. od_get mt' q = (if q = p then (case st p of Inl e \<Rightarrow> od_get mt p | Inr t \<Rightarrow> Some t) else od_get mt q))"
  by (auto simp: wf_check_file_def changed_def split: sum.splits option.splits if_splits)

lemma modified_files_spec:
  "distinct ps \<Longrightarrow> modified_files st ps mt = (rs, mt') \<Longrightarrow>
     rs = filter (changed st mt) ps \<and> (\<forall>q. od_get mt' q = seen st mt ps q)"
proof (induction ps arbitrary: mt rs mt')
  case Nil
  then show ?case by (simp add: seen_def)
next
  case (Cons p ps)
  obtain r t1 where r: "wf_check_file st mt p = (r, t1)" by fastforce
  obtain rs2 t2 where m: "modified_files st ps t1 = (rs2, t2)" by fastforce
  note c = check_file_cases [OF r]
  have IH: "rs2 = filter (changed st t1) ps" "\<And>q. od_get t2 q = seen st t1 ps q"
    using Cons.IH [OF _ m] Cons.prems(1) by auto
  have same: "changed st t1 q = changed st mt q" if "q \<in> set ps" for q
    using c Cons.prems(1) that by (auto simp: changed_def)
  have rs: "rs = (if r \<noteq> None then p # rs2 else rs2)" "mt' = t2"
    using Cons.prems(2) r m by auto
  have "rs2 = filter (changed st mt) ps"
    unfolding IH(1) by (rule filter_cong) (auto simp: same)
  moreover have "od_get t2 q = seen st mt (p # ps) q" for q
    unfolding IH(2) using c Cons.prems(1) by (auto simp: seen_def split: sum.splits)
  ultimately show ?case using c rs by auto
qed

text \<open>A tick reports exactly the files whose time differs from the one seen last.\<close>

lemma update_callback_spec:
  "distinct files \<Longrightarrow> update_callback st files mt = (r, mt') \<Longrightarrow>
     r = (if filter (changed st mt) files = [] then None else Some (filter (changed st mt) files))
     \<and> (\<forall>q. od_get mt' q = seen st mt files q)"
  using modified_files_spec [of files st mt]
  by (auto simp: update_callback_def Let_def split: prod.splits)

text \<open>A second tick on the same files with the same times is silent.\<close>

lemma update_callback_quiet:
  assumes "distinct files" "update_callback st files mt = (r, mt')"
  shows "fst (update_callback st files mt') = None"
proof -
  have s: "od_get mt' q = seen st mt files q" for q
    using update_callback_spec [OF assms] by simp
  have "\<not> changed st mt' p" if "p \<in> set files" for p
    using that by (auto simp: changed_def s seen_def split: sum.splits)
  then have e: "filter (changed st mt') files = []" by (simp add: filter_empty_conv)
  obtain r2 t2 where u: "update_callback st files mt' = (r2, t2)" by fastforce
  show ?thesis using update_callback_spec [OF assms(1) u] u e by simp
qed

end
