(* ===== verification/PoolServer.thy ===== *)
theory PoolServer
  imports Supervisor Watchfiles Pool Config "HOL-Library.Multiset" Complex_Main
begin

text \<open>
  \<open>src/pyqgisserver/qgspool.py\<close>: the pool server of the front process. It broadcasts
  commands to the workers, collects their reports, restarts them when watched files change, checks
  the health of the pool process and kills workers that use too much memory. Memory fractions are
  rational numbers; the process table and the file system are arguments.
\<close>

section \<open>Memory\<close>

text \<open>A child of the pool process: its memory in percent, and that of all its descendants.\<close>

record child_proc =
  ch_pid :: int
  ch_percent :: rat
  ch_below :: "rat list"

definition mem_usage :: "child_proc \<Rightarrow> int \<times> rat" where
  "mem_usage p = (ch_pid p, (ch_percent p + sum_list (ch_below p)) / 100)"

definition sort_desc :: "('a \<times> rat) list \<Rightarrow> ('a \<times> rat) list" where
  "sort_desc cs = rev (sort_key snd (rev cs))"

text \<open>
  What \<open>psutil\<close> answers: the children of the pool with their memory, or the exception that reading one of
  them raises (it may be gone), and for each of them the exception that killing it raises, if any.
\<close>

record proc_table =
  pt_children :: "child_proc list result"
  pt_kill :: "int \<Rightarrow> exn option"

fun kill_until :: "(int \<Rightarrow> exn option) \<Rightarrow> rat \<Rightarrow> rat \<Rightarrow> (int \<times> rat) list \<Rightarrow> exn option \<times> int list" where
  "kill_until kill mark fraction [] = (None, [])"
| "kill_until kill mark fraction ((p, m) # cs) = (case kill p of
      Some e \<Rightarrow> (Some e, [])
    | None \<Rightarrow> if fraction - m < mark then (None, [p])
              else (let (e, ps) = kill_until kill mark (fraction - m) cs in (e, p # ps)))"

text \<open>The exception that leaves it, if any, and the workers that are killed, in order.\<close>

definition check_oom_status :: "rat \<Rightarrow> proc_table \<Rightarrow> exn option \<times> int list" where
  "check_oom_status mark t = (case pt_children t of
      Inl e \<Rightarrow> (Some e, [])
    | Inr procs \<Rightarrow>
        (let childs = map mem_usage procs; fraction = sum_list (map snd childs)
         in if mark < fraction then kill_until (pt_kill t) mark fraction (sort_desc childs) else (None, [])))"

section \<open>Restarting\<close>

record restart_handler =
  rh_running :: bool
  rh_files :: "string list"
  rh_times :: modify_times
  rh_check_time :: int

text \<open>The files to watch: the configured one, and the manifests of the plugins (a glob).\<close>

definition update_files :: "config \<Rightarrow> (string \<Rightarrow> string list) \<Rightarrow> restart_handler \<Rightarrow> restart_handler result" where
  "update_files c glob h =
     rbind (proxy_get Inr c ''server'' ''restartmon'') (\<lambda>mon.
     rbind (proxy_get Inr c ''server'' ''pluginpath'') (\<lambda>path. Inr
       (h\<lparr>rh_files := (case mon of None \<Rightarrow> [] | Some f \<Rightarrow> if f = [] then [] else [f])
            @ (case path of None \<Rightarrow> [] | Some p \<Rightarrow> if p = [] then [] else glob p)\<rparr>)))"

text \<open>The time between two checks is an option of its own; tornado takes positive ones only.\<close>

definition restart_start :: "environ \<Rightarrow> config \<Rightarrow> (string \<Rightarrow> string list) \<Rightarrow> restart_handler \<Rightarrow> restart_handler result" where
  "restart_start env c glob h =
     rbind (update_files c glob h) (\<lambda>h'.
     rbind (fst (conf_getint env ''server'' ''restartmon_check_time'' (Some 3000) c)) (\<lambda>check_time.
       if check_time \<le> 0 then Inl ValueError
       else Inr (h'\<lparr>rh_running := True, rh_times := [], rh_check_time := check_time\<rparr>)))"

definition restart_close :: "restart_handler \<Rightarrow> restart_handler" where
  "restart_close h = h\<lparr>rh_running := False\<rparr>"

section \<open>The server\<close>

record 'd pool_server =
  ps_timeout :: int
  ps_num_workers :: nat
  ps_high_water :: rat
  ps_pool_exit :: "int option"
  ps_supervisor :: "'d supervisor option"
  ps_healthcheck :: bool
  ps_restart :: restart_handler
  ps_closed :: bool
  ps_sent :: "string list"

definition pool_server_init :: "int \<Rightarrow> nat \<Rightarrow> rat \<Rightarrow> 'd pool_server" where
  "pool_server_init tmo n mark =
     \<lparr>ps_timeout = tmo, ps_num_workers = n, ps_high_water = mark, ps_pool_exit = None, ps_supervisor = None,
      ps_healthcheck = False, ps_restart = \<lparr>rh_running = False, rh_files = [], rh_times = [], rh_check_time = 0\<rparr>,
      ps_closed = False, ps_sent = []\<rparr>"

text \<open>\<open>create_poolserver\<close> first reads these settings; \<open>float\<close> converts the last one.\<close>

record pool_conf =
  pg_router :: string
  pg_broadcast :: string
  pg_timeout :: int
  pg_mark :: rat

definition pool_settings :: "(string \<Rightarrow> rat result) \<Rightarrow> config \<Rightarrow> pool_conf result" where
  "pool_settings float c =
     rbind (proxy_item c ''zmq'' ''bindaddr'') (\<lambda>router.
     rbind (proxy_item c ''zmq'' ''broadcastaddr'') (\<lambda>bcast.
     rbind (proxy_get py_int c ''server'' ''timeout'') (\<lambda>tmo.
     rbind (proxy_item c ''server'' ''memory_high_water_mark'') (\<lambda>m.
     rbind (float m) (\<lambda>mark. Inr \<lparr>pg_router = router, pg_broadcast = bcast, pg_timeout = the tmo, pg_mark = mark\<rparr>)))))"

text \<open>
  With the settings the process of the pool is started; then the server binds the address for its
  broadcasts, which may fail with the process running. The first component is whether it was started.
\<close>

definition create_poolserver ::
  "(string \<Rightarrow> rat result) \<Rightarrow> (string \<Rightarrow> unit result) \<Rightarrow> config \<Rightarrow> nat \<Rightarrow> bool \<times> 'd pool_server result" where
  "create_poolserver float bind c n = (case pool_settings float c of
      Inl e \<Rightarrow> (False, Inl e)
    | Inr s \<Rightarrow> (True, rbind (bind (pg_broadcast s)) (\<lambda>_. Inr (pool_server_init (pg_timeout s) n (pg_mark s)))))"

text \<open>A broadcast that would block is dropped.\<close>

definition broadcast :: "bool \<Rightarrow> string \<Rightarrow> 'd pool_server \<Rightarrow> 'd pool_server" where
  "broadcast ok cmd s = (if ok then s\<lparr>ps_sent := ps_sent s @ [cmd]\<rparr> else s)"

definition ps_restart_workers :: "bool \<Rightarrow> 'd pool_server \<Rightarrow> 'd pool_server" where
  "ps_restart_workers ok s = broadcast ok ''RESTART'' s"

definition start_supervisor :: "environ \<Rightarrow> config \<Rightarrow> (string \<Rightarrow> string list) \<Rightarrow> 'd pool_server \<Rightarrow> 'd pool_server result" where
  "start_supervisor env c glob s =
     (let s1 = (if ps_supervisor s = None then s\<lparr>ps_supervisor := Some (supervisor_init (ps_timeout s))\<rparr> else s);
          s2 = s1\<lparr>ps_healthcheck := True\<rparr>
      in rbind (restart_start env c glob (ps_restart s2)) (\<lambda>h. Inr (s2\<lparr>ps_restart := h\<rparr>)))"

text \<open>A tick of the restart scheduler: workers are told to restart when a watched file changed.\<close>

definition restart_tick ::
  "config \<Rightarrow> (string \<Rightarrow> string list) \<Rightarrow> (string \<Rightarrow> int result) \<Rightarrow> bool \<Rightarrow> 'd pool_server \<Rightarrow> 'd pool_server result" where
  "restart_tick c glob st ok s =
     (let h = ps_restart s; (r, t) = update_callback st (rh_files h) (rh_times h); s1 = s\<lparr>ps_restart := h\<lparr>rh_times := t\<rparr>\<rparr>
      in if r = None then Inr s1
         else rbind (update_files c glob (ps_restart s1)) (\<lambda>h'. Inr ((ps_restart_workers ok s1)\<lparr>ps_restart := h'\<rparr>)))"

text \<open>
  A turn of \<open>healthcheck\<close>: the exit of the server, or the workers killed. An exception of the memory
  check is only logged.
\<close>

definition healthcheck :: "proc_table \<Rightarrow> 'd pool_server \<Rightarrow> int + int list" where
  "healthcheck t s = (case ps_pool_exit s of
      Some c \<Rightarrow> if c \<noteq> 0 then Inl 1 else Inr (snd (check_oom_status (ps_high_water s) t))
    | None \<Rightarrow> Inr (snd (check_oom_status (ps_high_water s) t)))"

text \<open>
  \<open>get_reports\<close>: at most ten sleeps of a second; \<open>arrivals i\<close> are the events that the
  supervisor handles during sleep \<open>i\<close>.
\<close>

definition max_wait :: nat where
  "max_wait = 10"

function wait_reports :: "nat \<Rightarrow> (nat \<Rightarrow> 'd sup_event list) \<Rightarrow> nat \<Rightarrow> 'd supervisor \<Rightarrow> nat \<times> 'd supervisor" where
  "wait_reports n arrivals so_far s =
     (if num_reports s < n
      then (let s' = foldl sup_step s (arrivals so_far); so_far' = so_far + 1
            in if max_wait \<le> so_far' then (so_far', s') else wait_reports n arrivals so_far' s')
      else (so_far, s))"
  by pat_completeness auto
termination
  by (relation "measure (\<lambda>(n, arrivals, so_far, s). max_wait - so_far)") (auto simp: max_wait_def)

definition get_reports :: "bool \<Rightarrow> (nat \<Rightarrow> 'd sup_event list) \<Rightarrow> 'd pool_server \<Rightarrow> 'd list \<times> 'd pool_server" where
  "get_reports ok arrivals s = (case ps_supervisor s of
      None \<Rightarrow> ([], s)
    | Some sv \<Rightarrow>
        (let s1 = broadcast ok ''REPORT'' s; (_, sv') = wait_reports (ps_num_workers s) arrivals 0 (clear_reports sv)
         in (report_list sv', s1\<lparr>ps_supervisor := Some sv'\<rparr>)))"

text \<open>\<open>terminate\<close>: the new state and whether the pool process is sent SIGTERM.\<close>

definition ps_terminate :: "'d pool_server \<Rightarrow> 'd pool_server \<times> bool" where
  "ps_terminate s =
     (s\<lparr>ps_restart := restart_close (ps_restart s), ps_healthcheck := False, ps_closed := True,
        ps_supervisor := map_option (\<lambda>p. if stopped p then p else sup_stop p) (ps_supervisor s)\<rparr>,
      ps_pool_exit s = None)"

section \<open>Waiting for reports\<close>

declare wait_reports.simps [simp del]

text \<open>The supervisor after \<open>k\<close> sleeps.\<close>

definition heard :: "(nat \<Rightarrow> 'd sup_event list) \<Rightarrow> 'd supervisor \<Rightarrow> nat \<Rightarrow> nat \<Rightarrow> 'd supervisor" where
  "heard arrivals s i k = foldl sup_step s (concat (map arrivals [i..<k]))"

lemma heard_self [simp]: "heard arrivals s i i = s"
  by (simp add: heard_def)

lemma heard_step: "i < k \<Longrightarrow> heard arrivals s i k = heard arrivals (foldl sup_step s (arrivals i)) (Suc i) k"
  by (simp add: heard_def upt_conv_Cons)

lemma wait_reports_spec:
  assumes "wait_reports n arrivals i s = (k, s')" "i < max_wait"
  shows "i \<le> k \<and> k \<le> max_wait \<and> s' = heard arrivals s i k \<and> (\<forall>j. i \<le> j \<longrightarrow> j < k \<longrightarrow> num_reports (heard arrivals s i j) < n)
     \<and> (k < max_wait \<longrightarrow> n \<le> num_reports s')"
  using assms
proof (induction n arrivals i s rule: wait_reports.induct)
  case (1 n arrivals i s)
  show ?case
  proof (cases "num_reports s < n \<and> Suc i < max_wait")
    case True
    then have w: "wait_reports n arrivals (Suc i) (foldl sup_step s (arrivals i)) = (k, s')"
      using 1(2) unfolding wait_reports.simps [of n arrivals i s] by (simp add: Let_def)
    note IH = 1(1) [OF conjunct1 [OF True] refl refl, simplified, OF w conjunct2 [OF True]]
    have "num_reports (heard arrivals s i j) < n" if "i \<le> j" "j < k" for j
      using that True IH by (cases "i = j") (auto simp: heard_step)
    then show ?thesis using IH True by (auto simp: heard_step [of i k])
  next
    case False
    then show ?thesis
      using 1(2,3) unfolding wait_reports.simps [of n arrivals i s]
      by (auto simp: Let_def heard_def le_less_Suc_eq split: if_splits)
  qed
qed

lemma od_set_subset: "set (od_set k v d) \<subseteq> insert (k, v) (set d)"
  by (induction d) auto

lemma reports_step:
  "set (reports (sup_step s e)) \<subseteq> set (reports s) \<union> {(p, d). \<exists>now. e = Msg now p (Report d)}
     \<and> (od_wf (reports s) \<longrightarrow> od_wf (reports (sup_step s e)))"
proof (cases e)
  case (Msg now p m)
  then show ?thesis
    by (cases m) (auto simp: cancel_timer_def od_wf_set dest: subsetD [OF od_set_subset] split: option.split)
next
  case (Fire i alive now)
  then show ?thesis by (auto simp: cancel_timer_def kill_pid_def Let_def split: option.split sum.split)
qed

lemma reports_run:
  "od_wf (reports s) \<Longrightarrow> od_wf (reports (foldl sup_step s es))
     \<and> set (reports (foldl sup_step s es)) \<subseteq> set (reports s) \<union> {(p, d). \<exists>now. Msg now p (Report d) \<in> set es}"
proof (induction es arbitrary: s)
  case (Cons e es)
  have w: "od_wf (reports (sup_step s e))" using reports_step [of s e] Cons.prems by blast
  have "set (reports (foldl sup_step s (e # es))) \<subseteq> set (reports (sup_step s e)) \<union> {(p, d). \<exists>now. Msg now p (Report d) \<in> set es}"
    using Cons.IH [OF w] by simp
  also have "\<dots> \<subseteq> set (reports s) \<union> {(p, d). \<exists>now. Msg now p (Report d) \<in> set (e # es)}"
    using reports_step [of s e] by auto
  finally show ?case using Cons.IH [OF w] by simp
qed simp

text \<open>
  C32: Collecting reports returns after at most ten sleeps, with the reports that arrived meanwhile,
  one of each worker. It stops at the first sleep after which as many workers as configured have
  reported, and only a wait of ten sleeps returns fewer.
\<close>

theorem reports_collected:
  assumes "ps_supervisor s = Some sv" "get_reports ok arrivals s = (rs, s')"
  shows "\<exists>k \<le> max_wait. \<exists>sv'. ps_supervisor s' = Some sv' \<and> rs = map snd (reports sv')
     \<and> distinct (map fst (reports sv'))
     \<and> (\<forall>p d. (p, d) \<in> set (reports sv') \<longrightarrow> (\<exists>i < k. \<exists>now. Msg now p (Report d) \<in> set (arrivals i)))
     \<and> (\<forall>j < k. num_reports (heard arrivals (clear_reports sv) 0 j) < ps_num_workers s)
     \<and> (k < max_wait \<longrightarrow> ps_num_workers s \<le> length rs)"
proof -
  obtain k sv' where w: "wait_reports (ps_num_workers s) arrivals 0 (clear_reports sv) = (k, sv')" by fastforce
  note spec = wait_reports_spec [OF w]
  have g: "ps_supervisor s' = Some sv'" "rs = map snd (reports sv')"
    using assms w by (auto simp: get_reports_def report_list_def)
  have "od_wf (reports (clear_reports sv))" "reports (clear_reports sv) = []"
    by (simp_all add: clear_reports_def)
  with spec reports_run [of "clear_reports sv" "concat (map arrivals [0..<k])"]
  have "od_wf (reports sv')" "set (reports sv') \<subseteq> {(p, d). \<exists>now. Msg now p (Report d) \<in> set (concat (map arrivals [0..<k]))}"
    by (auto simp: heard_def max_wait_def)
  then have "distinct (map fst (reports sv'))"
      and "\<forall>p d. (p, d) \<in> set (reports sv') \<longrightarrow> (\<exists>i < k. \<exists>now. Msg now p (Report d) \<in> set (arrivals i))"
    by (auto simp: od_wf_def od_keys_def) (fastforce dest: subsetD)
  then show ?thesis
    using g spec by (intro exI [of _ k] conjI exI [of _ sv']) (auto simp: num_reports_def max_wait_def)
qed

text \<open>Two workers, of which one reports, twice, during the second sleep.\<close>

definition one_report :: "nat \<Rightarrow> string sup_event list" where
  "one_report i = (if i = 1 then [Msg 0 11 (Report ''a''), Msg 0 11 (Report ''b'')] else [])"

theorem reports_collected_witness:
  "\<exists>k \<le> max_wait. fst (get_reports True one_report ((pool_server_init 20 2 1)\<lparr>ps_supervisor := Some (supervisor_init 20)\<rparr>)) = [''b''] \<and> max_wait \<le> k"
proof -
  define s where "s = (pool_server_init 20 2 1 :: string pool_server)\<lparr>ps_supervisor := Some (supervisor_init 20)\<rparr>"
  obtain rs s' where r: "get_reports True one_report s = (rs, s')" by fastforce
  have rs: "rs = [''b'']"
    by (rule arg_cong [OF r, of fst, simplified, symmetric, THEN trans]) (unfold s_def, code_simp)
  have "ps_supervisor s = Some (supervisor_init 20)" "ps_num_workers s = 2"
    by (simp_all add: s_def pool_server_init_def)
  with reports_collected [OF _ r] rs r show ?thesis unfolding s_def by fastforce
qed

section \<open>Killing as few workers as possible\<close>

lemma sort_desc_sorted: "sorted_wrt (\<lambda>a b. snd b \<le> snd a) (sort_desc cs)"
  using sorted_sort_key [of snd "rev cs"] by (simp add: sort_desc_def sorted_wrt_rev sorted_map)

lemma mset_sort_desc [simp]: "mset (sort_desc cs) = mset cs"
  by (simp add: sort_desc_def)

text \<open>No \<open>k\<close> elements weigh more than the first \<open>k\<close> of a descending list.\<close>

lemma take_heaviest:
  "sorted_wrt (\<lambda>a b. snd b \<le> snd a) (cs :: ('a \<times> rat) list) \<Longrightarrow> S \<subseteq># mset cs \<Longrightarrow>
     sum_mset (image_mset snd S) \<le> sum_list (map snd (take (size S) cs))"
proof (induction cs arbitrary: S)
  case (Cons c cs)
  show ?case
  proof (cases "c \<in># S")
    case True
    then obtain T where T: "S = add_mset c T" by (meson mset_add)
    with Cons.prems(2) have "T \<subseteq># mset cs" by simp
    with Cons.IH [of T] Cons.prems(1) T show ?thesis by simp
  next
    case False
    have S: "S \<subseteq># mset cs"
    proof (rule mset_subset_eqI)
      fix x
      have "count S x \<le> count (mset (c # cs)) x" using Cons.prems(2) by (rule mset_subset_eq_count)
      moreover have "count S c = 0" using False by (simp add: not_in_iff)
      ultimately show "count S x \<le> count (mset cs) x" by (cases "x = c") auto
    qed
    show ?thesis
    proof (cases "size S")
      case 0
      then show ?thesis by simp
    next
      case (Suc k)
      have k: "k < length cs" using size_mset_mono [OF S] Suc by simp
      have "sum_mset (image_mset snd S) \<le> sum_list (map snd (take (Suc k) cs))"
        using Cons.IH [OF _ S] Cons.prems(1) Suc by simp
      also have "\<dots> = sum_list (map snd (take k cs)) + snd (cs ! k)"
        using k by (simp add: take_Suc_conv_app_nth)
      also have "snd (cs ! k) \<le> snd c" using Cons.prems(1) k by simp
      finally show ?thesis using Suc by simp
    qed
  qed
qed simp

text \<open>Killing in order, up to the first kill that fails: the outcome for a list of workers.\<close>

definition kills :: "(int \<Rightarrow> exn option) \<Rightarrow> exn option \<times> int list \<Rightarrow> int list \<Rightarrow> bool" where
  "kills kill r ps = (snd r = takeWhile (\<lambda>p. kill p = None) ps \<and> (fst r = None) = (\<forall>p \<in> set ps. kill p = None))"

lemma kill_until_spec:
  fixes cs :: "(int \<times> rat) list"
  assumes "mark \<le> fraction" "fraction - sum_list (map snd cs) < mark"
  shows "\<exists>n \<le> length cs. kills kill (kill_until kill mark fraction cs) (map fst (take n cs))
     \<and> fraction - sum_list (map snd (take n cs)) < mark
     \<and> (\<forall>k < n. mark \<le> fraction - sum_list (map snd (take k cs)))"
  using assms
proof (induction cs arbitrary: fraction)
  case (Cons c cs)
  obtain p m where c: "c = (p, m)" by (cases c)
  show ?case
  proof (cases "fraction - m < mark")
    case True
    with Cons.prems c show ?thesis by (intro exI [of _ 1]) (auto simp: kills_def split: option.split)
  next
    case False
    then have "mark \<le> fraction - m" "fraction - m - sum_list (map snd cs) < mark"
      using Cons.prems c by (auto simp: algebra_simps)
    then obtain n where n: "n \<le> length cs" "kills kill (kill_until kill mark (fraction - m) cs) (map fst (take n cs))"
        "fraction - m - sum_list (map snd (take n cs)) < mark"
        "\<forall>k < n. mark \<le> fraction - m - sum_list (map snd (take k cs))"
      using Cons.IH by blast
    have "mark \<le> fraction - sum_list (map snd (take k (c # cs)))" if "k < Suc n" for k
      using that n(4) Cons.prems(1) c by (cases k) (auto simp: algebra_simps)
    moreover have "kills kill (kill_until kill mark fraction (c # cs)) (map fst (take (Suc n) (c # cs)))"
      using n(2) False c by (auto simp: kills_def split: option.split prod.split)
    ultimately show ?thesis using n(1,3) c by (intro exI [of _ "Suc n"]) (auto simp: algebra_simps)
  qed
qed auto

text \<open>
  C24: When the memory of the workers exceeds the mark, the heaviest workers are killed until what
  is left is below the mark, and no set of fewer workers would have been enough; below the mark
  nobody is killed. A kill that fails leaves the workers after it alone; without one all are killed
  and nothing is raised.
\<close>

theorem oom_kills_as_few_as_possible:
  fixes procs :: "child_proc list"
  defines "childs \<equiv> map mem_usage procs"
  defines "used \<equiv> sum_list (map snd childs)"
  assumes "0 < mark" and "pt_children t = Inr procs"
  shows "(used \<le> mark \<longrightarrow> check_oom_status mark t = (None, []))
     \<and> (mark < used \<longrightarrow> (\<exists>n. snd (check_oom_status mark t) = takeWhile (\<lambda>p. pt_kill t p = None) (map fst (take n (sort_desc childs)))
          \<and> (fst (check_oom_status mark t) = None) = (\<forall>p \<in> set (map fst (take n (sort_desc childs))). pt_kill t p = None)
          \<and> n \<le> length procs
          \<and> sum_list (map snd (drop n (sort_desc childs))) < mark
          \<and> (\<forall>S. S \<subseteq># mset childs \<and> used - sum_mset (image_mset snd S) < mark \<longrightarrow> n \<le> size S)))"
proof (intro conjI impI)
  assume "used \<le> mark"
  then show "check_oom_status mark t = (None, [])"
    by (simp add: check_oom_status_def Let_def used_def childs_def assms(4))
next
  assume high: "mark < used"
  let ?cs = "sort_desc childs"
  have sum: "sum_list (map snd ?cs) = used"
    using mset_sort_desc [of childs] by (metis mset_map sum_mset_sum_list used_def)
  have len: "length ?cs = length procs"
    using mset_sort_desc [of childs] by (metis childs_def length_map size_mset)
  obtain n where n: "n \<le> length ?cs" "kills (pt_kill t) (kill_until (pt_kill t) mark used ?cs) (map fst (take n ?cs))"
      "used - sum_list (map snd (take n ?cs)) < mark"
      "\<forall>k < n. mark \<le> used - sum_list (map snd (take k ?cs))"
    using kill_until_spec [of mark used ?cs "pt_kill t"] high sum assms(3) by auto
  have split: "sum_list (map snd (drop n ?cs)) = used - sum_list (map snd (take n ?cs))"
    using sum by (metis append_take_drop_id map_append sum_list_append add_diff_cancel_left')
  have few: "n \<le> size S" if "S \<subseteq># mset childs" "used - sum_mset (image_mset snd S) < mark" for S
  proof (rule ccontr)
    assume "\<not> n \<le> size S"
    then have "mark \<le> used - sum_list (map snd (take (size S) ?cs))" using n(4) by simp
    moreover have "sum_mset (image_mset snd S) \<le> sum_list (map snd (take (size S) ?cs))"
      by (rule take_heaviest [OF sort_desc_sorted]) (use that in simp)
    ultimately show False using that(2) by simp
  qed
  have "check_oom_status mark t = kill_until (pt_kill t) mark used ?cs"
    using high by (simp add: check_oom_status_def Let_def used_def childs_def assms(4))
  with n(2) have "snd (check_oom_status mark t) = takeWhile (\<lambda>p. pt_kill t p = None) (map fst (take n ?cs))"
    "(fst (check_oom_status mark t) = None) = (\<forall>p \<in> set (map fst (take n ?cs)). pt_kill t p = None)"
    by (simp_all add: kills_def)
  with n few split len show "\<exists>n. snd (check_oom_status mark t) = takeWhile (\<lambda>p. pt_kill t p = None) (map fst (take n ?cs))
      \<and> (fst (check_oom_status mark t) = None) = (\<forall>p \<in> set (map fst (take n ?cs)). pt_kill t p = None) \<and> n \<le> length procs
      \<and> sum_list (map snd (drop n ?cs)) < mark
      \<and> (\<forall>S. S \<subseteq># mset childs \<and> used - sum_mset (image_mset snd S) < mark \<longrightarrow> n \<le> size S)"
    by (intro exI [of _ n]) simp
qed

definition three_children :: "child_proc list" where
  "three_children = [\<lparr>ch_pid = 1, ch_percent = 20, ch_below = []\<rparr>, \<lparr>ch_pid = 2, ch_percent = 30, ch_below = [20]\<rparr>,
     \<lparr>ch_pid = 3, ch_percent = 30, ch_below = []\<rparr>]"

definition three_table :: proc_table where
  "three_table = \<lparr>pt_children = Inr three_children, pt_kill = (\<lambda>p. None)\<rparr>"

theorem oom_kills_as_few_as_possible_witness:
  "\<exists>n. check_oom_status (9 / 10) three_table = (None, map fst (take n (sort_desc (map mem_usage three_children)))) \<and> n \<le> 1"
proof -
  have t: "sum_list (map snd (map mem_usage three_children)) = 1"
    by (simp add: three_children_def mem_usage_def)
  have S: "{#(2, 1 / 2)#} \<subseteq># mset (map mem_usage three_children)"
    by (simp add: three_children_def mem_usage_def)
  have c: "pt_children three_table = Inr three_children" "pt_kill three_table p = None" for p by (simp_all add: three_table_def)
  obtain n where n: "snd (check_oom_status (9 / 10) three_table) = map fst (take n (sort_desc (map mem_usage three_children)))"
      "fst (check_oom_status (9 / 10) three_table) = None"
      "\<forall>S. S \<subseteq># mset (map mem_usage three_children) \<and> 1 - sum_mset (image_mset snd S) < 9 / 10 \<longrightarrow> n \<le> size S"
    using oom_kills_as_few_as_possible [OF _ c(1), of "9 / 10"] unfolding t by (auto simp: c(2) takeWhile_eq_all_conv [THEN iffD2])
  have "n \<le> 1" using n(3) [rule_format, of "{#(2, 1 / 2)#}"] S by auto
  with n(1,2) show ?thesis by (metis prod.collapse)
qed

end
