(* ===== verification/Handlers.thy ===== *)
theory Handlers
  imports Client Config
begin

text \<open>
  The HTTP request handlers of the front end: \<open>src/pyqgisserver/handlers/basehandler.py\<close>,
  \<open>asynchandler.py\<close>, \<open>owshandler.py\<close> and \<open>oapihandler.py\<close>. What a handler does to the HTTP
  response is the list of the tornado methods it calls. The header names of a request are in
  tornado's normal form. \<open>get_arg\<close> is tornado's \<open>get_argument\<close> with default None,
  a parameter; what the back end gives (\<open>fetched\<close>, and the chunks of a stream) is the
  outcome of the client calls modelled in Client.
\<close>

section \<open>Requests and the calls on the response\<close>

type_synonym arguments = "(string, string list) odict"

record http_request =
  hq_method :: string
  hq_protocol :: string
  hq_host :: string
  hq_path :: string
  hq_uri :: string
  hq_headers :: "(string, string) odict"
  hq_arguments :: arguments
  hq_body_arguments :: arguments
  hq_body :: string

datatype http_call =
    ClearHeader string
  | SetHeader string string
  | SetStatus int
  | WriteData string
  | FlushData
  | SendErr int string
  | FinishCall

type_synonym get_arg = "arguments \<Rightarrow> string \<Rightarrow> string option"

section \<open>The base handler\<close>

record base_conf =
  bc_cross_origin :: bool
  bc_http_proxy :: bool
  bc_proxy_url :: string
  bc_version :: string

definition has_body_arguments :: "http_request \<Rightarrow> bool" where
  "has_body_arguments rq = (hq_body_arguments rq \<noteq> [])"

definition set_default_headers :: "base_conf \<Rightarrow> http_call list" where
  "set_default_headers bc = [ClearHeader ''Content-Type'', SetHeader ''Server'' (''Py-Qgis-Server '' @ bc_version bc)]"

text \<open>An empty header counts as absent.\<close>

definition truthy :: "string option \<Rightarrow> string option" where
  "truthy v = (case v of Some [] \<Rightarrow> None | _ \<Rightarrow> v)"

definition set_access_control_headers :: "base_conf \<Rightarrow> http_request \<Rightarrow> http_call list \<times> bool" where
  "set_access_control_headers bc rq = (case truthy (od_get (hq_headers rq) ''Origin'') of
      None \<Rightarrow> ([], False)
    | Some origin \<Rightarrow>
        (if bc_cross_origin bc then [SetHeader ''Access-Control-Allow-Origin'' ''*'']
         else [SetHeader ''Access-Control-Allow-Origin'' origin, SetHeader ''Vary'' ''Origin''], True))"

text \<open>\<open>methods\<close> are the SUPPORTED_METHODS that the handler class implements.\<close>

definition set_option_headers :: "base_conf \<Rightarrow> string list \<Rightarrow> string option \<Rightarrow> http_request \<Rightarrow> http_call list" where
  "set_option_headers bc methods allow rq =
     (let allow_header = (case truthy allow of Some a \<Rightarrow> a
                          | None \<Rightarrow> concat (map (\<lambda>(i, m). if i = 0 then m else '', '' @ m) (enumerate 0 methods)));
          (cors, any) = set_access_control_headers bc rq
      in [SetHeader ''Allow'' allow_header, SetHeader ''Access-Control-Allow-Headers'' ''Authorization''] @ cors
         @ (if any then [SetHeader ''Access-Control-Allow-Methods'' allow_header] else []))"

text \<open>The JSON values the handlers write; a Python object is none of them.\<close>

datatype json = JNull | JBool bool | JInt int | JStr string | JList "json list" | JDict "(string \<times> json) list" | JObject string

text \<open>
  \<open>write_json\<close>: a dictionary is dumped by \<open>dumps\<close> (the \<open>json\<close> module); a string is
  written as it is; \<open>write\<close> of anything else raises \<open>TypeError\<close> after the headers were set.
\<close>

definition write_json :: "(json \<Rightarrow> string) \<Rightarrow> base_conf \<Rightarrow> http_request \<Rightarrow> json \<Rightarrow> unit result \<times> http_call list" where
  "write_json dumps bc rq chunk =
     (let pre = SetHeader ''Content-Type'' ''application/json;charset=utf-8'' # fst (set_access_control_headers bc rq)
      in case chunk of
           JDict kvs \<Rightarrow> (Inr (), pre @ [WriteData (dumps chunk)])
         | JStr s \<Rightarrow> (Inr (), pre @ [WriteData s])
         | _ \<Rightarrow> (Inl TypeError, pre))"

definition write_error :: "(json \<Rightarrow> string) \<Rightarrow> base_conf \<Rightarrow> http_request \<Rightarrow> int \<Rightarrow> string \<Rightarrow> http_call list" where
  "write_error dumps bc rq code reason =
     snd (write_json dumps bc rq (JDict [(''status'', JStr (if code \<noteq> 200 then ''error'' else ''ok'')),
        (''httpcode'', JInt code), (''error'', JDict [(''message'', JStr reason)])])) @ [FinishCall]"

text \<open>The \<open>Forwarded\<close> header: parts that are not one pair are skipped.\<close>

definition forwarded_part :: "http_request \<Rightarrow> string \<Rightarrow> http_request" where
  "forwarded_part rq p = (case split_on CHR ''='' p of
      [k, v] \<Rightarrow> if k = ''host'' then rq\<lparr>hq_host := v\<rparr> else if k = ''proto'' then rq\<lparr>hq_protocol := v\<rparr> else rq
    | _ \<Rightarrow> rq)"

definition first_truthy :: "string option list \<Rightarrow> string option" where
  "first_truthy vs = first_set (map truthy vs)"

text \<open>The proxy URL, and the request with the host and protocol it may have replaced.\<close>

definition proxy_url :: "base_conf \<Rightarrow> http_request \<Rightarrow> string \<times> http_request" where
  "proxy_url bc rq =
     (let h = od_get (hq_headers rq);
          full = (\<lambda>r. (hq_protocol r @ ''://'' @ hq_host r @ ''/'', r))
      in if \<not> bc_http_proxy bc then full rq
         else case first_truthy [Some (bc_proxy_url bc), h ''X-Forwarded-Url'', h ''X-Qgis-Forwarded-Url''] of
           Some u \<Rightarrow> (if last u \<noteq> CHR ''/'' then u @ ''/'' else u, rq)
         | None \<Rightarrow>
             (let rq1 = (case truthy (h ''X-Forwarded-Host'') of None \<Rightarrow> rq | Some x \<Rightarrow> rq\<lparr>hq_host := x\<rparr>);
                  rq2 = (case truthy (h ''Forwarded'') of None \<Rightarrow> rq1
                         | Some x \<Rightarrow> foldl forwarded_part rq1 (split_on CHR '';'' x))
              in full rq2))"

text \<open>\<open>NotFoundHandler\<close> and \<open>ErrorHandler\<close>.\<close>

definition not_found_prepare :: "unit result" where
  "not_found_prepare = Inl (HTTPError 404 (Some ''Invalid resource path.''))"

definition error_prepare :: "int \<Rightarrow> string option \<Rightarrow> unit result" where
  "error_prepare code reason = Inl (HTTPError code reason)"

section \<open>The proxy to the workers\<close>

record async_handler =
  ah_base :: base_conf
  ah_allowed_hdrs :: "string list"
  ah_debug_id :: "string option"
  ah_ogc_scheme :: "string option"
  ah_monitor :: bool

record stats =
  num_requests :: nat
  num_errors :: nat

definition first_values :: "arguments \<Rightarrow> (string, string) odict" where
  "first_values args = map (\<lambda>(k, v). (k, hd v)) args"

definition encode_arguments :: "arguments \<Rightarrow> string" where
  "encode_arguments args = ''?'' @ urlencode (first_values args)"

text \<open>The headers that the handler computes, over the ones set before.\<close>

definition computed_headers ::
  "get_arg \<Rightarrow> async_handler \<Rightarrow> http_request \<Rightarrow> (string, string option) odict \<Rightarrow> (string, string option) odict" where
  "computed_headers garg ah rq headers =
     (let h = od_get (hq_headers rq);
          h1 = (case truthy (garg (hq_arguments rq) ''MAP'') of None \<Rightarrow> headers | Some p \<Rightarrow> od_set ''X-Map-Location'' (Some p) headers);
          h2 = (case ah_ogc_scheme ah of None \<Rightarrow> h1 | Some s \<Rightarrow> od_set ''X-Ogc-Scheme'' (Some s) h1);
          h3 = od_set ''If-None-Match'' (Some (case h ''If-None-Match'' of None \<Rightarrow> [] | Some v \<Rightarrow> v)) h2;
          h4 = od_set ''X-Request-Id'' (h ''X-Request-Id'') h3;
          h5 = (case truthy (h ''X-Debug-Id'') of None \<Rightarrow> h4
                | Some d \<Rightarrow> if ah_debug_id ah = Some ''*'' \<or> ah_debug_id ah = Some d then od_set ''X-Debug-Id'' (Some d) h4 else h4)
      in od_set ''Accept'' (Some (case h ''Accept'' of None \<Rightarrow> [] | Some v \<Rightarrow> v)) h5)"

text \<open>\<open>copy_headers\<close>: request headers whose upper-case name starts with an allowed prefix.\<close>

definition allowed_header :: "string list \<Rightarrow> string \<Rightarrow> bool" where
  "allowed_header pats k \<longleftrightarrow> (\<exists>p \<in> set pats. starts_with p (py_upper k))"

definition copied_headers :: "string list \<Rightarrow> (string, string) odict \<Rightarrow> (string, string option) odict" where
  "copied_headers pats rqh = map (\<lambda>(k, v). (k, Some v)) (filter (\<lambda>(k, v). allowed_header pats k) rqh)"

definition set_backend_headers ::
  "get_arg \<Rightarrow> async_handler \<Rightarrow> http_request \<Rightarrow> (string, string option) odict \<Rightarrow> (string, string option) odict" where
  "set_backend_headers garg ah rq headers =
     od_update (computed_headers garg ah rq headers) (copied_headers (ah_allowed_hdrs ah) (hq_headers rq))"

text \<open>What is handed to \<open>fetch\<close>.\<close>

record backend_call =
  bk_query :: string
  bk_method :: string
  bk_headers :: "(string, string option) odict"
  bk_data :: "string option"

definition make_call :: "get_arg \<Rightarrow> (arguments \<Rightarrow> string) \<Rightarrow> async_handler \<Rightarrow> string \<Rightarrow> http_request \<Rightarrow> backend_call" where
  "make_call garg encode ah method rq =
     (let query = encode (hq_arguments rq); (u, rq') = proxy_url (ah_base ah) rq;
          req_url = u @ lstrip_chars ''/'' (hq_path rq');
          headers = set_backend_headers garg ah rq' [(''X-Qgis-Forwarded-Url'', Some req_url)];
          url_encoded = (truthy (garg (hq_arguments rq') ''SERVICE'') \<noteq> None \<and> has_body_arguments rq')
      in \<lparr>bk_query = query, bk_method = (if url_encoded \<and> method = ''POST'' then ''GET'' else method),
          bk_headers = headers, bk_data = (if url_encoded then None else Some (hq_body rq'))\<rparr>)"

text \<open>Header values are text or integers.\<close>

fun header_text :: "hvalue \<Rightarrow> string" where
  "header_text (HStr s) = s"
| "header_text (HInt i) = int_str i"

text \<open>The chunks of a streamed response: what \<open>fetch_more\<close> yields and the exception that may end it.\<close>

type_synonym chunks = "string list \<times> exn option"

text \<open>
  The response part of \<open>handle_request\<close>: the status it ends with or the exception it lets
  through, and the calls it makes. An exception of the client is answered (504, 502) or not caught.
\<close>

definition error_answer :: "exn \<Rightarrow> http_call list \<Rightarrow> (exn + int) \<times> http_call list" where
  "error_answer e calls =
     (if e = RequestTimeoutError then (Inr 504, calls @ [SendErr 504 ''Request timeout error''])
      else if e = RequestGatewayError then (Inr 502, calls @ [SendErr 502 ''Backend request error''])
      else (Inl e, calls))"

definition send_response :: "base_conf \<Rightarrow> http_request \<Rightarrow> rhandler \<Rightarrow> chunks \<Rightarrow> (exn + int) \<times> http_call list" where
  "send_response bc rq resp rest =
     (let status = rh_status resp;
          pre = map (\<lambda>(k, v). SetHeader k (header_text v)) (rh_headers resp) @ fst (set_access_control_headers bc rq);
          data = (case truthy (rh_data resp) of None \<Rightarrow> [] | Some d \<Rightarrow> [WriteData d])
      in if status = 206 then
           (let (cs, r) = rest;
                calls = pre @ [SetStatus 200] @ data @ [FlushData] @ concat (map (\<lambda>c. [WriteData c, FlushData]) cs)
            in case r of None \<Rightarrow> (Inr status, calls) | Some e \<Rightarrow> error_answer e calls)
         else if status = 509 then (Inr status, pre @ [SendErr status ''Server busy, please retry later''])
         else (Inr status, pre @ [SetStatus status] @ data))"

text \<open>
  The handling of a request up to the call of the monitor, which comes last: \<open>hn_emitted\<close> is the status it is
  called with, \<open>hn_raised\<close> the exception that leaves the handler before. What the call itself does, and
  may raise, is \<open>handler_emit\<close> of theory Monitor.
\<close>

record handled =
  hn_calls :: "http_call list"
  hn_stats :: stats
  hn_raised :: "exn option"
  hn_emitted :: "int option"

definition handle_http ::
  "get_arg \<Rightarrow> (arguments \<Rightarrow> string) \<Rightarrow> async_handler \<Rightarrow> (backend_call \<Rightarrow> rhandler result \<times> chunks) \<Rightarrow> string \<Rightarrow>
     http_request \<Rightarrow> stats \<Rightarrow> handled" where
  "handle_http garg encode ah backend method rq st =
     (let call = make_call garg encode ah method rq;
          st1 = st\<lparr>num_requests := Suc (num_requests st)\<rparr>;
          (fetched, rest) = backend call;
          (out, calls) = (case fetched of
              Inl e \<Rightarrow> error_answer e []
            | Inr resp \<Rightarrow> send_response (ah_base ah) (snd (proxy_url (ah_base ah) rq)) resp rest)
      in case out of
           Inl e \<Rightarrow> \<lparr>hn_calls = calls, hn_stats = st1, hn_raised = Some e, hn_emitted = None\<rparr>
         | Inr status \<Rightarrow>
             \<lparr>hn_calls = calls, hn_stats = (if 500 \<le> status then st1\<lparr>num_errors := Suc (num_errors st1)\<rparr> else st1),
              hn_raised = None, hn_emitted = (if ah_monitor ah then Some status else None)\<rparr>)"

definition async_options :: "base_conf \<Rightarrow> http_request \<Rightarrow> http_call list" where
  "async_options bc rq = set_option_headers bc [] (Some ''GET, POST, OPTIONS'') rq"

text \<open>
  The methods that the handler implements; tornado answers 405 to the others. The answer to OPTIONS
  does not name HEAD, which is handled like GET.
\<close>

datatype verb_answer = HandleAs string | AnswerOptions | NotAllowed

definition async_verb :: "string \<Rightarrow> verb_answer" where
  "async_verb m = (if m \<in> {''GET'', ''POST'', ''HEAD''} then HandleAs m
     else if m = ''OPTIONS'' then AnswerOptions else NotAllowed)"

lemma advertised_verbs: "m \<in> {''GET'', ''POST'', ''OPTIONS''} \<longleftrightarrow> async_verb m \<noteq> NotAllowed \<and> m \<noteq> ''HEAD''"
  by (auto simp: async_verb_def)

section \<open>OWS\<close>

text \<open>\<open>prepare\<close>: argument names in upper case; of names that coincide then, the last wins.\<close>

definition ows_prepare :: "http_request \<Rightarrow> http_request" where
  "ows_prepare rq = rq\<lparr>hq_arguments := foldl (\<lambda>d (k, v). od_set (py_upper k) v d) [] (hq_arguments rq)\<rparr>"






text \<open>
  The values of arguments are bytes, which \<open>_decode\<close> takes for UTF-8. Text is in the model what its
  encoding is, so a decoding that succeeds changes nothing.
\<close>

definition monitor_argument :: "http_request \<Rightarrow> string \<Rightarrow> string result" where
  "monitor_argument rq k = (case od_get (hq_arguments rq) k of
      None \<Rightarrow> Inr ''__unknown__''
    | Some [] \<Rightarrow> Inl (OtherError ''IndexError'')
    | Some (v # vs) \<Rightarrow> utf8_decode v)"

definition ows_monitor_params :: "http_request \<Rightarrow> (string \<times> json) list result" where
  "ows_monitor_params rq =
     rbind (monitor_argument rq ''MAP'') (\<lambda>loc.
     rbind (monitor_argument rq ''SERVICE'') (\<lambda>service.
     rbind (monitor_argument rq ''REQUEST'') (\<lambda>request.
       Inr [(''MAP'', JStr loc), (''SERVICE'', JStr service), (''REQUEST'', JStr request)])))"

section \<open>Qgis APIs\<close>

definition oapi_prepare :: "http_request \<Rightarrow> http_request" where
  "oapi_prepare rq =
     (let args = hq_arguments rq in
      if od_has ''MAP'' args then rq
      else case find (\<lambda>(k, v). py_upper k = ''MAP'') args of
        None \<Rightarrow> rq
      | Some (k, v) \<Rightarrow> rq\<lparr>hq_arguments := od_set ''MAP'' v (od_del k args)\<rparr>)"

text \<open>The MAP parameter is the list of its values as bytes, which \<open>json\<close> cannot dump.\<close>

definition oapi_monitor_params :: "string \<Rightarrow> http_request \<Rightarrow> (string \<times> json) list" where
  "oapi_monitor_params service rq =
     [(''MAP'', (case od_get (hq_arguments rq) ''MAP'' of None \<Rightarrow> JStr ''__unknown__''
                 | Some vs \<Rightarrow> JList (map (\<lambda>_. JObject ''bytes'') vs))),
      (''SERVICE'', JStr (py_upper service)), (''REQUEST'', JStr (hq_path rq))]"

text \<open>The parameters that \<open>emit\<close> hands to the monitor.\<close>

definition emit_params :: "(string \<times> json) list option \<Rightarrow> int \<Rightarrow> int \<Rightarrow> json option \<Rightarrow> (string \<times> json) list option" where
  "emit_params params status ms mem = (case params of
      None \<Rightarrow> None
    | Some [] \<Rightarrow> None
    | Some ps \<Rightarrow> Some (od_update ps [(''RESPONSE_TIME'', JInt ms), (''RESPONSE_STATUS'', JInt status),
        (''RESPONSE_MEMUSED'', (case mem of None \<Rightarrow> JInt 0 | Some j \<Rightarrow> j))]))"

text \<open>\<open>json.dumps\<close> accepts everything but Python objects.\<close>

fun dumpable :: "json \<Rightarrow> bool" where
  "dumpable (JObject _) = False"
| "dumpable (JList js) = list_all dumpable js"
| "dumpable (JDict kvs) = list_all (\<lambda>(k, j). dumpable j) kvs"
| "dumpable _ = True"

section \<open>Headers that reach the worker\<close>

lemma od_get_copied_headers:
  "od_get (copied_headers pats d) k = (if allowed_header pats k then map_option Some (od_get d k) else None)"
  by (induction d) (auto simp: copied_headers_def)

lemma od_wf_copied_headers: "od_wf d \<Longrightarrow> od_wf (copied_headers pats d)"
proof -
  assume "od_wf d"
  then have "distinct (map fst (filter P d))" for P by (simp add: od_wf_def od_keys_def distinct_map_filter)
  then show ?thesis by (simp add: copied_headers_def od_wf_def od_keys_def comp_def split_def)
qed

text \<open>What the handler itself says of a header.\<close>

definition own_header :: "get_arg \<Rightarrow> async_handler \<Rightarrow> http_request \<Rightarrow> string \<Rightarrow> string \<Rightarrow> string option option" where
  "own_header garg ah rq url k =
     (let h = od_get (hq_headers rq) in
      if k = ''X-Qgis-Forwarded-Url'' then Some (Some url)
      else if k = ''X-Map-Location'' then map_option Some (truthy (garg (hq_arguments rq) ''MAP''))
      else if k = ''X-Ogc-Scheme'' then map_option Some (ah_ogc_scheme ah)
      else if k = ''If-None-Match'' \<or> k = ''Accept'' then Some (Some (case h k of None \<Rightarrow> [] | Some v \<Rightarrow> v))
      else if k = ''X-Request-Id'' then Some (h k)
      else if k = ''X-Debug-Id'' then
        (case truthy (h k) of None \<Rightarrow> None
         | Some d \<Rightarrow> if ah_debug_id ah = Some ''*'' \<or> ah_debug_id ah = Some d then Some (Some d) else None)
      else None)"

definition computed_names :: "string list" where
  "computed_names = [''X-Qgis-Forwarded-Url'', ''X-Map-Location'', ''X-Ogc-Scheme'', ''If-None-Match'', ''X-Request-Id'', ''X-Debug-Id'', ''Accept'']"

lemma own_header_names: "own_header garg ah rq url k \<noteq> None \<Longrightarrow> k \<in> set computed_names"
  by (auto simp: own_header_def computed_names_def Let_def split: if_splits)

text \<open>A key that is set only when a value is there, and passes a test.\<close>

lemma od_get_opt_set:
  "od_get (case v of None \<Rightarrow> d | Some x \<Rightarrow> od_set k (Some x) d) j =
     (if j = k \<and> v \<noteq> None then Some v else od_get d j)"
  by (cases v) simp_all

lemma od_get_opt_set_if:
  "od_get (case v of None \<Rightarrow> d | Some x \<Rightarrow> if c x then od_set k (Some x) d else d) j =
     (if j = k \<and> v \<noteq> None \<and> c (the v) then Some v else od_get d j)"
  by (cases v) simp_all

lemmas opt_set_simps = od_get_opt_set od_get_opt_set_if od_get_set

lemma computed_header:
  "od_get (computed_headers garg ah rq [(''X-Qgis-Forwarded-Url'', Some url)]) k = own_header garg ah rq url k"
proof (cases "k \<in> set computed_names")
  case True
  then show ?thesis
    unfolding computed_names_def set_simps computed_headers_def own_header_def Let_def opt_set_simps
    by (elim insertE emptyE) (auto split: option.split)
next
  case False
  then show ?thesis
    unfolding computed_headers_def own_header_def Let_def opt_set_simps by (simp add: computed_names_def)
qed

lemma backend_header:
  assumes "od_wf (hq_headers rq)"
  shows "od_get (set_backend_headers garg ah rq [(''X-Qgis-Forwarded-Url'', Some url)]) k =
     (case (if allowed_header (ah_allowed_hdrs ah) k then od_get (hq_headers rq) k else None) of
        Some v \<Rightarrow> Some (Some v)
      | None \<Rightarrow> own_header garg ah rq url k)"
  unfolding set_backend_headers_def od_get_od_update_wf [OF od_wf_copied_headers [OF assms]]
  by (simp add: od_get_copied_headers computed_header split: option.split)

lemma forwarded_part_frame:
  "hq_headers (foldl forwarded_part rq ps) = hq_headers rq \<and> hq_arguments (foldl forwarded_part rq ps) = hq_arguments rq
   \<and> hq_body_arguments (foldl forwarded_part rq ps) = hq_body_arguments rq \<and> hq_body (foldl forwarded_part rq ps) = hq_body rq
   \<and> hq_path (foldl forwarded_part rq ps) = hq_path rq"
  by (induction ps arbitrary: rq) (auto simp: forwarded_part_def split: list.split)

lemma proxy_url_frame:
  assumes "proxy_url bc rq = (u, rq')"
  shows "hq_headers rq' = hq_headers rq \<and> hq_arguments rq' = hq_arguments rq \<and> hq_body_arguments rq' = hq_body_arguments rq
   \<and> hq_body rq' = hq_body rq \<and> hq_path rq' = hq_path rq"
  using assms forwarded_part_frame by (auto simp: proxy_url_def Let_def split: if_splits option.splits)

lemma make_call_headers:
  obtains rq' url where "bk_headers (make_call garg encode ah m rq) = set_backend_headers garg ah rq' [(''X-Qgis-Forwarded-Url'', Some url)]"
    "hq_headers rq' = hq_headers rq" "hq_arguments rq' = hq_arguments rq"
proof -
  obtain u rq' where p: "proxy_url (ah_base ah) rq = (u, rq')" by fastforce
  show ?thesis
    by (rule that [of rq' "u @ lstrip_chars ''/'' (hq_path rq')"]) (use proxy_url_frame [OF p] in \<open>simp_all add: make_call_def p Let_def\<close>)
qed

text \<open>
  C27: A header reaches the worker with the value of the client's request exactly when its name
  starts with an allowed prefix; otherwise only seven headers exist, with the values the handler
  computes. So a client replaces any of these seven as soon as an allowed prefix covers it: with
  the default prefixes the forwarded URL, with an empty prefix (an empty \<open>allow_headers\<close>
  option) the project location, the scheme and every other header.
\<close>

theorem headers_to_worker:
  assumes "od_wf (hq_headers rq)"
  shows "(\<forall>k v. allowed_header (ah_allowed_hdrs ah) k \<and> od_get (hq_headers rq) k = Some v \<longrightarrow>
            od_get (bk_headers (make_call garg encode ah m rq)) k = Some (Some v))
     \<and> (\<forall>k. \<not> allowed_header (ah_allowed_hdrs ah) k \<and> od_has k (bk_headers (make_call garg encode ah m rq)) \<longrightarrow> k \<in> set computed_names)
     \<and> (\<forall>v. ''X-QGIS-'' \<in> set (ah_allowed_hdrs ah) \<and> od_get (hq_headers rq) ''X-Qgis-Forwarded-Url'' = Some v \<longrightarrow>
            od_get (bk_headers (make_call garg encode ah m rq)) ''X-Qgis-Forwarded-Url'' = Some (Some v))
     \<and> (\<forall>k v. [] \<in> set (ah_allowed_hdrs ah) \<and> od_get (hq_headers rq) k = Some v \<longrightarrow>
            od_get (bk_headers (make_call garg encode ah m rq)) k = Some (Some v))"
proof -
  obtain rq' url where H: "bk_headers (make_call garg encode ah m rq) = set_backend_headers garg ah rq' [(''X-Qgis-Forwarded-Url'', Some url)]"
    and rq': "hq_headers rq' = hq_headers rq"
    by (rule make_call_headers)
  have spec: "od_get (bk_headers (make_call garg encode ah m rq)) k =
     (case (if allowed_header (ah_allowed_hdrs ah) k then od_get (hq_headers rq) k else None) of
        Some v \<Rightarrow> Some (Some v) | None \<Rightarrow> own_header garg ah rq' url k)" for k
    unfolding H using backend_header [of rq'] assms rq' by simp
  have "allowed_header pats ''X-Qgis-Forwarded-Url''" if "''X-QGIS-'' \<in> set pats" for pats
  proof -
    have "starts_with ''X-QGIS-'' (py_upper ''X-Qgis-Forwarded-Url'')" by code_simp
    with that show ?thesis unfolding allowed_header_def by blast
  qed
  moreover have "allowed_header pats k" if "[] \<in> set pats" for pats k
    using that by (auto simp: allowed_header_def intro!: bexI [of _ "[]"])
  ultimately show ?thesis
    using own_header_names [of garg ah rq' url] by (auto simp: spec od_has_def)
qed

definition simple_base :: base_conf where
  "simple_base = \<lparr>bc_cross_origin = True, bc_http_proxy = False, bc_proxy_url = [], bc_version = ''1.9''\<rparr>"

definition default_handler :: async_handler where
  "default_handler = \<lparr>ah_base = simple_base, ah_allowed_hdrs = [''X-QGIS-'', ''X-LIZMAP-''], ah_debug_id = Some ''*'',
     ah_ogc_scheme = Some ''OWS'', ah_monitor = True\<rparr>"

definition last_value :: get_arg where
  "last_value args k = map_option (\<lambda>vs. py_strip (last vs)) (od_get args k)"

definition sample_request :: http_request where
  "sample_request = \<lparr>hq_method = ''GET'', hq_protocol = ''http'', hq_host = ''h'', hq_path = ''/ows/'', hq_uri = ''/ows/'',
     hq_headers = [(''X-Qgis-Forwarded-Url'', ''http://evil/'')],
     hq_arguments = [(''MAP'', [''one'', ''two'']), (''SERVICE'', [''WFS'']), (''REQUEST'', [''GetFeature'']), (''MAXFEATURES'', [''5000''])],
     hq_body_arguments = [], hq_body = []\<rparr>"

theorem headers_to_worker_witness:
  "od_get (bk_headers (make_call last_value encode_arguments default_handler ''GET'' sample_request)) ''X-Qgis-Forwarded-Url'' = Some (Some ''http://evil/'')"
proof -
  have w: "od_wf (hq_headers sample_request)" by (simp add: sample_request_def od_wf_def od_keys_def)
  show ?thesis
    using headers_to_worker [OF w, of default_handler last_value encode_arguments "''GET''"]
    by (auto simp: sample_request_def default_handler_def)
qed

section \<open>Queries\<close>

lemma map_of_filter_values:
  "od_wf d \<Longrightarrow> od_get (filter (\<lambda>(k, v). v \<noteq> []) d) k = truthy (od_get d k)"
proof (induction d)
  case (Cons kv d)
  obtain j v where kv: "kv = (j, v)" by (cases kv)
  have d: "od_wf d" "j \<notin> set (od_keys d)" using Cons.prems kv by (auto simp: od_wf_def od_keys_def)
  then have "od_get d j = None" by (simp add: map_of_eq_None_iff od_keys_def)
  then show ?case using Cons.IH [OF d(1)] kv by (cases v) (auto simp: truthy_def)
qed (simp add: truthy_def)

lemma parse_query: "od_wf d \<Longrightarrow> od_get (parse_qsl (urlencode d)) k = truthy (od_get d k)"
proof (cases "d = []")
  case True
  then show ?thesis by (simp add: urlencode_def parse_qsl_def truthy_def after_def)
next
  case False
  then show "od_wf d \<Longrightarrow> ?thesis" by (simp add: parse_urlencode map_of_filter_values)
qed

lemma first_values_wf: "od_wf args \<Longrightarrow> od_wf (first_values args)"
  by (simp add: od_wf_def od_keys_def first_values_def comp_def split_def)

lemma od_get_first_values: "od_get (first_values args) k = map_option hd (od_get args k)"
  by (induction args) (auto simp: first_values_def)

lemma make_call_query: "bk_query (make_call garg encode ah m rq) = encode (hq_arguments rq)"
  by (simp add: make_call_def Let_def split_def)

text \<open>
  C29: What the worker reads from the query is the first value of every argument, unless it is
  empty, whatever characters it holds. The project location, though, is taken with
  \<open>get_argument\<close>, which gives the last value: with MAP given twice the query and the
  location name different projects.
\<close>

theorem query_and_location:
  assumes "od_wf (hq_arguments rq)" "od_wf (hq_headers rq)"
    and get_argument: "\<forall>args k. garg args k = map_option (\<lambda>vs. py_strip (last vs)) (od_get args k)"
    and "\<not> allowed_header (ah_allowed_hdrs ah) ''X-Map-Location''"
  shows "(\<forall>k. od_get (parse_qsl (tl (bk_query (make_call garg encode_arguments ah m rq)))) k =
             truthy (map_option hd (od_get (hq_arguments rq) k)))
     \<and> (\<forall>vs. od_get (hq_arguments rq) ''MAP'' = Some vs \<and> py_strip (last vs) \<noteq> [] \<longrightarrow>
          od_get (bk_headers (make_call garg encode_arguments ah m rq)) ''X-Map-Location'' = Some (Some (py_strip (last vs))))"
proof -
  obtain rq' url where H: "bk_headers (make_call garg encode_arguments ah m rq) = set_backend_headers garg ah rq' [(''X-Qgis-Forwarded-Url'', Some url)]"
    and rq': "hq_headers rq' = hq_headers rq" "hq_arguments rq' = hq_arguments rq"
    by (rule make_call_headers)
  have "od_get (bk_headers (make_call garg encode_arguments ah m rq)) ''X-Map-Location'' = own_header garg ah rq' url ''X-Map-Location''"
    unfolding H using backend_header [of rq'] assms(2,4) rq' by simp
  moreover have "truthy (Some s) = Some s" if "s \<noteq> []" for s
    using that by (cases s) (auto simp: truthy_def)
  ultimately show ?thesis
    using parse_query [OF first_values_wf [OF assms(1)]] get_argument rq'(2)
    by (simp add: make_call_query encode_arguments_def od_get_first_values own_header_def)
qed

theorem query_and_location_witness:
  "od_get (parse_qsl (tl (bk_query (make_call last_value encode_arguments default_handler ''GET'' sample_request)))) ''MAP'' = Some ''one''
   \<and> od_get (bk_headers (make_call last_value encode_arguments default_handler ''GET'' sample_request)) ''X-Map-Location'' = Some (Some ''two'')"
proof -
  have w: "od_wf (hq_arguments sample_request)" "od_wf (hq_headers sample_request)"
    by (simp_all add: sample_request_def od_wf_def od_keys_def)
  have g: "\<forall>args k. last_value args k = map_option (\<lambda>vs. py_strip (last vs)) (od_get args k)"
    by (simp add: last_value_def)
  have n: "\<not> allowed_header (ah_allowed_hdrs default_handler) ''X-Map-Location''" by code_simp
  have two: "py_strip ''two'' = ''two''" by code_simp
  show ?thesis
    using query_and_location [OF w g n, of "''GET''"] two by (simp add: sample_request_def truthy_def)
qed

section \<open>The limit of WFS GetFeature\<close>

lemma int_str_ne [simp]: "int_str i \<noteq> []"
  by (simp add: int_str_def)









section \<open>Failures of the back end\<close>

text \<open>What the coroutine gets when the broker answers a request with ERR 509.\<close>

lemma rejected_request_fails:
  assumes "store c cid = Some rhandler_init" "cid \<in> set (table c)"
  shows "fst (fetch_resume cid (client_recv cid (Raw ''ERR'') [code] c)) = Inl (RequestProxyError code)"
  using assms by (simp add: client_recv_def fetch_resume_def rh_set_exception_def rhandler_init_def future_done_def rh_done_def Let_def)

text \<open>
  C38: A time-out is answered with 504 and a back end that cannot be reached with 502, and both
  are counted as errors and reported to the monitor. A request that the broker rejects because its
  queue is full is not: the exception of the client leaves \<open>handle_request\<close>, nothing is
  answered there, no error is counted and no monitor record is sent.
\<close>

theorem backend_failures:
  fixes st :: stats
  assumes "backend (make_call garg encode ah m rq) = (fetched, cs)"
  shows "(fetched = Inl RequestTimeoutError \<longrightarrow> handle_http garg encode ah backend m rq st =
            \<lparr>hn_calls = [SendErr 504 ''Request timeout error''],
             hn_stats = \<lparr>num_requests = Suc (num_requests st), num_errors = Suc (num_errors st)\<rparr>,
             hn_raised = None, hn_emitted = (if ah_monitor ah then Some 504 else None)\<rparr>)
     \<and> (fetched = Inl RequestGatewayError \<longrightarrow> handle_http garg encode ah backend m rq st =
            \<lparr>hn_calls = [SendErr 502 ''Backend request error''],
             hn_stats = \<lparr>num_requests = Suc (num_requests st), num_errors = Suc (num_errors st)\<rparr>,
             hn_raised = None, hn_emitted = (if ah_monitor ah then Some 502 else None)\<rparr>)
     \<and> (\<forall>c cid code. store c cid = Some rhandler_init \<and> cid \<in> set (table c)
            \<and> fetched = fst (fetch_resume cid (client_recv cid (Raw ''ERR'') [code] c)) \<longrightarrow>
          handle_http garg encode ah backend m rq st =
            \<lparr>hn_calls = [], hn_stats = \<lparr>num_requests = Suc (num_requests st), num_errors = num_errors st\<rparr>,
             hn_raised = Some (RequestProxyError code), hn_emitted = None\<rparr>)"
  using assms rejected_request_fails by (auto simp: handle_http_def error_answer_def Let_def)

definition one_waiting :: client where
  "one_waiting = \<lparr>store = (\<lambda>_. None)(''7'' \<mapsto> rhandler_init), table = [''7''], polling = True\<rparr>"

theorem backend_failures_witness:
  "hn_raised (handle_http last_value encode_arguments default_handler
      (\<lambda>_. (fst (fetch_resume ''7'' (client_recv ''7'' (Raw ''ERR'') [''509''] one_waiting)), ([], None)))
      ''GET'' sample_request \<lparr>num_requests = 0, num_errors = 0\<rparr>) = Some (RequestProxyError ''509'')"
proof -
  let ?F = "fst (fetch_resume ''7'' (client_recv ''7'' (Raw ''ERR'') [''509''] one_waiting))"
  have b: "(\<lambda>_. (?F, ([], None))) (make_call last_value encode_arguments default_handler ''GET'' sample_request) = (?F, ([], None))"
    by simp
  show ?thesis using backend_failures [OF b] by (auto simp: one_waiting_def)
qed

section \<open>Monitoring of api requests\<close>

text \<open>The parameters of an api request with a MAP argument hold its raw bytes; \<open>json\<close> cannot dump them.\<close>

lemma oapi_params_not_dumpable:
  "od_get (hq_arguments rq) ''MAP'' = Some vs \<Longrightarrow> vs \<noteq> [] \<Longrightarrow> \<not> dumpable (JDict (oapi_monitor_params service rq))"
  by (cases vs) (simp_all add: oapi_monitor_params_def)

lemma ows_params_dumpable: "ows_monitor_params rq = Inr ps \<Longrightarrow> dumpable (JDict ps)"
  by (auto simp: ows_monitor_params_def rbind_eq_Inr)

end
