(* ===== verification/Middleware.thy ===== *)
theory Middleware
  imports Handlers ComponentManager
begin

text \<open>
  The access policies: \<open>src/pyqgisservercontrib/core/filters.py\<close> (filters),
  \<open>src/pyqgisserver/middleware.py\<close> (the router) and
  \<open>src/pyqgisservercontrib/middlewares/request_logger.py\<close> (a filter that logs requests). A
  compiled regular expression is a parameter: its match on a path, whether it has named groups, and
  its substitution. A filter function gives the request it leaves behind, or raises.
\<close>

section \<open>Filters\<close>

record pattern =
  pt_match :: "string \<Rightarrow> (string list \<times> options) option"
  pt_named :: bool
  pt_sub :: "string \<Rightarrow> string \<Rightarrow> string"

record 'r request_filter =
  fi_pattern :: "pattern option"
  fi_repl :: "string option"
  fi_args :: "string list"
  fi_kwargs :: options
  fi_fn :: "'r \<Rightarrow> string list \<Rightarrow> options \<Rightarrow> 'r result"

definition filter_init :: "pattern option \<Rightarrow> string option \<Rightarrow> ('r \<Rightarrow> string list \<Rightarrow> options \<Rightarrow> 'r result) \<Rightarrow> 'r request_filter" where
  "filter_init pat repl fn = \<lparr>fi_pattern = pat, fi_repl = repl, fi_args = [], fi_kwargs = [], fi_fn = fn\<rparr>"

text \<open>\<open>match\<close>: the path to go on with, if the filter matches, and the filter with its match arguments.\<close>

definition filter_match :: "'r request_filter \<Rightarrow> string \<Rightarrow> string option \<times> 'r request_filter" where
  "filter_match f path = (case fi_pattern f of
      None \<Rightarrow> (Some path, f)
    | Some pt \<Rightarrow> (case pt_match pt path of
          None \<Rightarrow> (None, f)
        | Some (groups, dict) \<Rightarrow>
            (Some (case truthy (fi_repl f) of None \<Rightarrow> path | Some r \<Rightarrow> pt_sub pt r path),
             if pt_named pt then f\<lparr>fi_kwargs := dict\<rparr> else f\<lparr>fi_args := groups\<rparr>)))"

definition filter_apply :: "'r request_filter \<Rightarrow> 'r \<Rightarrow> 'r result" where
  "filter_apply f rq = fi_fn f rq (fi_args f) (fi_kwargs f)"

section \<open>Policies\<close>

record 'r policy =
  po_pri :: int
  po_filters :: "'r request_filter list"

text \<open>\<open>add_filters\<close> keeps what is a filter; other objects (None) are left out.\<close>

definition add_filters :: "'r request_filter option list \<Rightarrow> int \<Rightarrow> 'r policy list \<Rightarrow> 'r policy list" where
  "add_filters fs pri collection = collection @ [\<lparr>po_pri = pri, po_filters = List.map_filter id fs\<rparr>]"

definition sort_policies :: "'r policy list \<Rightarrow> 'r policy list" where
  "sort_policies ps = rev (sort_key po_pri (rev ps))"

definition load_access_policies :: "('r policy list \<Rightarrow> unit result \<times> 'r policy list) entry_point list \<Rightarrow> 'r policy list result" where
  "load_access_policies eps = (case register_entrypoints eps ''py_qgis_server.access_policy'' [] of
      (Inl e, _) \<Rightarrow> Inl e
    | (Inr _, collection) \<Rightarrow> Inr (sort_policies collection))"

section \<open>The router\<close>

text \<open>Where a request goes: to the application, or to the error handler with a status and reason.\<close>

datatype routed = ToApp http_request | ToError int "string option"

text \<open>
  The inner loop: the first filter that matches is applied to the request with its new path, and
  ends the loop. \<open>Inl\<close> is an early return. The filters are returned with their match arguments.
\<close>

fun run_filters :: "http_request request_filter list \<Rightarrow> http_request \<Rightarrow> (routed + http_request) \<times> http_request request_filter list" where
  "run_filters [] rq = (Inr rq, [])"
| "run_filters (f # fs) rq = (case filter_match f (hq_path rq) of
      (None, f') \<Rightarrow> (let (r, fs') = run_filters fs rq in (r, f' # fs'))
    | (Some path, f') \<Rightarrow>
        ((case filter_apply f' (rq\<lparr>hq_path := path\<rparr>) of
            Inr rq' \<Rightarrow> Inr rq'
          | Inl (HTTPError code reason) \<Rightarrow> Inl (ToError code reason)
          | Inl e \<Rightarrow> Inl (ToError 500 None)), f' # fs))"

fun run_policies :: "http_request policy list \<Rightarrow> http_request \<Rightarrow> routed \<times> http_request policy list" where
  "run_policies [] rq = (ToApp rq, [])"
| "run_policies (p # ps) rq = (case run_filters (po_filters p) rq of
      (Inl r, fs) \<Rightarrow> (r, p\<lparr>po_filters := fs\<rparr> # ps)
    | (Inr rq', fs) \<Rightarrow> (let (r, ps') = run_policies ps rq' in (r, p\<lparr>po_filters := fs\<rparr> # ps')))"

definition find_handler :: "http_request policy list \<Rightarrow> http_request \<Rightarrow> routed" where
  "find_handler ps rq = fst (run_policies ps rq)"

text \<open>\<open>initialize_middleware\<close> of \<open>src/pyqgisserver/runtime.py\<close>: without filters the application is the router.\<close>

definition initialize_middleware ::
  "environ \<Rightarrow> config \<Rightarrow> (http_request policy list \<Rightarrow> unit result \<times> http_request policy list) entry_point list \<Rightarrow>
     (http_request \<Rightarrow> routed) result" where
  "initialize_middleware env c eps = (case conf_getboolean env ''server'' ''enable_filters'' None c of
      (Inl e, _) \<Rightarrow> Inl e
    | (Inr b, _) \<Rightarrow> if b then rbind (load_access_policies eps) (\<lambda>ps. Inr (find_handler ps)) else Inr ToApp)"

section \<open>The request logger\<close>

record logged_data =
  rd_timestamp :: int
  rd_method :: string
  rd_uri :: string
  rd_body :: string
  rd_headers :: options

definition logged_request :: "int \<Rightarrow> http_request \<Rightarrow> logged_data" where
  "logged_request now rq = \<lparr>rd_timestamp = now, rd_method = hq_method rq, rd_uri = hq_uri rq, rd_body = hq_body rq, rd_headers = hq_headers rq\<rparr>"

text \<open>
  The filter is registered only when the log file is configured and can be opened; \<open>print\<close>
  is the printing of a request.
\<close>

definition register_filters :: "environ \<Rightarrow> (string \<Rightarrow> unit result) \<Rightarrow> (http_request \<Rightarrow> unit result) \<Rightarrow> http_request policy list \<Rightarrow> unit result \<times> http_request policy list" where
  "register_filters env open_log print ps = (case truthy (env ''PY_QGIS_SERVER_REQUEST_LOG'') of
      None \<Rightarrow> (Inr (), ps)
    | Some path \<Rightarrow> (case open_log path of
          Inl e \<Rightarrow> (Inl e, ps)
        | Inr _ \<Rightarrow> (Inr (), add_filters [Some (filter_init None None (\<lambda>rq a k. rbind (print rq) (\<lambda>_. Inr rq)))] 10000 ps)))"

section \<open>The policy in force\<close>

text \<open>
  The reference: each policy is a function on requests, its first matching filter on the request
  with the path that filter gives; the policies are composed in order, and the first failure
  decides the answer.
\<close>

definition apply_policy :: "http_request policy \<Rightarrow> http_request \<Rightarrow> http_request result" where
  "apply_policy p rq = (case find (\<lambda>f. fst (filter_match f (hq_path rq)) \<noteq> None) (po_filters p) of
      None \<Rightarrow> Inr rq
    | Some f \<Rightarrow> filter_apply (snd (filter_match f (hq_path rq))) (rq\<lparr>hq_path := the (fst (filter_match f (hq_path rq)))\<rparr>))"

definition answer :: "http_request result \<Rightarrow> routed" where
  "answer r = (case r of Inr rq \<Rightarrow> ToApp rq | Inl (HTTPError code reason) \<Rightarrow> ToError code reason | Inl e \<Rightarrow> ToError 500 None)"

lemma run_filters_spec:
  "fst (run_filters (po_filters p) rq) = (case apply_policy p rq of Inr rq' \<Rightarrow> Inr rq' | Inl e \<Rightarrow> Inl (answer (Inl e)))"
proof -
  have "fst (run_filters fs rq) = (case (case find (\<lambda>f. fst (filter_match f (hq_path rq)) \<noteq> None) fs of
      None \<Rightarrow> Inr rq
    | Some f \<Rightarrow> filter_apply (snd (filter_match f (hq_path rq))) (rq\<lparr>hq_path := the (fst (filter_match f (hq_path rq)))\<rparr>))
    of Inr rq' \<Rightarrow> Inr rq' | Inl e \<Rightarrow> Inl (answer (Inl e)))" for fs
  proof (induction fs)
    case (Cons f fs)
    then show ?case by (auto simp: answer_def split: prod.splits option.splits sum.splits exn.splits)
  qed simp
  then show ?thesis by (simp add: apply_policy_def)
qed

lemma find_handler_spec: "find_handler ps rq = answer (foldl (\<lambda>r p. rbind r (apply_policy p)) (Inr rq) ps)"
proof -
  have fail: "foldl (\<lambda>r p. rbind r (apply_policy p)) (Inl e) ps = Inl e" for e ps
    by (induction ps) auto
  show ?thesis
  proof (induction ps arbitrary: rq)
    case (Cons p ps)
    obtain r fs where r: "run_filters (po_filters p) rq = (r, fs)" by fastforce
    then have r': "r = (case apply_policy p rq of Inr rq' \<Rightarrow> Inr rq' | Inl e \<Rightarrow> Inl (answer (Inl e)))"
      using run_filters_spec [of p rq] by simp
    show ?case
    proof (cases "apply_policy p rq")
      case (Inl e)
      then show ?thesis using r r' fail by (simp add: find_handler_def)
    next
      case (Inr rq')
      then show ?thesis using r r' Cons.IH [of rq'] by (simp add: find_handler_def split_def)
    qed
  qed (simp add: find_handler_def answer_def)
qed

lemma sort_policies_facts:
  "sorted_wrt (\<lambda>p q. po_pri q \<le> po_pri p) (sort_policies ps)"
  "filter (\<lambda>p. po_pri p = k) (sort_policies ps) = filter (\<lambda>p. po_pri p = k) ps"
proof -
  show "sorted_wrt (\<lambda>p q. po_pri q \<le> po_pri p) (sort_policies ps)"
    using sorted_sort_key [of po_pri "rev ps"] by (simp add: sort_policies_def sorted_wrt_rev sorted_map)
  have "filter (\<lambda>p. po_pri p = k) (sort_key po_pri (rev ps)) = filter (\<lambda>p. po_pri p = k) (rev ps)"
    using sort_key_stable [of po_pri k "rev ps"] by simp
  then show "filter (\<lambda>p. po_pri p = k) (sort_policies ps) = filter (\<lambda>p. po_pri p = k) ps"
    by (simp add: sort_policies_def flip: rev_filter)
qed

text \<open>
  C30: The router applies the policies by descending priority, those of one priority in the
  order of their registration, and of each policy only the first matching filter, to the request
  that the filters before it left; the first failure is answered with its status, or 500. A
  request reaches the application only when every policy let it pass.
\<close>

theorem policies_in_order:
  "find_handler (sort_policies ps) rq = answer (foldl (\<lambda>r p. rbind r (apply_policy p)) (Inr rq) (sort_policies ps))
   \<and> sorted_wrt (\<lambda>p q. po_pri q \<le> po_pri p) (sort_policies ps)
   \<and> (\<forall>k. filter (\<lambda>p. po_pri p = k) (sort_policies ps) = filter (\<lambda>p. po_pri p = k) ps)"
  by (simp add: find_handler_spec sort_policies_facts)

end
