(* ===== verification/Apis.thy ===== *)
theory Apis
  imports Handlers Plugins QgsWorker
begin

text \<open>
  The management APIs that run in the workers, inside QGIS server:
  \<open>src/pyqgisserver/management/apis/handler.py\<close> (a request handler with tornado's interface on
  top of a QGIS response), \<open>apis/cache.py\<close> and \<open>apis/plugins.py\<close>. What is done to
  the QGIS response is the list of its methods called. The body of a handler method is the sequence
  of calls it makes on its handler; an exception ends it. \<open>responses\<close> is the table of status
  texts of \<open>http.client\<close>, \<open>dumps\<close> is \<open>json.dumps\<close>.
\<close>

section \<open>The request handler\<close>

datatype api_call = ClearResp | SetCode int | SetHead string string | WriteResp string | FinishResp

record api_handler =
  ap_finished :: bool
  ap_reason :: string
  ap_calls :: "api_call list"

definition api_init :: api_handler where
  "api_init = \<lparr>ap_finished = False, ap_reason = [], ap_calls = []\<rparr>"

definition api_emit :: "api_call list \<Rightarrow> api_handler \<Rightarrow> api_handler" where
  "api_emit cs h = h\<lparr>ap_calls := ap_calls h @ cs\<rparr>"

text \<open>\<open>write\<close>: dictionaries are dumped; what is neither a dictionary nor text is a \<open>TypeError\<close>.\<close>

definition api_write :: "(json \<Rightarrow> string) \<Rightarrow> json \<Rightarrow> api_handler \<Rightarrow> unit result \<times> api_handler" where
  "api_write dumps chunk h =
     (let out = (\<lambda>s. (Inr (), api_emit [SetHead ''Content-Type'' ''application/json;charset=utf-8'', WriteResp s] h))
      in case chunk of
           JDict kvs \<Rightarrow> if dumpable chunk then out (dumps chunk) else (Inl TypeError, h)
         | JStr s \<Rightarrow> out s
         | _ \<Rightarrow> (Inl TypeError, h))"

definition api_finish :: "(json \<Rightarrow> string) \<Rightarrow> json option \<Rightarrow> api_handler \<Rightarrow> unit result \<times> api_handler" where
  "api_finish dumps chunk h =
     (if ap_finished h then (Inl RuntimeError, h)
      else case (case chunk of None \<Rightarrow> (Inr (), h) | Some c \<Rightarrow> api_write dumps c h) of
        (Inl e, h1) \<Rightarrow> (Inl e, h1)
      | (Inr _, h1) \<Rightarrow> (Inr (), api_emit [FinishResp] (h1\<lparr>ap_finished := True\<rparr>)))"

definition api_set_status :: "(int \<Rightarrow> string option) \<Rightarrow> int \<Rightarrow> string option \<Rightarrow> api_handler \<Rightarrow> api_handler" where
  "api_set_status responses code reason h =
     (api_emit [SetCode code] h)\<lparr>ap_reason := (case reason of Some r \<Rightarrow> r
        | None \<Rightarrow> (case responses code of None \<Rightarrow> ''Unknown'' | Some r \<Rightarrow> r))\<rparr>"

text \<open>\<open>exc\<close> is the exception of \<open>exc_info\<close>; the reason of an \<open>HTTPError\<close> wins.\<close>

definition error_reason :: "string option \<Rightarrow> exn option \<Rightarrow> string option" where
  "error_reason reason exc = (case exc of
      Some (HTTPError _ (Some r)) \<Rightarrow> if r = [] then reason else Some r
    | _ \<Rightarrow> reason)"

definition api_send_error ::
  "(json \<Rightarrow> string) \<Rightarrow> (int \<Rightarrow> string option) \<Rightarrow> int \<Rightarrow> string option \<Rightarrow> exn option \<Rightarrow> api_handler \<Rightarrow> unit result \<times> api_handler" where
  "api_send_error dumps responses code reason exc h =
     (let h1 = api_set_status responses code (error_reason reason exc) (api_emit [ClearResp] h);
          (r, h2) = api_write dumps (JDict [(''status'', JStr (if code \<noteq> 200 then ''error'' else ''ok'')),
             (''httpcode'', JInt code), (''error'', JDict [(''message'', JStr (ap_reason h1))])]) h1
      in case r of Inl e \<Rightarrow> (Inl e, h2)
         | Inr _ \<Rightarrow> if ap_finished h2 then (Inr (), h2) else api_finish dumps None h2)"

section \<open>Handler methods\<close>

datatype api_op =
    OpWrite json
  | OpStatus int "string option"
  | OpHeader string string
  | OpFinish "json option"
  | OpSendError int "string option"
  | OpRaise exn

fun run_op :: "(json \<Rightarrow> string) \<Rightarrow> (int \<Rightarrow> string option) \<Rightarrow> api_op \<Rightarrow> api_handler \<Rightarrow> unit result \<times> api_handler" where
  "run_op dumps responses (OpWrite c) h = api_write dumps c h"
| "run_op dumps responses (OpStatus code reason) h = (Inr (), api_set_status responses code reason h)"
| "run_op dumps responses (OpHeader n v) h = (Inr (), api_emit [SetHead n v] h)"
| "run_op dumps responses (OpFinish c) h = api_finish dumps c h"
| "run_op dumps responses (OpSendError code reason) h = api_send_error dumps responses code reason None h"
| "run_op dumps responses (OpRaise e) h = (Inl e, h)"

fun run_ops :: "(json \<Rightarrow> string) \<Rightarrow> (int \<Rightarrow> string option) \<Rightarrow> api_op list \<Rightarrow> api_handler \<Rightarrow> unit result \<times> api_handler" where
  "run_ops dumps responses [] h = (Inr (), h)"
| "run_ops dumps responses (x # xs) h = (case run_op dumps responses x h of
      (Inl e, h1) \<Rightarrow> (Inl e, h1) | (Inr _, h1) \<Rightarrow> run_ops dumps responses xs h1)"

text \<open>A handler class: its \<open>prepare\<close> and its methods; the others raise 405.\<close>

record api_class =
  ac_prepare :: "api_op list"
  ac_methods :: "(qmethod, api_op list) odict"

definition unimplemented_method :: "api_op list" where
  "unimplemented_method = [OpRaise (HTTPError 405 None)]"

definition METHODS :: "qmethod list" where
  "METHODS = [HeadMethod, PutMethod, GetMethod, PostMethod, PatchMethod, DeleteMethod]"

definition class_method :: "api_class \<Rightarrow> qmethod \<Rightarrow> api_op list" where
  "class_method cl m = (case od_get (ac_methods cl) m of None \<Rightarrow> unimplemented_method | Some ops \<Rightarrow> ops)"

text \<open>The body of \<open>_execute\<close> inside its try block (\<open>None\<close>: a method that QGIS alone knows).\<close>

definition execute_body ::
  "(json \<Rightarrow> string) \<Rightarrow> (int \<Rightarrow> string option) \<Rightarrow> api_class \<Rightarrow> qmethod option \<Rightarrow> api_handler \<Rightarrow> unit result \<times> api_handler" where
  "execute_body dumps responses cl m h = (case m of
      None \<Rightarrow> (Inl (HTTPError 405 None), h)
    | Some q \<Rightarrow>
       if q \<notin> set METHODS then (Inl (HTTPError 405 None), h)
       else case run_ops dumps responses (ac_prepare cl) h of
         (Inl e, h1) \<Rightarrow> (Inl e, h1)
       | (Inr _, h1) \<Rightarrow>
           if ap_finished h1 then (Inr (), h1)
           else case run_ops dumps responses (class_method cl q) (api_set_status responses 200 None h1) of
             (Inl e, h2) \<Rightarrow> (Inl e, h2)
           | (Inr _, h2) \<Rightarrow> if ap_finished h2 then (Inr (), h2) else api_finish dumps None h2)"

definition error_code :: "exn \<Rightarrow> int" where
  "error_code e = (case e of HTTPError code _ \<Rightarrow> code | _ \<Rightarrow> 500)"

definition api_execute ::
  "(json \<Rightarrow> string) \<Rightarrow> (int \<Rightarrow> string option) \<Rightarrow> api_class \<Rightarrow> qmethod option \<Rightarrow> unit result \<times> api_handler" where
  "api_execute dumps responses cl m = (case execute_body dumps responses cl m api_init of
      (Inr _, h) \<Rightarrow> (Inr (), h)
    | (Inl e, h) \<Rightarrow> if ap_finished h then (Inr (), h)
                    else api_send_error dumps responses (error_code e) None (Some e) h)"

section \<open>The two APIs\<close>

definition public_url :: "string \<Rightarrow> string \<Rightarrow> string \<Rightarrow> string option \<Rightarrow> string \<Rightarrow> string" where
  "public_url scheme authority api_root rootpath path =
     scheme @ ''://'' @ authority @ (case truthy rootpath of None \<Rightarrow> api_root | Some r \<Rightarrow> r) @ path"

definition layer_json :: "layer \<Rightarrow> json" where
  "layer_json l = JDict [(''id'', JStr (l_id l)), (''name'', JStr (l_name l)), (''source'', JStr (l_source l)),
     (''crs'', JStr (l_crs l)), (''valid'', JBool (l_valid l)), (''spatial'', JBool (l_spatial l))]"

definition summary_json :: "(int option \<Rightarrow> string) \<Rightarrow> summary \<Rightarrow> json" where
  "summary_json fmt s = JDict [(''cache_key'', JStr (sm_cache_key s)), (''filename'', JStr (sm_filename s)),
     (''bad_layers_count'', JInt (int (sm_bad_layers_count s))), (''layers'', JList (map layer_json (sm_layers s))),
     (''crs'', JStr (sm_crs s)), (''last_modified'', JStr (fmt (sm_last_modified s)))]"

text \<open>\<open>CacheCollection.get\<close>: the key of the path, or the parameter MAP; \<open>fmt\<close> prints a date.\<close>

definition cache_collection_get ::
  "(int option \<Rightarrow> string) \<Rightarrow> env \<Rightarrow> string option \<Rightarrow> string \<Rightarrow> cache_manager \<Rightarrow> api_op list \<times> cache_manager" where
  "cache_collection_get fmt w key param cm =
     (let k = (case truthy key of None \<Rightarrow> param | Some x \<Rightarrow> x)
      in if k = [] then ([OpRaise (HTTPError 400 (Some ''Missing project specification''))], cm)
         else case cm_lookup w k False cm of
           (Inl e, cm1) \<Rightarrow> ([OpRaise e], cm1)
         | (Inr (p, _), cm1) \<Rightarrow> ([OpWrite (summary_json fmt (get_project_summary k p))], cm1))"

definition sections_json :: "(string \<times> options) list \<Rightarrow> (string \<times> json) list" where
  "sections_json ss = map (\<lambda>(s, kvs). (s, JDict (map (\<lambda>(k, v). (k, JStr v)) kvs))) ss"

text \<open>\<open>trace\<close> is the stored error text of a failed plugin, \<open>url\<close> is \<open>public_url\<close>.\<close>

definition plugin_link :: "(string \<Rightarrow> string) \<Rightarrow> string \<Rightarrow> string \<Rightarrow> json" where
  "plugin_link url status name = JDict [(''href'', JStr (url (''/'' @ name))), (''status'', JStr status), (''name'', JStr name),
     (''type'', JStr ''application/json''), (''title'', JStr (''Details for plugin '' @ name))]"

definition plugin_collection_get ::
  "(string \<Rightarrow> (string \<times> (string \<times> options) list) option) \<Rightarrow> (exn \<Rightarrow> string) \<Rightarrow> (string \<Rightarrow> string) \<Rightarrow> 'p plugins \<Rightarrow> string option \<Rightarrow> api_op list" where
  "plugin_collection_get file trace url ps name = (case truthy name of
      Some n \<Rightarrow> (case od_get (pl_failed ps) n of
          Some e \<Rightarrow> [OpWrite (JDict [(''name'', JStr n), (''error_log'', JStr (trace e)), (''status'', JStr ''failed'')])]
        | None \<Rightarrow> (case plugin_metadata file ps n of
              None \<Rightarrow> [OpRaise (HTTPError 404 None)]
            | Some (ss, path) \<Rightarrow> [OpWrite (JDict [(''name'', JStr n), (''status'', JStr ''loaded''),
                (''metadata'', JDict (sections_json ss @ [(''path'', JStr path)]))])]))
    | None \<Rightarrow> [OpWrite (JDict [(''links'', JList (map (plugin_link url ''loaded'') (plugin_list ps)
                 @ map (plugin_link url ''failed'') (od_keys (pl_failed ps))))])])"

section \<open>Registration\<close>

text \<open>A delegate ties the pattern of a path to a handler class, which has a name; what it says of itself is made of that name.\<close>

record api_delegate =
  dl_path :: string
  dl_content_types :: "string list"
  dl_name :: string
  dl_handler :: api_class

definition request_delegate :: "string \<Rightarrow> string \<times> api_class \<Rightarrow> api_delegate" where
  "request_delegate path handler = \<lparr>dl_path = path, dl_content_types = [''JSON''], dl_name = fst handler, dl_handler = snd handler\<rparr>"

definition operation_id :: "api_delegate \<Rightarrow> string" where
  "operation_id d = ''PyQgisServer'' @ dl_name d @ ''Management''"

definition delegate_summary :: "api_delegate \<Rightarrow> string" where
  "delegate_summary d = ''PyQgisServerManagement '' @ dl_name d @ ''  Service''"

definition delegate_title :: "api_delegate \<Rightarrow> string" where
  "delegate_title d = ''PyQgisServerManagement '' @ dl_name d @ '' Service ''"

text \<open>\<open>handleRequest\<close>: a new handler for each request.\<close>

definition delegate_request ::
  "(json \<Rightarrow> string) \<Rightarrow> (int \<Rightarrow> string option) \<Rightarrow> api_delegate \<Rightarrow> qmethod option \<Rightarrow> unit result \<times> api_handler" where
  "delegate_request dumps responses d m = api_execute dumps responses (dl_handler d) m"

record server_api =
  sa_root :: string
  sa_name :: string
  sa_delegates :: "api_delegate list"

definition register_handlers ::
  "string \<Rightarrow> string \<Rightarrow> (string \<times> string \<times> api_class) list \<Rightarrow> server_api list \<Rightarrow> server_api list" where
  "register_handlers rootpath name handlers registry =
     registry @ [\<lparr>sa_root = rootpath, sa_name = name, sa_delegates = map (\<lambda>(path, handler). request_delegate path handler) handlers\<rparr>]"

definition register_plugins_api :: "api_class \<Rightarrow> server_api list \<Rightarrow> server_api list" where
  "register_plugins_api cl = (let h = (''PluginCollection'', cl) in
     register_handlers ''/plugins'' ''PluginsManagment'' [(''/(?P<name>[^'' @ [CHR 0x5C] @ ''/]+)/?$'', h), (''/'', h)])"

definition register_cache_api :: "api_class \<Rightarrow> server_api list \<Rightarrow> server_api list" where
  "register_cache_api cl = (let h = (''CacheCollection'', cl) in
     register_handlers ''/cache'' ''CacheManagment'' [(''/content/(?P<key>.+)$'', h), (''/'', h)])"

definition register_management_apis :: "api_class \<Rightarrow> api_class \<Rightarrow> server_api list \<Rightarrow> server_api list" where
  "register_management_apis plugins_class cache_class registry =
     register_cache_api cache_class (register_plugins_api plugins_class registry)"

text \<open>\<open>accept\<close> is a prefix test on the root path.\<close>

definition api_accept :: "string \<Rightarrow> string \<Rightarrow> bool" where
  "api_accept rootpath path = starts_with rootpath path"

section \<open>Every request is finished exactly once\<close>

definition finishes :: "api_handler \<Rightarrow> nat" where
  "finishes h = length (filter (\<lambda>c. c = FinishResp) (ap_calls h))"

definition api_inv :: "api_handler \<Rightarrow> bool" where
  "api_inv h \<longleftrightarrow> finishes h = (if ap_finished h then 1 else 0)"

lemma api_inv_emit [simp]: "FinishResp \<notin> set cs \<Longrightarrow> api_inv (api_emit cs h) = api_inv h"
proof -
  assume "FinishResp \<notin> set cs"
  then have "filter (\<lambda>c. c = FinishResp) cs = []" by (auto simp: filter_empty_conv)
  then show ?thesis by (simp add: api_inv_def finishes_def api_emit_def)
qed

lemma api_emit_finished [simp]: "ap_finished (api_emit cs h) = ap_finished h"
  by (simp add: api_emit_def)

lemma api_write_frame: "api_write dumps c h = (r, h') \<Longrightarrow> api_inv h \<Longrightarrow> api_inv h' \<and> ap_finished h' = ap_finished h"
  by (cases c) (auto simp: api_write_def Let_def split: if_splits)

lemma api_set_status_frame: "api_inv (api_set_status rs code reason h) = api_inv h"
  "ap_finished (api_set_status rs code reason h) = ap_finished h"
  by (simp_all add: api_set_status_def api_inv_def finishes_def api_emit_def)

lemma api_finish_frame: "api_finish dumps c h = (r, h') \<Longrightarrow> api_inv h \<Longrightarrow> api_inv h'"
proof -
  assume a: "api_finish dumps c h = (r, h')" and inv: "api_inv h"
  have fin: "api_inv (api_emit [FinishResp] (x\<lparr>ap_finished := True\<rparr>))" if "api_inv x" "\<not> ap_finished x" for x
    using that by (simp add: api_inv_def finishes_def api_emit_def)
  obtain r1 h1 where w: "(case c of None \<Rightarrow> (Inr (), h) | Some d \<Rightarrow> api_write dumps d h) = (r1, h1)" by fastforce
  then have "api_inv h1" "ap_finished h1 = ap_finished h"
    using api_write_frame inv by (auto split: option.splits)
  with a inv w fin show ?thesis by (auto simp: api_finish_def split: if_splits sum.splits)
qed

lemma api_finish_None: "\<not> ap_finished h \<Longrightarrow> api_finish dumps None h = (Inr (), api_emit [FinishResp] (h\<lparr>ap_finished := True\<rparr>))"
  by (simp add: api_finish_def)

text \<open>The message of an error is always written, and the request finished.\<close>

definition error_body :: "int \<Rightarrow> string \<Rightarrow> json" where
  "error_body code msg = JDict [(''status'', JStr (if code \<noteq> 200 then ''error'' else ''ok'')),
     (''httpcode'', JInt code), (''error'', JDict [(''message'', JStr msg)])]"

lemma api_send_error_eq:
  "api_send_error dumps rs code reason exc h =
     (let msg = (case error_reason reason exc of Some r \<Rightarrow> r | None \<Rightarrow> (case rs code of None \<Rightarrow> ''Unknown'' | Some r \<Rightarrow> r));
          h1 = (api_emit [ClearResp, SetCode code, SetHead ''Content-Type'' ''application/json;charset=utf-8'', WriteResp (dumps (error_body code msg))] h)\<lparr>ap_reason := msg\<rparr>
      in (Inr (), if ap_finished h then h1 else api_emit [FinishResp] (h1\<lparr>ap_finished := True\<rparr>)))"
  by (simp add: api_send_error_def api_set_status_def api_write_def api_finish_def api_emit_def error_body_def Let_def)

lemma api_send_error_frame:
  assumes "api_inv h" "api_send_error dumps rs code reason exc h = (r, h')"
  shows "api_inv h' \<and> ap_finished h' \<and> r = Inr ()"
  using assms by (auto simp: api_send_error_eq Let_def api_inv_def finishes_def api_emit_def split: if_splits)

lemma run_op_inv: "api_inv h \<Longrightarrow> run_op dumps rs x h = (r, h') \<Longrightarrow> api_inv h'"
  by (cases x) (auto simp: api_set_status_frame dest: api_write_frame api_finish_frame api_send_error_frame)

lemma run_ops_inv: "api_inv h \<Longrightarrow> run_ops dumps rs xs h = (r, h') \<Longrightarrow> api_inv h'"
  by (induction xs arbitrary: h) (auto split: prod.splits sum.splits dest: run_op_inv)

lemma execute_body_inv:
  assumes "execute_body dumps rs cl m api_init = (r, h)"
  shows "api_inv h \<and> (is_ok r \<longrightarrow> ap_finished h)"
proof -
  have init: "api_inv api_init" by (simp add: api_inv_def api_init_def finishes_def)
  obtain r1 h1 where p: "run_ops dumps rs (ac_prepare cl) api_init = (r1, h1)" by fastforce
  have h1: "api_inv h1" by (rule run_ops_inv [OF init p])
  obtain r2 h2 where b: "run_ops dumps rs (class_method cl (the m)) (api_set_status rs 200 None h1) = (r2, h2)" by fastforce
  have h2: "api_inv h2" by (rule run_ops_inv [OF _ b]) (simp add: api_set_status_frame h1)
  show ?thesis
  proof (cases "m = None \<or> the m \<notin> set METHODS \<or> (\<exists>e. r1 = Inl e) \<or> ap_finished h1")
    case True
    then show ?thesis using assms p init h1 by (auto simp: execute_body_def split: if_splits option.splits sum.splits)
  next
    case False
    then have e: "execute_body dumps rs cl m api_init = (case r2 of Inl e \<Rightarrow> (Inl e, h2)
        | Inr _ \<Rightarrow> if ap_finished h2 then (Inr (), h2) else api_finish dumps None h2)"
      using p b by (cases r1) (auto simp: execute_body_def)
    show ?thesis
      using assms h2 unfolding e
      by (cases r2) (auto simp: api_finish_None api_inv_def finishes_def api_emit_def split: if_splits)
  qed
qed

text \<open>
  C31: Whatever a handler method does with its request - nothing, an error, finishing it
  twice, an exception before or after finishing - the response is finished exactly once and no
  exception leaves \<open>_execute\<close>. If the method fails before finishing, what went before is
  cleared and the client gets the status of the \<open>HTTPError\<close>, or 500.
\<close>

theorem api_finished_once:
  "\<exists>h. api_execute dumps responses cl m = (Inr (), h) \<and> ap_finished h \<and> finishes h = 1
     \<and> (\<forall>e h1. execute_body dumps responses cl m api_init = (Inl e, h1) \<and> \<not> ap_finished h1 \<longrightarrow>
          (\<exists>body. ap_calls h = ap_calls h1 @ [ClearResp, SetCode (error_code e),
             SetHead ''Content-Type'' ''application/json;charset=utf-8'', WriteResp body, FinishResp]))"
proof -
  obtain r h1 where b: "execute_body dumps responses cl m api_init = (r, h1)" by fastforce
  note inv = execute_body_inv [OF b]
  show ?thesis
  proof (cases "is_ok r \<or> ap_finished h1")
    case True
    then have "ap_finished h1" using inv by blast
    with True b inv show ?thesis
      by (cases r) (auto simp: api_execute_def api_inv_def)
  next
    case False
    then obtain e where e: "r = Inl e" by (cases r) auto
    obtain r2 h2 where s: "api_send_error dumps responses (error_code e) None (Some e) h1 = (r2, h2)" by fastforce
    have x: "api_execute dumps responses cl m = (r2, h2)" using b e False s by (simp add: api_execute_def)
    have f: "api_inv h2 \<and> ap_finished h2 \<and> r2 = Inr ()" using api_send_error_frame [OF _ s] inv by blast
    have "\<exists>body. ap_calls h2 = ap_calls h1 @ [ClearResp, SetCode (error_code e),
             SetHead ''Content-Type'' ''application/json;charset=utf-8'', WriteResp body, FinishResp]"
      using s False by (auto simp: api_send_error_eq Let_def api_emit_def)
    with x f b e show ?thesis by (auto simp: api_inv_def)
  qed
qed

definition missing_key :: api_class where
  "missing_key = \<lparr>ac_prepare = [], ac_methods = [(GetMethod, [OpRaise (HTTPError 400 (Some ''Missing project specification''))])]\<rparr>"

theorem api_finished_once_witness:
  "\<exists>h. api_execute (\<lambda>_. ''{}'') (\<lambda>_. None) missing_key (Some GetMethod) = (Inr (), h) \<and> finishes h = 1 \<and> SetCode 400 \<in> set (ap_calls h)"
proof -
  define h1 where "h1 = \<lparr>ap_finished = False, ap_reason = ''Unknown'', ap_calls = [SetCode 200]\<rparr>"
  have b: "execute_body (\<lambda>_. ''{}'') (\<lambda>_. None) missing_key (Some GetMethod) api_init = (Inl (HTTPError 400 (Some ''Missing project specification'')), h1)"
    unfolding h1_def by code_simp
  obtain h where h: "api_execute (\<lambda>_. ''{}'') (\<lambda>_. None) missing_key (Some GetMethod) = (Inr (), h)" "finishes h = 1"
      "\<forall>e h1. execute_body (\<lambda>_. ''{}'') (\<lambda>_. None) missing_key (Some GetMethod) api_init = (Inl e, h1) \<and> \<not> ap_finished h1 \<longrightarrow>
          (\<exists>body. ap_calls h = ap_calls h1 @ [ClearResp, SetCode (error_code e),
             SetHead ''Content-Type'' ''application/json;charset=utf-8'', WriteResp body, FinishResp])"
    using api_finished_once [of "\<lambda>_. ''{}''" "\<lambda>_. None" missing_key "Some GetMethod"] by blast
  have "SetCode 400 \<in> set (ap_calls h)"
    using h(3) b by (auto simp: h1_def error_code_def)
  with h show ?thesis by blast
qed

end
