(* ===== verification/Pages.thy ===== *)
theory Pages
  imports Handlers
begin

text \<open>
  The pages the front end answers itself: \<open>src/pyqgisserver/handlers/statushandler.py\<close>,
  \<open>landingpage.py\<close>, and \<open>src/pyqgisserver/stats.py\<close>. Each gives the JSON value that
  \<open>write_json\<close> gets; versions of tornado and QGIS are parameters.
\<close>

section \<open>Statistics\<close>

definition stats_reset :: stats where
  "stats_reset = \<lparr>num_requests = 0, num_errors = 0\<rparr>"

text \<open>\<open>Stats.json\<close>; start and up time are printed by the date library.\<close>

definition stats_json :: "string \<Rightarrow> int \<Rightarrow> stats \<Rightarrow> json" where
  "stats_json start_date uptime s = JDict [(''num_request'', JInt (int (num_requests s))), (''num_errors'', JInt (int (num_errors s))),
     (''start_date'', JStr start_date), (''uptime'', JInt uptime)]"

section \<open>Status pages\<close>

record versions =
  vs_tornado :: string
  vs_version :: string
  vs_qgis :: "(string \<times> string) option"

text \<open>\<open>get_versions\<close>: without QGIS the two entries are n/a.\<close>

definition get_versions :: "versions \<Rightarrow> (string \<times> json) list" where
  "get_versions v = (let (q, r) = (case vs_qgis v of None \<Rightarrow> (''n/a'', ''n/a'') | Some x \<Rightarrow> x) in
     [(''tornado_ver'', JStr (vs_tornado v)), (''version'', JStr (vs_version v)), (''qgis_version'', JStr q), (''qgis_release'', JStr r)])"

definition page_link :: "http_request \<Rightarrow> string \<Rightarrow> (string \<times> string) list \<Rightarrow> json" where
  "page_link rq path kvs = JDict ((''href'', JStr (hq_protocol rq @ ''://'' @ hq_host rq @ path)) # map (\<lambda>(k, v). (k, JStr v)) kvs)"

definition status_link :: "http_request \<Rightarrow> string \<Rightarrow> string \<Rightarrow> string \<Rightarrow> json" where
  "status_link rq path title rel = page_link rq path [(''rel'', rel), (''title'', title), (''type'', ''application/json'')]"

definition options_json :: "options \<Rightarrow> json" where
  "options_json kvs = JDict (map (\<lambda>(k, v). (k, JStr v)) kvs)"

text \<open>\<open>StatusHandler.get\<close>: the statistics are passed as the object itself.\<close>

definition status_response :: "config \<Rightarrow> options \<Rightarrow> versions \<Rightarrow> http_request \<Rightarrow> json result" where
  "status_response c environ v rq =
     (let path = rstrip_chars ''/'' (hq_path rq) in
      if path = ''/status/config'' then rbind (config_to_dict c) (\<lambda>d. Inr (JDict (map (\<lambda>(s, kvs). (s, options_json kvs)) d)))
      else if path = ''/status/env'' then Inr (options_json environ)
      else if path = ''/status/stats'' then Inr (JObject ''Stats'')
      else if path = ''/status/versions'' then Inr (JDict (get_versions v))
      else Inr (JDict (get_versions v @ [(''links'', JList
        [status_link rq ''/status/config'' ''Server configuration'' ''status'',
         status_link rq ''/status/env'' ''Execution environment'' ''status'',
         status_link rq ''/status/versions'' ''Versions'' ''status'',
         status_link rq ''/status/'' ''Server status'' ''self''])])))"

definition status_get :: "(json \<Rightarrow> string) \<Rightarrow> base_conf \<Rightarrow> config \<Rightarrow> options \<Rightarrow> versions \<Rightarrow> http_request \<Rightarrow> unit result \<times> http_call list" where
  "status_get dumps bc c environ v rq = (case status_response c environ v rq of
      Inl e \<Rightarrow> (Inl e, []) | Inr j \<Rightarrow> write_json dumps bc rq j)"

definition ping_default_headers :: "base_conf \<Rightarrow> http_call list" where
  "ping_default_headers bc = set_default_headers bc @ [SetHeader ''Cache-control'' ''no-store'', SetHeader ''X-Server-Status'' ''ok'']"

definition ping_get :: "(json \<Rightarrow> string) \<Rightarrow> base_conf \<Rightarrow> http_request \<Rightarrow> unit result \<times> http_call list" where
  "ping_get dumps bc rq = write_json dumps bc rq (JDict [(''status'', JStr ''ok'')])"

section \<open>Landing page\<close>

definition meta_json :: "config \<Rightarrow> string \<Rightarrow> json result" where
  "meta_json c k = rbind (proxy_get Inr c ''metadata'' k) (\<lambda>r. Inr (case r of None \<Rightarrow> JNull | Some v \<Rightarrow> JStr v))"

fun meta_fields :: "config \<Rightarrow> (string \<times> string) list \<Rightarrow> (string \<times> json) list result" where
  "meta_fields c [] = Inr []"
| "meta_fields c ((name, k) # ks) = rbind (meta_json c k) (\<lambda>j. rbind (meta_fields c ks) (\<lambda>r. Inr ((name, j) # r)))"

definition qgis_version_info :: "(int \<times> string) option \<Rightarrow> (string \<times> json) list" where
  "qgis_version_info q = (case q of
      None \<Rightarrow> [(''x-qgis-version'', JStr ''n/a''), (''x-qgis-release'', JStr ''n/a'')]
    | Some (n, r) \<Rightarrow> [(''x-qgis-version'', JInt n), (''x-qgis-release'', JStr r)])"

definition service_infos :: "config \<Rightarrow> string \<Rightarrow> (int \<times> string) option \<Rightarrow> json result" where
  "service_infos c version q =
     rbind (meta_fields c [(''title'', ''title''), (''description'', ''description''), (''termsOfService'', ''terms_of_service'')]) (\<lambda>a.
     rbind (meta_fields c [(''name'', ''contact_name''), (''url'', ''contact_url''), (''email'', ''contact_email'')]) (\<lambda>b.
     rbind (meta_fields c [(''name'', ''licence_name''), (''url'', ''licence_url'')]) (\<lambda>l.
       Inr (JDict (a @ [(''contact'', JDict b), (''licence'', JDict l), (''version'', JStr version)] @ qgis_version_info q)))))"

definition external_doc :: "config \<Rightarrow> json result" where
  "external_doc c =
     rbind (proxy_item c ''metadata'' ''external_doc_description'') (\<lambda>d.
     rbind (proxy_item c ''metadata'' ''external_doc_url'') (\<lambda>u.
       Inr (JDict [(''description'', JStr d), (''url'', JStr u)])))"

definition landing_get ::
  "(json \<Rightarrow> string) \<Rightarrow> base_conf \<Rightarrow> config \<Rightarrow> (int \<times> string) option \<Rightarrow> http_request \<Rightarrow> unit result \<times> http_call list" where
  "landing_get dumps bc c q rq =
     (case rbind (service_infos c (bc_version bc) q) (\<lambda>info. rbind (external_doc c) (\<lambda>doc.
        Inr (JDict [(''servers'', JList [JDict [(''url'', JStr (hq_protocol rq @ ''://'' @ hq_host rq))]]),
           (''info'', info), (''externalDocs'', doc), (''paths'', JDict [])]))) of
      Inl e \<Rightarrow> (Inl e, []) | Inr j \<Rightarrow> write_json dumps bc rq j)"

section \<open>Facts\<close>

text \<open>The statistics page never answers: the object is no dictionary.\<close>

lemma status_stats_fails:
  "rstrip_chars ''/'' (hq_path rq) = ''/status/stats'' \<Longrightarrow> fst (status_get dumps bc c environ v rq) = Inl TypeError"
  by (simp add: status_get_def status_response_def write_json_def Let_def)

lemma write_json_dict: "fst (write_json dumps bc rq (JDict kvs)) = Inr ()"
  by (simp add: write_json_def Let_def)

text \<open>Every other status page answers when the configuration can be read.\<close>

lemma status_answers:
  assumes "is_ok (config_to_dict c)" "rstrip_chars ''/'' (hq_path rq) \<noteq> ''/status/stats''"
  shows "fst (status_get dumps bc c environ v rq) = Inr ()"
  using assms by (auto simp: status_get_def status_response_def is_ok_iff write_json_dict options_json_def Let_def)

end
