(* ===== verification/Monitor.thy ===== *)
theory Monitor
  imports Handlers ComponentManager
begin

text \<open>
  Monitoring and logs: \<open>src/pyqgisserver/monitor.py\<close>, \<open>monitors/base.py\<close>,
  \<open>monitors/amqp.py\<close>, \<open>monitors/test.py\<close> and the log lines of
  \<open>src/pyqgisserver/logger.py\<close>. The AMQP client, \<open>str.format\<close> and \<open>json.dumps\<close>
  are parameters.
\<close>

section \<open>Tags\<close>

definition TAG_PREFIX_LEGACY :: string where "TAG_PREFIX_LEGACY = ''AMQP_GLOBAL_TAG_''"
definition TAG_PREFIX :: string where "TAG_PREFIX = ''QGSRV_MONITOR_TAG_''"

text \<open>\<open>environ\<close> lists the environment; a tag is what follows the prefix.\<close>

definition get_tags :: "string \<Rightarrow> options \<Rightarrow> options" where
  "get_tags pre environ = map (\<lambda>(n, v). (drop (length pre) n, v)) (filter (\<lambda>(n, v). starts_with pre n) environ)"

definition named_tags :: "string \<Rightarrow> options \<Rightarrow> options" where
  "named_tags pre environ = filter (\<lambda>(t, v). t \<noteq> []) (get_tags pre environ)"

definition global_tags :: "options \<Rightarrow> options" where
  "global_tags environ = od_update (od_update [] (named_tags TAG_PREFIX environ)) (named_tags TAG_PREFIX_LEGACY environ)"

section \<open>Credentials\<close>

text \<open>
  \<open>_read_credentials\<close>: the first line of the password file for the host and user; a line that
  has not three fields raises. \<open>lines\<close> is None without a file.
\<close>

fun scan_credentials :: "string \<Rightarrow> string \<Rightarrow> string list \<Rightarrow> (string \<times> string) option result" where
  "scan_credentials vhost user [] = Inr None"
| "scan_credentials vhost user (l # ls) =
     (let cr = py_strip l in
      if cr = [] \<or> starts_with ''#'' cr then scan_credentials vhost user ls
      else case split_on CHR '':'' cr of
        [v, u, pw] \<Rightarrow> if v \<in> {''*'', vhost} \<and> u \<in> {''*'', user} then Inr (Some (user, pw)) else scan_credentials vhost user ls
      | _ \<Rightarrow> Inl ValueError)"

definition read_credentials :: "string list option \<Rightarrow> string \<Rightarrow> string \<Rightarrow> (string \<times> string) option result" where
  "read_credentials file_lines vhost user = (case file_lines of None \<Rightarrow> Inr None | Some ls \<Rightarrow> scan_credentials vhost user ls)"

section \<open>The AMQP monitor\<close>

record amqp_monitor =
  am_tags :: options
  am_dynamic :: bool
  am_routing_key :: string
  am_default_routing :: "string option"

definition amqp_init :: "options \<Rightarrow> string \<Rightarrow> string option \<Rightarrow> amqp_monitor" where
  "amqp_init environ routing_key default_routing =
     \<lparr>am_tags = global_tags environ, am_dynamic = starts_with ''@'' routing_key,
      am_routing_key = (if starts_with ''@'' routing_key then tl routing_key else routing_key),
      am_default_routing = (if starts_with ''@'' routing_key then default_routing else None)\<rparr>"

text \<open>
  The routing key of a message: \<open>fmt\<close> is \<open>str.format\<close>. Only a \<open>KeyError\<close> falls
  back to the default key; without one the variable is never assigned.
\<close>

definition unbound_local :: exn where "unbound_local = OtherError ''UnboundLocalError''"

definition message_key :: "(string \<Rightarrow> options \<Rightarrow> string result) \<Rightarrow> amqp_monitor \<Rightarrow> options \<Rightarrow> string result" where
  "message_key fmt m meta =
     (if am_dynamic m then
        (case fmt (am_routing_key m) meta of
           Inr k \<Rightarrow> Inr k
         | Inl e \<Rightarrow> if e \<noteq> KeyError then Inl e
                    else case truthy (am_default_routing m) of None \<Rightarrow> Inl unbound_local | Some d \<Rightarrow> Inr d)
      else Inr (am_routing_key m))"

record amqp_message =
  mq_body :: string
  mq_routing_key :: string
  mq_expiration :: int

text \<open>\<open>emit\<close>: the message published, or the exception; \<open>json.dumps\<close> raises \<open>TypeError\<close>.\<close>

definition amqp_emit ::
  "(json \<Rightarrow> string) \<Rightarrow> (string \<Rightarrow> options \<Rightarrow> string result) \<Rightarrow> amqp_monitor \<Rightarrow> (string \<times> json) list \<Rightarrow> options \<Rightarrow> amqp_message result" where
  "amqp_emit dumps fmt m params meta =
     rbind (message_key fmt m meta) (\<lambda>key.
       let body = JDict (od_update (od_set ''ROUTING_KEY'' (JStr key) (map (\<lambda>(k, v). (k, JStr v)) (am_tags m))) params)
       in if dumpable body then Inr \<lparr>mq_body = dumps body, mq_routing_key = key, mq_expiration = 3000\<rparr> else Inl TypeError)"

text \<open>The settings that \<open>initialize\<close> reads; without a routing key there is no monitor.\<close>

record amqp_conf =
  ac_host :: string
  ac_user :: string
  ac_vhost :: string
  ac_port :: int
  ac_reconnect :: "int option"
  ac_credentials :: "(string \<times> string) option"
  ac_exchange :: string

definition amqp_initialize ::
  "options \<Rightarrow> string list option \<Rightarrow> config \<Rightarrow> amqp_monitor option \<Rightarrow> ((amqp_conf option) \<times> amqp_monitor option) result" where
  "amqp_initialize environ passfile c inst = (case inst of
      Some m \<Rightarrow> Inr (None, Some m)
    | None \<Rightarrow>
        rbind (proxy_get Inr c ''monitor:amqp'' ''routing_key'') (\<lambda>rk.
          case truthy rk of None \<Rightarrow> Inr (None, None)
          | Some key \<Rightarrow>
            rbind (proxy_item c ''monitor:amqp'' ''host'') (\<lambda>host.
            rbind (proxy_item c ''monitor:amqp'' ''user'') (\<lambda>user.
            rbind (proxy_item c ''monitor:amqp'' ''vhost'') (\<lambda>vhost.
            rbind (proxy_item c ''monitor:amqp'' ''port'') (\<lambda>port.
            rbind (proxy_get py_int c ''monitor:amqp'' ''reconnect_delay'') (\<lambda>delay.
            rbind (if user = [] then Inr None else read_credentials passfile vhost user) (\<lambda>cred.
            rbind (proxy_item c ''monitor:amqp'' ''exchange'') (\<lambda>exchange.
            rbind (py_int port) (\<lambda>p.
            rbind (proxy_get Inr c ''monitor:amqp'' ''default_routing_key'') (\<lambda>dflt.
              Inr (Some \<lparr>ac_host = host, ac_user = user, ac_vhost = vhost, ac_port = p, ac_reconnect = delay,
                         ac_credentials = cred, ac_exchange = exchange\<rparr>,
                   Some (amqp_init environ key dflt)))))))))))))"

section \<open>Choice of the monitor and the test monitor\<close>

text \<open>\<open>Monitor.instance\<close>: the configured monitor, kept once it was initialised.\<close>

definition monitor_instance ::
  "environ \<Rightarrow> config \<Rightarrow> ('m option result) entry_point list \<Rightarrow> 'm option option \<Rightarrow> 'm option result \<times> 'm option option" where
  "monitor_instance env c eps cached = (case cached of
      Some m \<Rightarrow> (Inr m, cached)
    | None \<Rightarrow> (case service_get Inr env ''server'' ''monitor'' (Some []) c of
          (Inl e, _) \<Rightarrow> (Inl e, None)
        | (Inr name, _) \<Rightarrow>
            if name = [] then (Inr None, None)
            else case load_entrypoint eps ''py_qgis_server.monitors'' name of
              Inl e \<Rightarrow> if e = EntryPointNotFoundError then (Inr None, None) else (Inl e, None)
            | Inr init \<Rightarrow> (case init of Inl e \<Rightarrow> (Inl e, None) | Inr m \<Rightarrow> (Inr m, Some m))))"

definition test_emit ::
  "options \<Rightarrow> (string \<times> json) list \<Rightarrow> options \<Rightarrow> ((string \<times> json) list \<times> options) list \<Rightarrow> ((string \<times> json) list \<times> options) list" where
  "test_emit tags params meta messages = messages @ [(od_update (map (\<lambda>(k, v). (k, JStr v)) tags) params, meta)]"

section \<open>Log lines\<close>

definition tab :: string where "tab = [CHR 0x09]"

definition req_log_template :: "string \<Rightarrow> int \<Rightarrow> string \<Rightarrow> string \<Rightarrow> int \<Rightarrow> string \<Rightarrow> string" where
  "req_log_template ip code meth url ms len =
     ip @ tab @ int_str code @ tab @ meth @ tab @ url @ tab @ int_str ms @ tab @ len @ tab"

definition format_log_request :: "string \<Rightarrow> int \<Rightarrow> int \<Rightarrow> string option \<Rightarrow> http_request \<Rightarrow> string" where
  "format_log_request ip code ms content_length rq =
     (let h = od_get (hq_headers rq); or_empty = (\<lambda>v. case v of None \<Rightarrow> [] | Some s \<Rightarrow> s)
      in req_log_template ip code (hq_method rq) (hq_uri rq) ms (case truthy content_length of None \<Rightarrow> ''-1'' | Some l \<Rightarrow> l)
         @ or_empty (h ''User-Agent'') @ tab @ or_empty (h ''Referer'')
         @ (case truthy (h ''X-Request-Id'') of None \<Rightarrow> [] | Some i \<Rightarrow> tab @ ''REQ_ID:'' @ i))"

definition format_log_rrequest :: "string \<Rightarrow> int \<Rightarrow> string \<Rightarrow> string \<Rightarrow> int \<Rightarrow> headers \<Rightarrow> string \<Rightarrow> string" where
  "format_log_rrequest path code meth query ms hdrs addr =
     req_log_template addr code meth (rstrip_chars ''/'' path @ ''/'' @ query) ms
       (case od_get hdrs ''Content-Length'' of None \<Rightarrow> ''-1'' | Some v \<Rightarrow> header_text v)
     @ (case truthy (map_option header_text (od_get hdrs ''X-Request-Id'')) of None \<Rightarrow> [] | Some i \<Rightarrow> ''REQ_ID:'' @ i)"

section \<open>The record of a request\<close>

text \<open>
  \<open>AsyncClientHandler.emit\<close> with this monitor, the last thing the handler of a request does; \<open>params\<close> is what
  \<open>get_monitor_params\<close> gives, \<open>mem\<close> the memory that the worker reported.
\<close>

definition handler_emit ::
  "(json \<Rightarrow> string) \<Rightarrow> (string \<Rightarrow> options \<Rightarrow> string result) \<Rightarrow> amqp_monitor \<Rightarrow> (string \<times> json) list option result \<Rightarrow> int \<Rightarrow> int \<Rightarrow>
     json option \<Rightarrow> options \<Rightarrow> amqp_message option result" where
  "handler_emit dumps fmt m params status ms mem meta =
     rbind params (\<lambda>ps. case emit_params ps status ms mem of
         None \<Rightarrow> Inr None
       | Some d \<Rightarrow> rbind (amqp_emit dumps fmt m d meta) (\<lambda>msg. Inr (Some msg)))"

definition ows_emit ::
  "(json \<Rightarrow> string) \<Rightarrow> (string \<Rightarrow> options \<Rightarrow> string result) \<Rightarrow> amqp_monitor \<Rightarrow> http_request \<Rightarrow> int \<Rightarrow> int \<Rightarrow>
     json option \<Rightarrow> options \<Rightarrow> amqp_message option result" where
  "ows_emit dumps fmt m rq = handler_emit dumps fmt m (rbind (ows_monitor_params rq) (\<lambda>ps. Inr (Some ps)))"

definition oapi_emit ::
  "(json \<Rightarrow> string) \<Rightarrow> (string \<Rightarrow> options \<Rightarrow> string result) \<Rightarrow> amqp_monitor \<Rightarrow> string \<Rightarrow> http_request \<Rightarrow> int \<Rightarrow> int \<Rightarrow>
     json option \<Rightarrow> options \<Rightarrow> amqp_message option result" where
  "oapi_emit dumps fmt m service rq = handler_emit dumps fmt m (Inr (Some (oapi_monitor_params service rq)))"

section \<open>What can be published\<close>

lemma od_set_dumpable: "list_all (\<lambda>(k, j). dumpable j) d \<Longrightarrow> dumpable j \<Longrightarrow> list_all (\<lambda>(k, j). dumpable j) (od_set k j d)"
  by (auto simp: list_all_iff dest!: in_set_od_set)

lemma od_update_dumpable:
  "list_all (\<lambda>(k, j). dumpable j) d \<Longrightarrow> list_all (\<lambda>(k, j). dumpable j) e \<Longrightarrow> list_all (\<lambda>(k, j). dumpable j) (od_update d e)"
  by (induction e arbitrary: d) (auto simp: od_update_def od_set_dumpable)

lemma undumpable_member: "od_get d k = Some j \<Longrightarrow> \<not> dumpable j \<Longrightarrow> \<not> dumpable (JDict d)"
  by (auto simp: list_all_iff dest!: map_of_SomeD)

text \<open>A record that can be dumped: the parameters over the routing key over the tags.\<close>

lemma od_get_tags: "od_get (map (\<lambda>(k, v). (k, JStr v)) d) k = map_option JStr (od_get d k)"
  by (induction d) auto

lemma amqp_emit_ok:
  assumes "message_key fmt m meta = Inr key" and "list_all (\<lambda>(k, j). dumpable j) params" and "od_wf params"
  obtains D where "amqp_emit dumps fmt m params meta = Inr \<lparr>mq_body = dumps (JDict D), mq_routing_key = key, mq_expiration = 3000\<rparr>"
    "\<And>k. od_get D k = (case od_get params k of Some j \<Rightarrow> Some j
       | None \<Rightarrow> if k = ''ROUTING_KEY'' then Some (JStr key) else map_option JStr (od_get (am_tags m) k))"
proof -
  define base where "base = od_set ''ROUTING_KEY'' (JStr key) (map (\<lambda>(k, v). (k, JStr v)) (am_tags m))"
  have b: "od_get base k = (if k = ''ROUTING_KEY'' then Some (JStr key) else map_option JStr (od_get (am_tags m) k))" for k
    by (simp add: base_def od_get_tags)
  have "list_all (\<lambda>(k, j). dumpable j) base"
    unfolding base_def by (rule od_set_dumpable) (auto simp: list_all_iff)
  then have "dumpable (JDict (od_update base params))" using od_update_dumpable [OF _ assms(2)] by simp
  then show ?thesis
    using assms(1) by (intro that [of "od_update base params"])
      (simp_all add: amqp_emit_def base_def [symmetric] Let_def od_get_od_update_wf [OF assms(3)] b split: option.split)
qed

lemma emitted_wf: "od_wf ps \<Longrightarrow> emit_params (Some ps) status ms mem = Some d \<Longrightarrow> od_wf d"
  unfolding emit_params_def by (cases ps) (auto simp: od_wf_update)

text \<open>What the record of an OWS request says, key by key.\<close>

definition ows_record :: "amqp_monitor \<Rightarrow> string \<Rightarrow> http_request \<Rightarrow> int \<Rightarrow> int \<Rightarrow> int \<Rightarrow> string \<Rightarrow> json option" where
  "ows_record m key rq status ms mem k =
     (if k \<in> {''MAP'', ''SERVICE'', ''REQUEST''}
        then Some (JStr (case od_get (hq_arguments rq) k of None \<Rightarrow> ''__unknown__'' | Some vs \<Rightarrow> hd vs))
      else if k = ''RESPONSE_TIME'' then Some (JInt ms)
      else if k = ''RESPONSE_STATUS'' then Some (JInt status)
      else if k = ''RESPONSE_MEMUSED'' then Some (JInt mem)
      else if k = ''ROUTING_KEY'' then Some (JStr key)
      else map_option JStr (od_get (am_tags m) k))"

definition monitored_text :: "http_request \<Rightarrow> bool" where
  "monitored_text rq = (\<forall>k \<in> {''MAP'', ''SERVICE'', ''REQUEST''}. \<forall>vs. od_get (hq_arguments rq) k = Some vs \<longrightarrow> utf8_ok (hd vs))"

lemma monitor_argument_cases:
  assumes "od_get (hq_arguments rq) k \<noteq> Some []"
  shows "monitor_argument rq k = (if \<forall>vs. od_get (hq_arguments rq) k = Some vs \<longrightarrow> utf8_ok (hd vs)
      then Inr (case od_get (hq_arguments rq) k of None \<Rightarrow> ''__unknown__'' | Some vs \<Rightarrow> hd vs) else Inl (OtherError ''UnicodeDecodeError''))"
proof (cases "od_get (hq_arguments rq) k")
  case (Some vs)
  with assms obtain v ws where "vs = v # ws" by (cases vs) auto
  with Some show ?thesis by (simp add: monitor_argument_def utf8_decode_def)
qed (simp add: monitor_argument_def)

lemma ows_emit_spec:
  assumes "message_key fmt m meta = Inr key" and "\<forall>k vs. od_get (hq_arguments rq) k = Some vs \<longrightarrow> vs \<noteq> []"
  shows "if monitored_text rq
    then \<exists>D. ows_emit dumps fmt m rq status ms (map_option JInt mem) meta
          = Inr (Some \<lparr>mq_body = dumps (JDict D), mq_routing_key = key, mq_expiration = 3000\<rparr>)
        \<and> (\<forall>k. od_get D k = ows_record m key rq status ms (case mem of None \<Rightarrow> 0 | Some b \<Rightarrow> b) k)
    else ows_emit dumps fmt m rq status ms (map_option JInt mem) meta = Inl (OtherError ''UnicodeDecodeError'')"
proof -
  have "od_get (hq_arguments rq) k \<noteq> Some []" for k using assms(2) by blast
  note arg = monitor_argument_cases [OF this]
  show ?thesis
  proof (cases "monitored_text rq")
    case True
    define val where "val k = (case od_get (hq_arguments rq) k of None \<Rightarrow> ''__unknown__'' | Some vs \<Rightarrow> hd vs)" for k
    define ps where "ps = [(''MAP'', JStr (val ''MAP'')), (''SERVICE'', JStr (val ''SERVICE'')), (''REQUEST'', JStr (val ''REQUEST''))]"
    define d where "d = od_update ps [(''RESPONSE_TIME'', JInt ms), (''RESPONSE_STATUS'', JInt status),
        (''RESPONSE_MEMUSED'', JInt (case mem of None \<Rightarrow> 0 | Some b \<Rightarrow> b))]"
    have "monitor_argument rq k = Inr (val k)" if "k \<in> {''MAP'', ''SERVICE'', ''REQUEST''}" for k
      using arg [of k] True that unfolding monitored_text_def val_def by (metis (no_types, lifting))
    then have params: "ows_monitor_params rq = Inr ps" by (simp add: ows_monitor_params_def ps_def)
    have emit: "emit_params (Some ps) status ms (map_option JInt mem) = Some d"
      by (cases mem) (simp_all add: emit_params_def ps_def d_def)
    have d: "list_all (\<lambda>(k, j). dumpable j) d" unfolding d_def by (rule od_update_dumpable) (simp_all add: ps_def)
    have w: "od_wf d" by (rule emitted_wf [OF _ emit]) (simp add: ps_def od_wf_def od_keys_def)
    obtain D where D: "amqp_emit dumps fmt m d meta = Inr \<lparr>mq_body = dumps (JDict D), mq_routing_key = key, mq_expiration = 3000\<rparr>"
      "\<And>k. od_get D k = (case od_get d k of Some j \<Rightarrow> Some j
         | None \<Rightarrow> if k = ''ROUTING_KEY'' then Some (JStr key) else map_option JStr (od_get (am_tags m) k))"
      by (rule amqp_emit_ok [where dumps = dumps, OF assms(1) d w]) blast
    have "od_get D k = ows_record m key rq status ms (case mem of None \<Rightarrow> 0 | Some b \<Rightarrow> b) k" for k
      unfolding D(2) ows_record_def val_def [symmetric] by (simp add: d_def ps_def od_update_def)
    with True D(1) params emit show ?thesis by (auto simp: ows_emit_def handler_emit_def)
  next
    case False
    then have "ows_monitor_params rq = Inl (OtherError ''UnicodeDecodeError'')"
      unfolding ows_monitor_params_def arg monitored_text_def by auto
    with False show ?thesis by (simp add: ows_emit_def handler_emit_def)
  qed
qed

lemma ows_emit_no_key:
  assumes "am_dynamic m" and "fmt (am_routing_key m) meta = Inl KeyError" and "truthy (am_default_routing m) = None"
    and "monitored_text rq" and "\<forall>k vs. od_get (hq_arguments rq) k = Some vs \<longrightarrow> vs \<noteq> []"
  shows "ows_emit dumps fmt m rq status ms mem meta = Inl unbound_local"
proof -
  have "od_get (hq_arguments rq) k \<noteq> Some []" for k using assms(5) by blast
  note arg = monitor_argument_cases [OF this]
  obtain ps where "ows_monitor_params rq = Inr ps" "ps \<noteq> []"
    using assms(4) unfolding ows_monitor_params_def arg monitored_text_def by auto
  moreover have "message_key fmt m meta = Inl unbound_local" using assms(1-3) by (simp add: message_key_def)
  ultimately show ?thesis by (cases ps) (simp_all add: ows_emit_def handler_emit_def emit_params_def amqp_emit_def)
qed

lemma oapi_emit_fails:
  assumes "message_key fmt m meta = Inr key" and "od_get (hq_arguments rq) ''MAP'' = Some vs" and "vs \<noteq> []"
  shows "oapi_emit dumps fmt m service rq status ms mem meta = Inl TypeError"
proof -
  obtain ps where ps: "emit_params (Some (oapi_monitor_params service rq)) status ms mem = Some ps"
    "od_get ps ''MAP'' = Some (JList (map (\<lambda>_. JObject ''bytes'') vs))"
    using assms(2) by (simp add: emit_params_def oapi_monitor_params_def od_update_def)
  have "od_wf ps" by (rule emitted_wf [OF _ ps(1)]) (simp add: oapi_monitor_params_def od_wf_def od_keys_def)
  with ps(2) have "od_get (od_update d ps) ''MAP'' = Some (JList (map (\<lambda>_. JObject ''bytes'') vs))" for d
    by (simp add: od_get_od_update_wf)
  then have "\<not> dumpable (JDict (od_update d ps))" for d
    using assms(3) by (intro undumpable_member [of _ "''MAP''"]) (auto simp: list_all_iff neq_Nil_conv)
  then show ?thesis using assms(1) ps(1) by (simp add: oapi_emit_def handler_emit_def amqp_emit_def Let_def)
qed

text \<open>
  C33: The record of an OWS request. Once a routing key is found, fixed, formatted or by default, the
  record is published under it: as the dictionary with the three arguments of the request, the time,
  status and memory of the response, the routing key and the global tags, where a tag never hides one of
  the others. But an argument that is not UTF-8 raises \<open>UnicodeDecodeError\<close> instead; a request of an api
  that names a project raises \<open>TypeError\<close>, its record has the raw bytes of MAP; and with a dynamic routing
  key that the request does not define and no default key every record raises.
\<close>

theorem published_records:
  assumes "message_key fmt m meta = Inr key" and "\<forall>k vs. od_get (hq_arguments rq) k = Some vs \<longrightarrow> vs \<noteq> []"
  shows "(if monitored_text rq
      then \<exists>D. ows_emit dumps fmt m rq status ms (map_option JInt mem) meta
            = Inr (Some \<lparr>mq_body = dumps (JDict D), mq_routing_key = key, mq_expiration = 3000\<rparr>)
          \<and> (\<forall>k. od_get D k = ows_record m key rq status ms (case mem of None \<Rightarrow> 0 | Some b \<Rightarrow> b) k)
      else ows_emit dumps fmt m rq status ms (map_option JInt mem) meta = Inl (OtherError ''UnicodeDecodeError''))
     \<and> (od_get (hq_arguments rq) ''MAP'' \<noteq> None \<longrightarrow>
          oapi_emit dumps fmt m service rq status ms (map_option JInt mem) meta = Inl TypeError)
     \<and> (\<forall>m'. am_dynamic m' \<and> fmt (am_routing_key m') meta = Inl KeyError \<and> truthy (am_default_routing m') = None \<and> monitored_text rq \<longrightarrow>
          ows_emit dumps fmt m' rq status ms (map_option JInt mem) meta = Inl unbound_local)"
proof (intro conjI allI impI)
  show "oapi_emit dumps fmt m service rq status ms (map_option JInt mem) meta = Inl TypeError" if "od_get (hq_arguments rq) ''MAP'' \<noteq> None"
    using that assms(2) oapi_emit_fails [OF assms(1)] by blast
  show "ows_emit dumps fmt m' rq status ms (map_option JInt mem) meta = Inl unbound_local"
    if "am_dynamic m' \<and> fmt (am_routing_key m') meta = Inl KeyError \<and> truthy (am_default_routing m') = None \<and> monitored_text rq" for m'
    by (rule ows_emit_no_key) (use that assms(2) in auto)
qed (rule ows_emit_spec [OF assms])

definition plain_monitor :: amqp_monitor where
  "plain_monitor = amqp_init [(''QGSRV_MONITOR_TAG_SITE'', ''a''), (''QGSRV_MONITOR_TAG_MAP'', ''b'')] ''qgis'' None"

theorem published_records_witness:
  "(\<exists>D. ows_emit (\<lambda>_. ''{}'') (\<lambda>k _. Inr k) plain_monitor sample_request 200 12 None []
       = Inr (Some \<lparr>mq_body = ''{}'', mq_routing_key = ''qgis'', mq_expiration = 3000\<rparr>)
     \<and> od_get D ''MAP'' = Some (JStr ''one'') \<and> od_get D ''SITE'' = Some (JStr ''a'') \<and> od_get D ''RESPONSE_MEMUSED'' = Some (JInt 0))
   \<and> oapi_emit (\<lambda>_. ''{}'') (\<lambda>k _. Inr k) plain_monitor ''WFS3'' sample_request 200 12 None [] = Inl TypeError"
proof -
  have k: "message_key (\<lambda>k _. Inr k) plain_monitor [] = Inr ''qgis''" by code_simp
  have r: "ows_record plain_monitor ''qgis'' sample_request 200 12 0 ''MAP'' = Some (JStr ''one'')"
    "ows_record plain_monitor ''qgis'' sample_request 200 12 0 ''SITE'' = Some (JStr ''a'')"
    "ows_record plain_monitor ''qgis'' sample_request 200 12 0 ''RESPONSE_MEMUSED'' = Some (JInt 0)" by code_simp+
  have a: "\<forall>k vs. od_get (hq_arguments sample_request) k = Some vs \<longrightarrow> vs \<noteq> []" "od_get (hq_arguments sample_request) ''MAP'' \<noteq> None"
    by (simp_all add: sample_request_def)
  have u: "monitored_text sample_request"
    by (simp add: monitored_text_def sample_request_def utf8_ascii utf8_byte_def)
  note p = published_records [where dumps = "\<lambda>_. ''{}''" and status = 200 and ms = 12 and mem = None and service = "''WFS3''", OF k a(1)]
  obtain D where "ows_emit (\<lambda>_. ''{}'') (\<lambda>k _. Inr k) plain_monitor sample_request 200 12 None []
       = Inr (Some \<lparr>mq_body = ''{}'', mq_routing_key = ''qgis'', mq_expiration = 3000\<rparr>)"
    "\<forall>k. od_get D k = ows_record plain_monitor ''qgis'' sample_request 200 12 0 k"
    using p [THEN conjunct1] unfolding if_P [OF u] option.map option.case by blast
  moreover have "oapi_emit (\<lambda>_. ''{}'') (\<lambda>k _. Inr k) plain_monitor ''WFS3'' sample_request 200 12 None [] = Inl TypeError"
    using p [THEN conjunct2, THEN conjunct1] a(2) by simp
  ultimately show ?thesis using r by metis
qed

end
