(* ===== verification/Management.thy ===== *)
theory Management
  imports Pages PoolServer Observer QgsWorker
begin

text \<open>
  The management server, \<open>src/pyqgisserver/management/server.py\<close>: its handlers, its routes
  and its start. Requests that it does not answer itself go to the workers through the api handler.
\<close>

section \<open>Handlers\<close>

text \<open>\<open>_RestartHandler.post\<close>: without a pool (a proxy has none) the call fails.\<close>

definition restart_post ::
  "(json \<Rightarrow> string) \<Rightarrow> base_conf \<Rightarrow> bool \<Rightarrow> string \<Rightarrow> http_request \<Rightarrow> 'd pool_server option \<Rightarrow>
     (unit result \<times> http_call list) \<times> 'd pool_server option" where
  "restart_post dumps bc ok action rq ps =
     (if action = ''restart'' \<and> ps = None then ((Inl AttributeError, []), ps)
      else (write_json dumps bc rq (JDict [(''status'', JStr ''ok'')]),
            if action = ''restart'' then map_option (ps_restart_workers ok) ps else ps))"

text \<open>\<open>_get_cache_link\<close>: a path key goes into the query, another one into the path.\<close>

definition get_cache_link :: "string \<Rightarrow> http_request \<Rightarrow> string" where
  "get_cache_link key rq =
     (if starts_with ''/'' key then hq_protocol rq @ ''://'' @ hq_host rq @ ''/cache/content/?MAP='' @ quote_plus key
      else hq_protocol rq @ ''://'' @ hq_host rq @ ''/cache/content/'' @ quote_plus key)"

text \<open>A worker report: its cache lines; the link is added to each.\<close>

record worker_report =
  wr_pid :: int
  wr_cache :: "cache_line list"

definition report_json :: "http_request \<Rightarrow> worker_report \<Rightarrow> json" where
  "report_json rq r = JDict [(''pid'', JInt (wr_pid r)),
     (''cache'', JList (map (\<lambda>l. JDict [(''key'', JStr (cl_key l)), (''filename'', JStr (cl_filename l)),
        (''link'', JStr (get_cache_link (cl_key l) rq))]) (wr_cache r)))]"

definition report_get ::
  "(json \<Rightarrow> string) \<Rightarrow> base_conf \<Rightarrow> bool \<Rightarrow> (nat \<Rightarrow> worker_report sup_event list) \<Rightarrow> http_request \<Rightarrow>
     worker_report pool_server option \<Rightarrow> (unit result \<times> http_call list) \<times> worker_report pool_server option" where
  "report_get dumps bc ok arrivals rq ps = (case ps of
      None \<Rightarrow> ((Inl AttributeError, []), None)
    | Some s \<Rightarrow> (let (reports, s') = get_reports ok arrivals s
        in (write_json dumps bc rq (JDict [(''workers'', JList (map (report_json rq) reports)),
              (''num_workers'', JInt (int (ps_num_workers s)))]), Some s')))"

definition root_link :: "http_request \<Rightarrow> string \<Rightarrow> string \<Rightarrow> json" where
  "root_link rq path title = page_link rq path [(''title'', title), (''type'', ''application/json'')]"

definition root_response :: "http_request \<Rightarrow> json" where
  "root_response rq = JDict [(''links'', JList
     [root_link rq ''/status'' ''Server status and configuration'', root_link rq ''/plugins'' ''Plugins managment'',
      root_link rq ''/cache'' ''Projects cache managment'', root_link rq ''/pool'' ''Workers pool status''])]"

text \<open>
  \<open>_CacheHandler.get\<close>: the list of the cached projects, 404 for a key that the observer has
  not seen, otherwise the request goes on to a worker. \<open>iso\<close> prints a date.
\<close>

datatype cache_answer = Answered "unit result \<times> http_call list" | NotInCache "http_call list" | Forwarded

definition cache_get ::
  "(json \<Rightarrow> string) \<Rightarrow> (int \<Rightarrow> string) \<Rightarrow> get_arg \<Rightarrow> base_conf \<Rightarrow> obs_server \<Rightarrow> string option \<Rightarrow> http_request \<Rightarrow> cache_answer" where
  "cache_get dumps fmt garg bc obs key rq =
     (let k = (case truthy key of Some x \<Rightarrow> Some x | None \<Rightarrow> truthy (garg (hq_arguments rq) ''MAP'')) in
      case k of
        None \<Rightarrow> Answered (write_json dumps bc rq (JDict [(''cached'', JList (map (\<lambda>(name, t, st).
            JDict [(''name'', JStr name), (''last_modified'', JStr (fmt t)), (''link'', JStr (get_cache_link name rq))]) (obs_items obs)))]))
      | Some x \<Rightarrow> if obs_find obs x = None then NotInCache [SendErr 404 (''Project '' @ [CHR 39] @ x @ [CHR 39] @ '' not in cache'')]
                  else Forwarded)"

section \<open>Routes\<close>

datatype management_handler = RootH | StatusH | RestartH | ReportH | CacheH | QgisH

definition management_routes :: "(string \<times> management_handler) list" where
  "management_routes =
     [(''/'', RootH), (''/status/?.*'', StatusH), (''/pool/(restart)'', RestartH), (''/pool/?'', ReportH),
      (''/cache/content/(?P<key>.+)'', CacheH), (''/cache/?'', CacheH), (''/.+'', QgisH)]"

section \<open>Start\<close>

text \<open>\<open>create_ssl_context\<close>: \<open>load\<close> is \<open>load_cert_chain\<close> on a fresh context.\<close>

definition create_ssl_context :: "(string \<Rightarrow> string \<Rightarrow> 'c result) \<Rightarrow> config \<Rightarrow> string \<Rightarrow> 'c result" where
  "create_ssl_context load c s = rbind (proxy_item c s ''ssl_cert'') (\<lambda>cert. rbind (proxy_item c s ''ssl_key'') (load cert))"

text \<open>\<open>create_ssl_options\<close> of \<open>runtime.py\<close>, which does the same for the front end.\<close>

definition create_ssl_options :: "(string \<Rightarrow> string \<Rightarrow> 'c result) \<Rightarrow> config \<Rightarrow> 'c result" where
  "create_ssl_options load c = rbind (proxy_item c ''server'' ''ssl_cert'') (\<lambda>cert. rbind (proxy_item c ''server'' ''ssl_key'') (load cert))"

record 'c management_server =
  ms_port :: "int option"
  ms_address :: string
  ms_ssl :: "'c option"

text \<open>The application: its broker client and the settings of its handlers.\<close>

definition management_app :: "environ \<Rightarrow> unit result \<Rightarrow> config \<Rightarrow> bool result" where
  "management_app env client c =
     rbind client (\<lambda>_. rbind (proxy_get py_int c ''server'' ''timeout'') (\<lambda>tmo.
     fst (conf_getboolean env ''server'' ''http_proxy'' None c)))"

text \<open>The port, the address and the certificate are read before the application and its client are made; \<open>listen\<close> binds the port.\<close>

definition management_settings ::
  "(string \<Rightarrow> string \<Rightarrow> 'c result) \<Rightarrow> config \<Rightarrow> 'c management_server result" where
  "management_settings load c =
     rbind (proxy_get py_int c ''management'' ''port'') (\<lambda>port.
     rbind (proxy_item c ''management'' ''interfaces'') (\<lambda>address.
     rbind (proxy_get to_bool c ''management'' ''ssl'') (\<lambda>ssl.
     rbind (if ssl = Some True then rbind (create_ssl_context load c ''management'') (\<lambda>x. Inr (Some x)) else Inr None) (\<lambda>ctx.
       Inr \<lparr>ms_port = port, ms_address = address, ms_ssl = ctx\<rparr>))))"

definition start_management_server ::
  "environ \<Rightarrow> unit result \<Rightarrow> (string \<Rightarrow> string \<Rightarrow> 'c result) \<Rightarrow> ('c management_server \<Rightarrow> unit result) \<Rightarrow> config \<Rightarrow>
     'c management_server result" where
  "start_management_server env client load listen c =
     rbind (management_settings load c) (\<lambda>ms.
     rbind (management_app env client c) (\<lambda>_. rbind (listen ms) (\<lambda>_. Inr ms)))"

section \<open>Links to cached projects\<close>

lemma enc1_unquote: "unquote (enc1 c @ t) = (if c = CHR '' '' then CHR ''+'' else c) # unquote t"
proof (cases "always_safe c \<or> c = CHR '' ''")
  case True
  then show ?thesis
    using safe_not_special [of c] by (auto simp: enc1_def unquote_other)
qed (simp add: enc1_def unquote_pct)

lemma unquote_quoted: "unquote (quote_plus s) = replace_char CHR '' '' CHR ''+'' s"
proof (induction s)
  case (Cons c s)
  have "quote_plus (c # s) = enc1 c @ quote_plus s" by (simp add: quote_plus_enc1)
  with Cons show ?case by (simp add: enc1_unquote replace_char_def)
qed (simp add: quote_plus_def replace_char_def)

lemma replace_absent: "replace_char a b s = s \<longleftrightarrow> a \<notin> set s \<or> a = b"
  by (induction s) (auto simp: replace_char_def)

text \<open>
  C40: The link of a key that is a path brings the key back as its MAP parameter. The link of
  another key carries it in the path, where plus signs are not decoded: the handler gets the key
  back exactly when it holds no space, and answers 404 for a cached project with a space in its name
  unless the name with plus signs is cached too.
\<close>

theorem cache_link_roundtrip:
  assumes "\<not> starts_with ''/'' key" "key \<noteq> []"
    and link: "get_cache_link key rq = hq_protocol rq @ ''://'' @ hq_host rq @ ''/cache/content/'' @ path"
  shows "(unquote path = key \<longleftrightarrow> CHR '' '' \<notin> set key)
     \<and> (CHR '' '' \<in> set key \<and> obs_find obs (replace_char CHR '' '' CHR ''+'' key) = None \<longrightarrow>
          (\<exists>calls. cache_get dumps fmt garg bc obs (Some (unquote path)) rq2 = NotInCache calls))
     \<and> (\<forall>k. starts_with ''/'' k \<longrightarrow>
          get_cache_link k rq = hq_protocol rq @ ''://'' @ hq_host rq @ ''/cache/content/?'' @ urlencode [(''MAP'', k)]
          \<and> od_get (parse_qsl (urlencode [(''MAP'', k)])) ''MAP'' = Some k)"
proof -
  have p: "path = quote_plus key" using link assms(1) by (simp add: get_cache_link_def)
  have u: "unquote path = replace_char CHR '' '' CHR ''+'' key" unfolding p by (rule unquote_quoted)
  have ne: "truthy (Some (unquote path)) = Some (unquote path)"
    using assms(2) by (cases key) (auto simp: u truthy_def replace_char_def)
  have m: "quote_plus ''MAP'' = ''MAP''" by code_simp
  have q: "od_get (parse_qsl (urlencode [(''MAP'', k)])) ''MAP'' = Some k" if "starts_with ''/'' k" for k
    using that by (cases k) (auto simp: parse_urlencode starts_with_def)
  have "get_cache_link k rq = hq_protocol rq @ ''://'' @ hq_host rq @ ''/cache/content/?'' @ urlencode [(''MAP'', k)]"
    if "starts_with ''/'' k" for k
    using that by (simp add: get_cache_link_def urlencode_def m)
  with q show ?thesis
    using ne by (auto simp: u replace_absent cache_get_def Let_def)
qed

theorem cache_link_roundtrip_witness:
  "get_cache_link ''my town'' sample_request = ''http://h/cache/content/my+town''
   \<and> (\<exists>calls. cache_get (\<lambda>_. ''{}'') (\<lambda>_. ''d'') last_value simple_base
        (one_observer\<lparr>os_last := [(''my town'', 5, Inserted)]\<rparr>) (Some (unquote ''my+town'')) sample_request = NotInCache calls)"
proof -
  have q: "quote_plus ''my town'' = ''my+town''" by code_simp
  have l: "get_cache_link ''my town'' sample_request = hq_protocol sample_request @ ''://'' @ hq_host sample_request @ ''/cache/content/'' @ ''my+town''"
    by (simp add: get_cache_link_def starts_with_def q)
  have f: "obs_find (one_observer\<lparr>os_last := [(''my town'', 5, Inserted)]\<rparr>) (replace_char CHR '' '' CHR ''+'' ''my town'') = None"
    by code_simp
  have "\<exists>calls. cache_get (\<lambda>_. ''{}'') (\<lambda>_. ''d'') last_value simple_base
        (one_observer\<lparr>os_last := [(''my town'', 5, Inserted)]\<rparr>) (Some (unquote ''my+town'')) sample_request = NotInCache calls"
    using cache_link_roundtrip [OF _ _ l] f by (auto simp: starts_with_def)
  with l show ?thesis by (simp add: sample_request_def)
qed

section \<open>Secure management\<close>

lemma management_default:
  "default_setting env ''management'' ''enabled'' = Some (getenv env ''QGSRV_MANAGEMENT_ENABLED'' ''no'')"
  "default_setting env ''management'' ''interfaces'' = Some (getenv env ''QGSRV_MANAGEMENT_INTERFACES'' ''127.0.0.1'')"
  "default_setting env ''management'' ''ssl'' = Some (getenv env ''QGSRV_MANAGEMENT_SSL'' ''no'')"
  "default_setting env ''management'' ''ssl_cert'' = Some (getenv env ''QGSRV_MANAGEMENT_SSL_CERT'' [])"
  "default_setting env ''management'' ''port'' = Some (getenv env ''QGSRV_MANAGEMENT_PORT'' ''19876'')"
  by (simp_all add: group_defaults management_steps_def)

lemma ssl_key_default: "default_setting env ''management'' ''ssl_key'' = None"
  by (simp add: group_defaults management_steps_def)

lemma missing_item: "raw_get c s n = None \<Longrightarrow> proxy_item c s n = Inl KeyError"
  by (auto simp: proxy_item_def proxy_get_def parser_conv_def parser_get_def)

lemma ssl_start_fails:
  assumes "raw_get c ''management'' ''ssl_key'' = None" "proxy_get py_int c ''management'' ''port'' = Inr p"
    "proxy_item c ''management'' ''interfaces'' = Inr a" "proxy_get to_bool c ''management'' ''ssl'' = Inr (Some True)"
    "proxy_item c ''management'' ''ssl_cert'' = Inr cert"
  shows "start_management_server env client load listen c = Inl KeyError"
  using assms(2-) missing_item [OF assms(1)] by (simp add: start_management_server_def management_settings_def create_ssl_context_def)

text \<open>
  The management server cannot start with SSL unless the configuration file itself sets
  \<open>ssl_key\<close>: neither the defaults nor the documented environment variable provide the option
  that is read, so a start with SSL enabled ends with \<open>KeyError\<close>.
\<close>

theorem management_ssl_needs_file:
  assumes "\<forall>n. plain_value (env n)" "plain_value (a_rootdir a)" "plain_value (a_interfaces a)"
    and "c_defaults c0 = []" "''DEFAULT'' \<notin> fst ` set f" "file_setting f ''management'' ''ssl_key'' = None"
    and start: "load_configuration env c0 = Inr c" "override_config a (parser_read f c) = Inr c'"
    and readable: "proxy_get py_int c' ''management'' ''port'' = Inr p" "proxy_item c' ''management'' ''interfaces'' = Inr i"
      "proxy_get to_bool c' ''management'' ''ssl'' = Inr (Some True)" "proxy_item c' ''management'' ''ssl_cert'' = Inr cert"
  shows "start_management_server env client load listen c' = Inl KeyError"
proof (rule ssl_start_fails [OF _ readable])
  obtain d d' where d: "load_configuration env c0 = Inr d" "override_config a (parser_read f d) = Inr d'"
      "\<And>s n. raw_get d' s n = first_set [cli_setting a s n, file_setting f s n, default_setting env s n]"
    by (rule merged_configuration [OF assms(1-5)]) blast
  then have "c' = d'" using start by simp
  with d(3) assms(6) show "raw_get c' ''management'' ''ssl_key'' = None"
    by (simp add: cli_setting_def ssl_key_default)
qed

definition ssl_env :: environ where
  "ssl_env n = (if n = ''QGSRV_MANAGEMENT_SSL'' then Some ''yes''
     else if n = ''QGSRV_MANAGEMENT_SSL_KEY'' then Some ''/etc/key.pem''
     else if n = ''QGSRV_MANAGEMENT_SSL_CERT'' then Some ''/etc/cert.pem'' else None)"

lemma proxy_item_plain: "raw_get c s n = Some v \<Longrightarrow> s \<noteq> ''DEFAULT'' \<Longrightarrow> CHR ''$'' \<notin> set v \<Longrightarrow> proxy_item c s n = Inr v"
  using proxy_get_plain [of c s n v Inr v] by (simp add: proxy_item_def)

theorem management_ssl_needs_file_witness:
  "\<exists>c c'. load_configuration ssl_env empty_config = Inr c \<and> override_config town_args (parser_read [] c) = Inr c'
     \<and> start_management_server ssl_env (Inr ()) (\<lambda>cert key. Inr ()) (\<lambda>ms. Inr ()) c' = Inl KeyError"
proof -
  have e: "\<forall>n. plain_value (ssl_env n)" by (simp add: ssl_env_def plain_value_def)
  have a: "plain_value (a_rootdir town_args)" "plain_value (a_interfaces town_args)" "c_defaults empty_config = []"
    by (simp_all add: town_args_def plain_value_def empty_config_def)
  obtain c c' where c: "load_configuration ssl_env empty_config = Inr c" "override_config town_args (parser_read [] c) = Inr c'"
      "\<And>s n. raw_get c' s n = first_set [cli_setting town_args s n, file_setting [] s n, default_setting ssl_env s n]"
    by (rule merged_configuration [OF e a, of "[]"]) auto
  have r: "raw_get c' ''management'' ''port'' = Some ''19876''" "raw_get c' ''management'' ''interfaces'' = Some ''127.0.0.1''"
    "raw_get c' ''management'' ''ssl'' = Some ''yes''" "raw_get c' ''management'' ''ssl_cert'' = Some ''/etc/cert.pem''"
    by (simp_all add: c(3) cli_setting_def management_default getenv_def ssl_env_def)
  have v: "py_int ''19876'' = Inr 19876" "to_bool ''yes'' = Inr True" by code_simp+
  have p: "proxy_get py_int c' ''management'' ''port'' = Inr (Some 19876)" "proxy_get to_bool c' ''management'' ''ssl'' = Inr (Some True)"
    by (rule proxy_get_plain [OF r(1)], simp_all add: v) (rule proxy_get_plain [OF r(3)], simp_all add: v)
  have i: "proxy_item c' ''management'' ''interfaces'' = Inr ''127.0.0.1''" "proxy_item c' ''management'' ''ssl_cert'' = Inr ''/etc/cert.pem''"
    by (rule proxy_item_plain [OF r(2)], simp_all) (rule proxy_item_plain [OF r(4)], simp_all)
  have "start_management_server ssl_env (Inr ()) (\<lambda>cert key. Inr ()) (\<lambda>ms. Inr ()) c' = Inl KeyError"
    by (rule management_ssl_needs_file [OF e a _ _ c(1,2) p(1) i(1) p(2) i(2)]) simp_all
  with c(1,2) show ?thesis by blast
qed

end
