(* ===== verification/Runtime.thy ===== *)
theory Runtime
  imports Management Middleware Monitor
begin

text \<open>
  \<open>src/pyqgisserver/runtime.py\<close>, \<open>zeromq/utils.py\<close> and \<open>version.py\<close>: the
  routes of the front end, the addresses of the sockets, the broker process, and the life of the
  server: which components are started in which order, what exit code an ending gives, and what is
  torn down. What starting a component gives is an argument.
\<close>

section \<open>Routes\<close>

datatype handler_class = LandingPage | PingHandler | StatusHandler | OwsHandler | OAPIHandler

record handler_kwargs =
  kw_timeout :: "int option"
  kw_allowed_hdrs :: "string list"
  kw_debug_request_id :: "string option"
  kw_getfeaturelimit :: "int option"
  kw_service :: "string option"

definition BS :: char where "BS = CHR 0x5C"

definition end_pattern :: string where
  "end_pattern = ''(?:'' @ [BS] @ ''.html|'' @ [BS] @ ''.json|/?)''"

definition collection_end :: string where
  "collection_end = ''(?:'' @ [BS] @ ''.html|'' @ [BS] @ ''.json|'' @ [BS] @ ''.geojson|/?)''"

definition wfs3_api_endpoints :: "string list" where
  "wfs3_api_endpoints =
     [end_pattern, ''/collections(?:/[^/]+(?:/items)?(?:/[0-9]+)?)?'' @ collection_end,
      ''/conformance'' @ end_pattern, ''/api'' @ end_pattern, ''/static/.*'']"

text \<open>The allowed prefixes: the option split at commas, in upper case.\<close>

definition allowed_prefixes :: "string \<Rightarrow> string list" where
  "allowed_prefixes v = map py_upper (split_on CHR '','' v)"

text \<open>An empty option gives the empty prefix, which every header has.\<close>

lemma empty_prefix_allows_all: "allowed_header (allowed_prefixes []) h"
  by (simp add: allowed_prefixes_def allowed_header_def py_upper_def)

type_synonym route = "string \<times> handler_class \<times> handler_kwargs option"

definition api_routes :: "handler_kwargs \<Rightarrow> options \<Rightarrow> route list" where
  "api_routes kw eps = map (\<lambda>(name, ep). (''/'' @ strip_chars ''/'' ep @ ''/.*'', OAPIHandler, Some (kw\<lparr>kw_service := Some name\<rparr>))) eps"

definition configure_handlers :: "environ \<Rightarrow> ('m option result) entry_point list \<Rightarrow> config \<Rightarrow> route list result" where
  "configure_handlers env mons c =
     rbind (fst (monitor_instance env c mons None)) (\<lambda>mon.
     rbind (proxy_get py_int c ''server'' ''timeout'') (\<lambda>tmo.
     rbind (proxy_get Inr c ''server'' ''allow_headers'') (\<lambda>hdrs.
     rbind (case hdrs of None \<Rightarrow> Inl AttributeError | Some v \<Rightarrow> Inr (allowed_prefixes v)) (\<lambda>pats.
     rbind (proxy_get Inr c ''server'' ''debug_request_id'') (\<lambda>dbg.
     rbind (proxy_get to_bool c ''server'' ''status_page'') (\<lambda>status.
     rbind (proxy_get py_int c ''server'' ''getfeaturelimit'') (\<lambda>lim.
     rbind (qgis_api_endpoints True c) (\<lambda>eps.
       let kw = \<lparr>kw_timeout = tmo, kw_allowed_hdrs = pats, kw_debug_request_id = dbg, kw_getfeaturelimit = None, kw_service = None\<rparr>
       in Inr ([(''/'', LandingPage, None), (''/ping'', PingHandler, None)]
          @ (if status = Some True then [(''/status/?.*'', StatusHandler, None)] else [])
          @ [(''/ows/?'', OwsHandler, Some (kw\<lparr>kw_getfeaturelimit := lim\<rparr>))]
          @ concat (map (\<lambda>e. [(''/ogcapi'' @ e, OAPIHandler, Some (kw\<lparr>kw_service := Some ''WFS3''\<rparr>)),
                             (''/wfs3'' @ e, OAPIHandler, Some (kw\<lparr>kw_service := Some ''WFS3''\<rparr>))]) wfs3_api_endpoints)
          @ api_routes kw eps)))))))))"

text \<open>The application; \<open>client\<close> is what making the broker client with its identity gives.\<close>

definition application_init ::
  "environ \<Rightarrow> ('m option result) entry_point list \<Rightarrow> (string \<Rightarrow> unit result) \<Rightarrow> config \<Rightarrow> route list result" where
  "application_init env mons client c =
     rbind (proxy_item c ''zmq'' ''identity'') (\<lambda>identity.
     rbind (client identity) (\<lambda>_.
     rbind (fst (conf_getboolean env ''server'' ''http_proxy'' None c)) (\<lambda>_. configure_handlers env mons c)))"

section \<open>Addresses\<close>

definition ipc_path :: "int \<Rightarrow> string" where
  "ipc_path pid = ''/tmp/qgssrv/broker/'' @ int_str pid @ ''/''"

definition configure_ipc_addresses :: "int \<Rightarrow> int \<Rightarrow> config \<Rightarrow> (string \<times> config) result" where
  "configure_ipc_addresses pid nworkers c =
     rbind (service_set ''zmq'' ''ipcpath'' (ipc_path pid) c) (\<lambda>c1.
     rbind (if 0 < nworkers
            then rbind (service_set ''zmq'' ''bindaddr'' (''ipc://'' @ ipc_path pid @ ''pool0'') c1)
                   (service_set ''zmq'' ''broadcastaddr'' (''ipc://'' @ ipc_path pid @ ''broadcast0''))
            else Inr c1) (\<lambda>c2. Inr (''ipc://'' @ ipc_path pid @ ''0'', c2)))"

text \<open>\<open>_get_ipc\<close>: the socket below the path, or the configured TCP address.\<close>

definition get_ipc :: "environ \<Rightarrow> string \<Rightarrow> config \<Rightarrow> string result \<times> config" where
  "get_ipc env name c = (case conf_get env ''zmq'' ''ipcpath'' (Some []) c of
      (Inl e, c1) \<Rightarrow> (Inl e, c1)
    | (Inr p, c1) \<Rightarrow> if p \<noteq> [] then (Inr (''ipc://'' @ p @ ''/'' @ name), c1) else conf_get env ''zmq'' (name @ ''_addr'') None c1)"

record broker_args =
  ba_inaddr :: string
  ba_outaddr :: string
  ba_maxqueue :: "int option"
  ba_timeout :: "int option"

definition create_broker_process :: "string \<Rightarrow> config \<Rightarrow> broker_args result" where
  "create_broker_process ipcaddr c =
     rbind (proxy_item c ''zmq'' ''bindaddr'') (\<lambda>out.
     rbind (proxy_get py_int c ''zmq'' ''maxqueue'') (\<lambda>q.
     rbind (proxy_get py_int c ''zmq'' ''timeout'') (\<lambda>t.
       Inr \<lparr>ba_inaddr = ipcaddr, ba_outaddr = out, ba_maxqueue = q, ba_timeout = t\<rparr>)))"

section \<open>The manifest\<close>

text \<open>\<open>read_manifest\<close>: each line split at its equal signs; a line without one is an error, which is ignored with all lines.\<close>

definition manifest_line :: "string \<Rightarrow> (string \<times> string) option" where
  "manifest_line l = (case split_on CHR ''='' (py_strip l) of k # v # _ \<Rightarrow> Some (k, v) | _ \<Rightarrow> None)"

fun manifest_lines :: "options \<Rightarrow> string list \<Rightarrow> options" where
  "manifest_lines m [] = m"
| "manifest_lines m (l # ls) = (case manifest_line l of None \<Rightarrow> m | Some (k, v) \<Rightarrow> manifest_lines (od_set k v m) ls)"

definition read_manifest :: "string list option \<Rightarrow> options" where
  "read_manifest file_lines =
     manifest_lines [(''commitid'', ''n/a''), (''buildid'', ''n/a''), (''version'', ''n/a'')] (case file_lines of None \<Rightarrow> [] | Some ls \<Rightarrow> ls)"

section \<open>The life of the server\<close>

datatype part = Broker | WorkerPool | App | HttpServer | ManagementServer | CacheObserver

text \<open>How the main coroutine ends; \<open>SystemExit\<close> carries nothing, an integer or something else.\<close>

datatype exit_arg = NoCode | IntCode int | OtherCode

datatype ending = Finished | Raised exn | Interrupted | SysExit exit_arg

definition exit_code :: "ending \<Rightarrow> int" where
  "exit_code e = (case e of
      Finished \<Rightarrow> 0 | Raised x \<Rightarrow> 1 | Interrupted \<Rightarrow> 15
    | SysExit NoCode \<Rightarrow> 0 | SysExit (IntCode n) \<Rightarrow> n | SysExit OtherCode \<Rightarrow> 1)"

text \<open>
  A stage of the try block: what it starts, and how it ends the run when it fails. Stages run in
  order up to the first that fails; the last one is the wait.
\<close>

type_synonym stage = "part option \<times> ending option"

fun run_stages :: "stage list \<Rightarrow> part list \<times> ending" where
  "run_stages [] = ([], Finished)"
| "run_stages ((p, r) # ss) = (case r of
      Some e \<Rightarrow> ([], e)
    | None \<Rightarrow> (let (ps, e) = run_stages ss in (case p of None \<Rightarrow> ps | Some x \<Rightarrow> x # ps, e)))"

text \<open>What is torn down, in this order: the parts that were started.\<close>

definition teardown_order :: "part list" where
  "teardown_order = [HttpServer, ManagementServer, App, CacheObserver, WorkerPool, Broker]"

definition teardown :: "part list \<Rightarrow> part list" where
  "teardown started = filter (\<lambda>p. p \<in> set started) teardown_order"

text \<open>
  The world: the process id, what changing the user, loading certificates, opening sockets and binding
  the address for broadcasts give, the entry points, the files that globs match, and how the wait for the stop signal ends.
\<close>

record ('c, 'm) server_world =
  sw_pid :: int
  sw_setuid :: "string \<Rightarrow> unit result"
  sw_ssl :: "string \<Rightarrow> string \<Rightarrow> 'c result"
  sw_listen :: "'c management_server \<Rightarrow> unit result"
  sw_sockets :: "unit result"
  sw_client :: "string \<Rightarrow> unit result"
  sw_monitors :: "('m option result) entry_point list"
  sw_policies :: "(http_request policy list \<Rightarrow> unit result \<times> http_request policy list) entry_point list"
  sw_observers :: "cache_observer entry_point list"
  sw_observer_socket :: "unit result"
  sw_glob :: "string \<Rightarrow> string list"
  sw_bind :: "string \<Rightarrow> unit result"
  sw_wait :: ending

definition stage_of :: "'a result \<Rightarrow> ending option" where
  "stage_of r = (case r of Inl e \<Rightarrow> Some (Raised e) | Inr _ \<Rightarrow> None)"

text \<open>Before the try block: addresses, user, certificates, and the declaration of the observers.\<close>

definition prepare_server ::
  "environ \<Rightarrow> ('c, 'm) server_world \<Rightarrow> string \<Rightarrow> int \<Rightarrow> config \<Rightarrow> (string \<times> string list \<times> bool \<times> config) result" where
  "prepare_server env w user n c =
     rbind (configure_ipc_addresses (sw_pid w) n c) (\<lambda>(ipcaddr, c1).
     rbind (if user = [] then Inr () else sw_setuid w user) (\<lambda>_.
     rbind (fst (conf_getboolean env ''server'' ''ssl'' None c1)) (\<lambda>ssl.
     rbind (if ssl then rbind (create_ssl_options (sw_ssl w) c1) (\<lambda>_. Inr ()) else Inr ()) (\<lambda>_.
     rbind (fst (conf_getboolean env ''server'' ''http_proxy'' None c1)) (\<lambda>_.
     rbind (declare_observers env c1) (\<lambda>(names, enabled, c2). Inr (ipcaddr, names, enabled, c2)))))))"

definition pool_of :: "(string \<Rightarrow> rat result) \<Rightarrow> (string \<Rightarrow> unit result) \<Rightarrow> int \<Rightarrow> config \<Rightarrow> bool \<times> worker_report pool_server result" where
  "pool_of float bind n c = create_poolserver float bind c (nat n)"

definition management_enabled :: "config \<Rightarrow> bool option result" where
  "management_enabled c = proxy_get to_bool c ''management'' ''enabled''"

text \<open>The try block; its last stage is the wait.\<close>

definition start_stages ::
  "environ \<Rightarrow> (string \<Rightarrow> rat result) \<Rightarrow> ('c, 'm) server_world \<Rightarrow> int \<Rightarrow> string \<times> string list \<times> bool \<times> config \<Rightarrow> stage list" where
  "start_stages env float w n = (\<lambda>(ipcaddr, names, enabled, c).
     [(Some Broker, stage_of (create_broker_process ipcaddr c))]
     @ (if 0 < n then [(Some WorkerPool, stage_of (snd (pool_of float (sw_bind w) n c)))] else [])
     @ [(None, stage_of (sw_sockets w)), (Some App, stage_of (application_init env (sw_monitors w) (sw_client w) c)),
        (Some HttpServer, stage_of (initialize_middleware env c (sw_policies w))), (None, stage_of (management_enabled c))]
     @ (if management_enabled c = Inr (Some True)
        then [(Some ManagementServer, stage_of (start_management_server env (sw_client w ''MANAGEMENT'') (sw_ssl w) (sw_listen w) c))] else [])
     @ (if 0 < n then [(None, stage_of (rbind (snd (pool_of float (sw_bind w) n c)) (start_supervisor env c (sw_glob w))))] else [])
     @ [(Some CacheObserver, stage_of (rbind (obs_server_init (sw_observers w) names enabled)
            (\<lambda>s. if enabled then sw_observer_socket w else Inr ())))])"

definition main_stages ::
  "environ \<Rightarrow> (string \<Rightarrow> rat result) \<Rightarrow> ('c, 'm) server_world \<Rightarrow> int \<Rightarrow> string \<times> string list \<times> bool \<times> config \<Rightarrow> stage list" where
  "main_stages env float w n prep =
     start_stages env float w n prep @ [(None, if sw_wait w = Finished then None else Some (sw_wait w))]"

text \<open>
  A part is stopped only when its start returned. What a start had made before it failed stays: the
  process of the pool, or the broker client of an application.
\<close>

definition begun ::
  "environ \<Rightarrow> (string \<Rightarrow> rat result) \<Rightarrow> ('c, 'm) server_world \<Rightarrow> int \<Rightarrow> config \<Rightarrow> part \<Rightarrow> bool" where
  "begun env float w n c p = (case p of
      WorkerPool \<Rightarrow> fst (pool_of float (sw_bind w) n c)
    | App \<Rightarrow> is_ok (rbind (proxy_item c ''zmq'' ''identity'') (sw_client w))
    | ManagementServer \<Rightarrow> is_ok (rbind (management_settings (sw_ssl w) c) (\<lambda>ms. sw_client w ''MANAGEMENT''))
    | _ \<Rightarrow> False)"

definition left_running ::
  "environ \<Rightarrow> (string \<Rightarrow> rat result) \<Rightarrow> ('c, 'm) server_world \<Rightarrow> int \<Rightarrow> string \<times> string list \<times> bool \<times> config \<Rightarrow> part list" where
  "left_running env float w n prep = (case dropWhile (\<lambda>s. snd s = None) (start_stages env float w n prep) of
      (Some p, e) # ss \<Rightarrow> if begun env float w n (snd (snd (snd prep))) p then [p] else []
    | _ \<Rightarrow> [])"

text \<open>
  \<open>run_server\<close>: a failure before the try block leaves the function with nothing running;
  afterwards it ends with the exit code and the parts that were stopped.
\<close>

definition run_server ::
  "environ \<Rightarrow> (string \<Rightarrow> rat result) \<Rightarrow> ('c, 'm) server_world \<Rightarrow> string \<Rightarrow> int \<Rightarrow> config \<Rightarrow> (int \<times> part list) result" where
  "run_server env float w user n c =
     rbind (prepare_server env w user n c) (\<lambda>prep.
       let (started, e) = run_stages (main_stages env float w n prep) in Inr (exit_code e, teardown started))"

section \<open>Nothing is left running\<close>

lemma set_teardown: "set (teardown ps) = set ps"
proof -
  have "p \<in> set teardown_order" for p by (cases p) (simp_all add: teardown_order_def)
  then show ?thesis by (auto simp: teardown_def)
qed

text \<open>The parts in the order of their end, so that a teardown is a sorted list.\<close>

instantiation part :: linorder
begin

fun part_rank :: "part \<Rightarrow> nat" where
  "part_rank HttpServer = 0"
| "part_rank ManagementServer = 1"
| "part_rank App = 2"
| "part_rank CacheObserver = 3"
| "part_rank WorkerPool = 4"
| "part_rank Broker = 5"

definition less_eq_part :: "part \<Rightarrow> part \<Rightarrow> bool" where
  "less_eq_part p q = (part_rank p \<le> part_rank q)"

definition less_part :: "part \<Rightarrow> part \<Rightarrow> bool" where
  "less_part p q = (part_rank p < part_rank q)"

instance
proof
  fix p q :: part
  assume "p \<le> q" "q \<le> p"
  then show "p = q" by (cases p; cases q; simp add: less_eq_part_def)
qed (auto simp: less_eq_part_def less_part_def)

end

lemma teardown_sorted: "sorted_wrt (<) (teardown ps)"
  unfolding teardown_def by (rule sorted_wrt_filter) (simp add: teardown_order_def less_part_def)

lemma teardown_list: "teardown ps = sorted_list_of_set (set ps)"
  using teardown_sorted [of ps] by (metis strict_sorted_equal strict_sorted_list_of_set set_teardown set_sorted_list_of_set finite_set)

definition all_ok :: "stage list \<Rightarrow> bool" where
  "all_ok ss = list_all (\<lambda>s. snd s = None) ss"

definition parts_of :: "stage list \<Rightarrow> part list" where
  "parts_of ss = List.map_filter fst ss"

lemma run_stages_append:
  "all_ok ss \<Longrightarrow> run_stages (ss @ ts) = (parts_of ss @ fst (run_stages ts), snd (run_stages ts))"
proof (induction ss)
  case (Cons s ss)
  then show ?case
    by (cases s) (auto simp: all_ok_def parts_of_def List.map_filter_simps split: option.split prod.split)
qed (simp add: parts_of_def)

lemma run_stages_ok: "all_ok ss \<Longrightarrow> run_stages ss = (parts_of ss, Finished)"
  using run_stages_append [of ss "[]"] by simp

lemma run_server_prepared:
  "prepare_server env w user n c = Inr prep \<Longrightarrow>
     run_server env float w user n c =
       Inr (exit_code (snd (run_stages (main_stages env float w n prep))), teardown (fst (run_stages (main_stages env float w n prep))))"
  by (simp add: run_server_def split: prod.split)

lemma run_server_waited:
  assumes "prepare_server env w user n c = Inr prep" "all_ok (start_stages env float w n prep)"
  shows "run_server env float w user n c = Inr (exit_code (sw_wait w), teardown (parts_of (start_stages env float w n prep)))"
  by (simp add: run_server_prepared [OF assms(1)] main_stages_def run_stages_append [OF assms(2)])

lemma parts_of_start: "distinct (parts_of (start_stages env float w n prep))"
  by (cases prep) (simp add: start_stages_def parts_of_def List.map_filter_simps)

lemma left_running_part:
  assumes "start_stages env float w n prep = ss @ (p, Some e) # ts" "all_ok ss" "q \<in> set (left_running env float w n prep)"
  shows "p = Some q \<and> q \<notin> set (parts_of ss)"
proof -
  have "dropWhile (\<lambda>s. snd s = None) (start_stages env float w n prep) = (p, Some e) # ts"
    unfolding assms(1) using assms(2) by (subst dropWhile_append2) (auto simp: all_ok_def list_all_iff)
  then have p: "p = Some q" using assms(3) by (auto simp: left_running_def split: option.splits if_splits)
  have "parts_of (ss @ ts') = parts_of ss @ parts_of ts'" for ss ts'
    by (induction ss) (auto simp: parts_of_def List.map_filter_simps split: option.split)
  then have "parts_of (start_stages env float w n prep) = parts_of ss @ q # parts_of ts"
    unfolding assms(1) p by (simp add: parts_of_def List.map_filter_simps)
  with parts_of_start [of env float w n prep] p show ?thesis by simp
qed

text \<open>A pool whose address for broadcasts cannot be bound: its process runs on.\<close>

lemma unbound_pool_left_running:
  assumes "create_broker_process ipcaddr c = Inr b" "0 < n" "pool_settings float c = Inr s" "sw_bind w (pg_broadcast s) = Inl e"
  shows "left_running env float w n (ipcaddr, names, obs, c) = [WorkerPool]"
    "run_stages (main_stages env float w n (ipcaddr, names, obs, c)) = ([Broker], Raised e)"
  using assms by (simp_all add: left_running_def main_stages_def start_stages_def stage_of_def pool_of_def create_poolserver_def begun_def)

text \<open>
  C17: However the server ends, the parts that are stopped are those whose start returned, each
  once and in the order from the HTTP server to the broker. When a stage of the start fails no later part is started
  and the exit code is 1, and what the failing start had made is not stopped; otherwise the code says how the wait ended: 0 for the stop signal, 15 for
  an interrupt, 1 for an exception, the code of a \<open>SystemExit\<close>.
\<close>

theorem server_teardown:
  assumes prep: "prepare_server env w user n c = Inr prep"
    and run: "run_server env float w user n c = Inr (code, ended)"
  shows "ended = sorted_list_of_set (set (fst (run_stages (main_stages env float w n prep))))
     \<and> (\<forall>ss p e ts. start_stages env float w n prep = ss @ (p, Some (Raised e)) # ts \<and> all_ok ss \<longrightarrow>
          code = 1 \<and> ended = sorted_list_of_set (set (parts_of ss))
          \<and> (\<forall>q \<in> set (left_running env float w n prep). p = Some q \<and> q \<notin> set ended))
     \<and> (all_ok (start_stages env float w n prep) \<longrightarrow>
          code = exit_code (sw_wait w) \<and> ended = sorted_list_of_set (set (parts_of (start_stages env float w n prep))))"
proof -
  have r: "code = exit_code (snd (run_stages (main_stages env float w n prep)))"
      "ended = teardown (fst (run_stages (main_stages env float w n prep)))"
    using run by (simp_all add: run_server_prepared [OF prep])
  have f: "run_stages (main_stages env float w n prep) = (parts_of ss, Raised e)"
    if "start_stages env float w n prep = ss @ (p, Some (Raised e)) # ts" "all_ok ss" for ss p e ts
    using that by (simp add: main_stages_def run_stages_append)
  have l: "p = Some q \<and> q \<notin> set (parts_of ss)"
    if "start_stages env float w n prep = ss @ (p, Some (Raised e)) # ts" "all_ok ss" "q \<in> set (left_running env float w n prep)" for ss p e ts q
    using left_running_part [OF that] .
  have o: "code = exit_code (sw_wait w) \<and> ended = teardown (parts_of (start_stages env float w n prep))"
    if "all_ok (start_stages env float w n prep)"
    using run_server_waited [OF prep that] run by simp
  show ?thesis
    using r f l o by (auto simp: teardown_list exit_code_def)
qed

text \<open>A small configuration and a world where everything starts and one worker is asked for.\<close>

definition small_config :: config where
  "small_config = \<lparr>c_defaults = [], c_sections =
     [(''server'', [(''ssl'', ''no''), (''http_proxy'', ''no''), (''timeout'', ''20''), (''memory_high_water_mark'', ''0.9''),
                    (''allow_headers'', ''X-Qgis-''), (''debug_request_id'', []), (''status_page'', ''no''), (''getfeaturelimit'', ''-1''),
                    (''monitor'', []), (''enable_filters'', ''no''), (''restartmon'', []), (''pluginpath'', []), (''restartmon_check_time'', ''3000'')]),
      (''zmq'', [(''identity'', ''qgs''), (''maxqueue'', ''1000''), (''timeout'', ''15000'')]),
      (''management'', [(''enabled'', ''no'')]),
      (''projects.cache'', [(''observers'', [])]), (''api.endpoints'', []), (''api.enabled'', [])]\<rparr>"


definition one_worker_world :: "ending \<Rightarrow> (unit, unit) server_world" where
  "one_worker_world e = \<lparr>sw_pid = 7, sw_setuid = (\<lambda>u. Inr ()), sw_ssl = (\<lambda>a b. Inr ()), sw_listen = (\<lambda>m. Inr ()), sw_sockets = Inr (),
     sw_client = (\<lambda>i. Inr ()), sw_monitors = [], sw_policies = [], sw_observers = [], sw_observer_socket = Inr (), sw_glob = (\<lambda>p. []), sw_bind = (\<lambda>a. Inr ()), sw_wait = e\<rparr>"

lemma one_worker_wait: "sw_wait (one_worker_world e) = e"
  by (simp add: one_worker_world_def)

lemma one_worker_prepared:
  "case prepare_server (\<lambda>n. None) (one_worker_world e) [] 1 small_config of
     Inl x \<Rightarrow> False
   | Inr prep \<Rightarrow> list_all (\<lambda>s. snd s = None) (start_stages (\<lambda>n. None) (\<lambda>x. Inr 1) (one_worker_world e) 1 prep)
      \<and> parts_of (start_stages (\<lambda>n. None) (\<lambda>x. Inr 1) (one_worker_world e) 1 prep) = [Broker, WorkerPool, App, HttpServer, CacheObserver]"
  by code_simp

lemma one_worker_start:
  obtains prep where "prepare_server (\<lambda>n. None) (one_worker_world e) [] 1 small_config = Inr prep"
    "all_ok (start_stages (\<lambda>n. None) (\<lambda>x. Inr 1) (one_worker_world e) 1 prep)"
    "parts_of (start_stages (\<lambda>n. None) (\<lambda>x. Inr 1) (one_worker_world e) 1 prep) = [Broker, WorkerPool, App, HttpServer, CacheObserver]"
  using one_worker_prepared [of e] that by (auto simp: all_ok_def split: sum.splits)

theorem server_teardown_witness:
  "run_server (\<lambda>n. None) (\<lambda>x. Inr 1) (one_worker_world Interrupted) [] 1 small_config =
     Inr (15, [HttpServer, App, CacheObserver, WorkerPool, Broker])"
proof -
  obtain prep where p: "prepare_server (\<lambda>n. None) (one_worker_world Interrupted) [] 1 small_config = Inr prep"
    "all_ok (start_stages (\<lambda>n. None) (\<lambda>x. Inr 1) (one_worker_world Interrupted) 1 prep)"
    "parts_of (start_stages (\<lambda>n. None) (\<lambda>x. Inr 1) (one_worker_world Interrupted) 1 prep) = [Broker, WorkerPool, App, HttpServer, CacheObserver]"
    by (rule one_worker_start)
  obtain code ended where r: "run_server (\<lambda>n. None) (\<lambda>x. Inr 1) (one_worker_world Interrupted) [] 1 small_config = Inr (code, ended)"
    using run_server_waited [OF p(1,2)] by blast
  have "code = exit_code Interrupted \<and> ended = teardown [Broker, WorkerPool, App, HttpServer, CacheObserver]"
    using server_teardown [OF p(1) r, THEN conjunct2, THEN conjunct2, rule_format, OF p(2)]
    unfolding p(3) one_worker_wait teardown_list .
  then have "code = 15" "ended = [HttpServer, App, CacheObserver, WorkerPool, Broker]"
    by (simp_all add: exit_code_def teardown_def teardown_order_def)
  with r show ?thesis by simp
qed

end
