(* ===== verification/QgisApp.thy ===== *)
theory QgisApp
  imports Prelude
begin

text \<open>
  \<open>src/pyqgisserver/utils/qgis.py\<close>: what the start of the QGIS application does to the
  environment of the process, the hook that sends QGIS messages to the log, and the line that
  reports the proxy. QGIS itself is a parameter: its version, and the proxy it found.
\<close>

section \<open>Start\<close>

type_synonym os_environ = "(string, string) odict"

record app_options =
  op_processing :: bool
  op_cleanup :: bool

text \<open>The steps that are taken in QGIS, in this order.\<close>

datatype qgis_step = NewApplication | SetPrefixPath string | RegisterExit | InstallLogger | InitProcessing | NewServer | SetProxy

definition qgis_pluginpath :: "os_environ \<Rightarrow> string" where
  "qgis_pluginpath env = (case od_get env ''QGIS3_PLUGINPATH'' of None \<Rightarrow> ''/usr/share/qgis/python/plugins/'' | Some p \<Rightarrow> p)"

definition setup_qgis_paths :: "os_environ \<Rightarrow> string list \<Rightarrow> string list" where
  "setup_qgis_paths env path = path @ [qgis_pluginpath env]"

record qgis_start =
  qs_environ :: os_environ
  qs_path :: "string list"
  qs_steps :: "qgis_step list"

text \<open>A version before 3.28 ends the start, with the two variables and the path already set.\<close>

definition start_qgis_application ::
  "int \<Rightarrow> app_options \<Rightarrow> os_environ \<Rightarrow> string list \<Rightarrow> unit result \<times> qgis_start" where
  "start_qgis_application version opts env path =
     (let env1 = od_set ''QGIS_DISABLE_MESSAGE_HOOKS'' ''1'' (od_set ''QGIS_NO_OVERRIDE_IMPORT'' ''1'' env);
          path1 = setup_qgis_paths env1 path
      in if version < 32800 then (Inl RuntimeError, \<lparr>qs_environ = env1, qs_path = path1, qs_steps = []\<rparr>)
         else
           let env2 = (case od_get env1 ''DISPLAY'' of None \<Rightarrow> od_set ''QT_QPA_PLATFORM'' ''offscreen'' env1 | Some d \<Rightarrow> env1);
               prefix = (case od_get env2 ''QGIS3_HOME'' of None \<Rightarrow> ''/usr'' | Some h \<Rightarrow> h);
               env3 = od_set ''QGIS_PREFIX_PATH'' prefix env2
           in (Inr (), \<lparr>qs_environ = env3, qs_path = path1,
                qs_steps = [NewApplication, SetPrefixPath prefix] @ (if op_cleanup opts then [RegisterExit] else [])
                  @ [InstallLogger] @ (if op_processing opts then [InitProcessing] else [])\<rparr>))"

definition init_qgis_server :: "int \<Rightarrow> app_options \<Rightarrow> os_environ \<Rightarrow> string list \<Rightarrow> unit result \<times> qgis_start" where
  "init_qgis_server version opts env path = (case start_qgis_application version opts env path of
      (Inl e, s) \<Rightarrow> (Inl e, s)
    | (Inr _, s) \<Rightarrow> (Inr (), s\<lparr>qs_steps := qs_steps s @ [NewServer, SetProxy]\<rparr>))"

section \<open>Messages and proxy\<close>

datatype qgis_level = Info | Warning | Critical | OtherLevel

datatype log_line = LogWarning string | LogError string | LogDebug string

definition writelogmessage :: "string \<Rightarrow> string \<Rightarrow> string \<Rightarrow> qgis_level \<Rightarrow> log_line" where
  "writelogmessage logprefix message tag level =
     (let arg = logprefix @ '' '' @ tag @ '': '' @ message in
      case level of Warning \<Rightarrow> LogWarning arg | Critical \<Rightarrow> LogError arg | _ \<Rightarrow> LogDebug arg)"

datatype proxy_type = DefaultProxy | Socks5Proxy | NoProxy | HttpProxy | HttpCachingProxy | FtpCachingProxy

text \<open>The table of names; a later entry of a dictionary replaces an earlier one of the same key.\<close>

definition proxy_names :: "(proxy_type, string) odict" where
  "proxy_names = od_update []
     [(DefaultProxy, ''DefaultProxy''), (Socks5Proxy, ''Socks5Proxy''), (HttpProxy, ''HttpProxy''),
      (HttpCachingProxy, ''HttpCachingProxy''), (HttpCachingProxy, ''FtpCachingProxy'')]"

definition proxy_label :: "proxy_type \<Rightarrow> string option" where
  "proxy_label t = (if t = NoProxy then None else Some (case od_get proxy_names t of None \<Rightarrow> ''Undetermined'' | Some s \<Rightarrow> s))"

section \<open>Facts\<close>

text \<open>An application is made exactly for a supported version, with the display or off screen.\<close>

lemma started_environment:
  assumes "start_qgis_application version opts env path = (Inr (), s)"
  shows "32800 \<le> version \<and> hd (qs_steps s) = NewApplication
     \<and> od_get (qs_environ s) ''QGIS_PREFIX_PATH'' = Some (case od_get env ''QGIS3_HOME'' of None \<Rightarrow> ''/usr'' | Some h \<Rightarrow> h)
     \<and> (od_get env ''DISPLAY'' = None \<longrightarrow> od_get (qs_environ s) ''QT_QPA_PLATFORM'' = Some ''offscreen'')
     \<and> last (qs_path s) = qgis_pluginpath env"
proof -
  have v: "32800 \<le> version" using assms by (simp add: start_qgis_application_def Let_def split: if_splits)
  note d = assms [symmetric, unfolded start_qgis_application_def Let_def if_not_P [OF v [unfolded not_less [symmetric]]] prod.inject]
  have p: "last (qs_path s) = qgis_pluginpath env" and h: "hd (qs_steps s) = NewApplication"
    using d by (simp_all add: setup_qgis_paths_def qgis_pluginpath_def)
  show ?thesis
    using d v p h by (cases "od_get env ''DISPLAY''") simp_all
qed

text \<open>The two caching proxies are reported with wrong names.\<close>

lemma proxy_labels:
  "proxy_label HttpCachingProxy = Some ''FtpCachingProxy''" "proxy_label FtpCachingProxy = Some ''Undetermined''"
  by code_simp+

end
