(* ===== verification/Discipline.thy ===== *)
theory Discipline
  imports Streaming QgsWorker
begin

text \<open>
  The contract between a worker's loop and its request handler (\<open>zeromq/worker.py\<close>): whatever a
  handler does, it writes only to the client and under the id it was built with, a header message
  first and chunks only after a header that announces them. The QGIS handler (\<open>qgsworker.py\<close>)
  keeps it for every QGIS that uses the response through its methods, and so does the handler of
  the base class. The rest of the network relies on the contract alone.
\<close>

section \<open>The contract\<close>

definition keeps_wire :: "zhandler \<Rightarrow> zhandler \<Rightarrow> bool" where
  "keeps_wire h h' \<longleftrightarrow> (wire_inv h \<longrightarrow> wire_inv h') \<and> client_id h' = client_id h \<and> corr_id h' = corr_id h"

lemma keeps_wire_refl [simp]: "keeps_wire h h"
  by (simp add: keeps_wire_def)

lemma keeps_wire_trans: "keeps_wire h h1 \<Longrightarrow> keeps_wire h1 h2 \<Longrightarrow> keeps_wire h h2"
  by (simp add: keeps_wire_def)

text \<open>A handler with a state of its own, in an environment that each request meets anew.\<close>

locale message_handler =
  fixes hdl :: "'e \<Rightarrow> request_message \<Rightarrow> 's \<Rightarrow> zhandler \<Rightarrow> zhandler outcome \<times> 's"
  assumes keeps: "keeps_wire h (snd (fst (hdl e rq st h)))"

lemma keeps_wire_send: "keeps_wire h (snd (h_send d mo mt h))"
proof -
  obtain r h' where h': "h_send d mo mt h = (r, h')" by fastforce
  then have "client_id h' = client_id h \<and> corr_id h' = corr_id h"
    by (auto simp: h_send_def Let_def split: prod.splits option.splits if_splits dest!: h_write_ok h_write_err)
  with h' wire_inv_send [OF _ h'] show ?thesis by (simp add: keeps_wire_def)
qed

lemma keeps_wire_seq:
  "(\<And>f h. f \<in> set fs \<Longrightarrow> keeps_wire h (snd (f h))) \<Longrightarrow> keeps_wire h (snd (h_seq fs h))"
proof (induction fs arbitrary: h)
  case (Cons f fs)
  obtain e h1 where f: "f h = (e, h1)" by fastforce
  have k: "keeps_wire h h1" using Cons.prems [of f h] f by simp
  show ?case
  proof (cases e)
    case None
    have "keeps_wire h1 (snd (h_seq fs h1))" by (rule Cons.IH) (rule Cons.prems, simp)
    with k have "keeps_wire h (snd (h_seq fs h1))" by (rule keeps_wire_trans)
    with f None show ?thesis by simp
  qed (use f k in simp)
qed simp

lemma base_keeps: "keeps_wire h (snd (base_handle_message rq h))"
  unfolding base_handle_message_def by (rule keeps_wire_seq) (auto intro: keeps_wire_send)

interpretation base_handler: message_handler "\<lambda>_ rq st h. (base_handle_message rq h, st)"
  by unfold_locales (simp add: base_keeps)

lemma keeps_wire_serve:
  assumes "keeps_wire h (snd (hdl rq h))"
  shows "keeps_wire h (snd (serve_request hdl h rq))"
proof -
  obtain e h1 where h: "hdl rq h = (e, h1)" by fastforce
  with assms have k: "keeps_wire h h1" by simp
  show ?thesis
  proof (cases e)
    case None
    with h k show ?thesis by (simp add: serve_request_def)
  next
    case (Some x)
    show ?thesis
    proof (cases "x = OtherError ''ZMQError'' \<or> header_written h1")
      case True
      with h k Some show ?thesis by (auto simp: serve_request_def)
    next
      case False
      then have "keeps_wire h1 (h1\<lparr>status_code := 500\<rparr>)" by (auto simp: keeps_wire_def wire_inv_def h_payloads_def)
      with k keeps_wire_send have "keeps_wire h (snd (h_send ''Worker internal error'' False None (h1\<lparr>status_code := 500\<rparr>)))"
        by (blast intro: keeps_wire_trans)
      with h Some False show ?thesis by (simp add: serve_request_def)
    qed
  qed
qed

section \<open>Using a response through its methods\<close>

inductive rs_uses :: "response \<Rightarrow> response \<Rightarrow> bool" where
  uses_none: "rs_uses r r"
| uses_write: "rs_uses r r' \<Longrightarrow> rs_uses r (rs_write d r')"
| uses_header: "rs_uses r r' \<Longrightarrow> rs_uses r (setHeader k v r')"
| uses_extra: "rs_uses r r' \<Longrightarrow> rs_uses r (setExtraHeader k v r')"
| uses_remove: "rs_uses r r' \<Longrightarrow> rs_uses r (removeHeader k r')"
| uses_status: "rs_uses r r' \<Longrightarrow> rs_uses r (setStatusCode c r')"
| uses_error: "rs_uses r r' \<Longrightarrow> rs_uses r (sendError c msg r')"
| uses_truncate: "rs_uses r r' \<Longrightarrow> rs_uses r (rs_truncate r')"
| uses_clear: "rs_uses r r' \<Longrightarrow> rs_uses r (rs_clear r')"
| uses_flush: "rs_uses r r' \<Longrightarrow> rs_uses r (snd (flush r'))"
| uses_finish: "rs_uses r r' \<Longrightarrow> rs_uses r (snd (finish r'))"

lemma rs_uses_trans: "rs_uses r1 r2 \<Longrightarrow> rs_uses r r1 \<Longrightarrow> rs_uses r r2"
  by (induction rule: rs_uses.induct) (auto intro: rs_uses.intros)

lemma keeps_headers: "keeps_wire h (h\<lparr>hd_headers := x\<rparr>)"
  by (simp add: keeps_wire_def wire_inv_def h_payloads_def)

lemma keeps_remove: "keeps_wire (rs_h r) (rs_h (removeHeader k r))"
  by (simp add: removeHeader_def keeps_headers)

lemma keeps_status: "\<not> header_written h \<Longrightarrow> keeps_wire h (h\<lparr>status_code := c\<rparr>)"
  by (auto simp: keeps_wire_def wire_inv_def h_payloads_def)

lemma keeps_sendError: "keeps_wire (rs_h r) (rs_h (sendError c msg r))"
proof (cases "header_written (rs_h r)")
  case False
  from keeps_wire_trans [OF keeps_status [OF False, of c] keeps_wire_send [of _ msg False None]]
  show ?thesis by (auto simp: sendError_def split: prod.splits option.splits)
qed (simp add: sendError_def)

lemma keeps_rs_send: "rs_send d sm mt r = (e, r') \<Longrightarrow> keeps_wire (rs_h r) (rs_h r')"
  using keeps_wire_send [of "rs_h r" d sm mt] by (auto simp: rs_send_def split: prod.splits)

lemma keeps_flush_body: "flush_body r = (e, r') \<Longrightarrow> keeps_wire (rs_h r) (rs_h r')"
proof -
  assume fb: "flush_body r = (e, r')"
  show ?thesis
  proof (cases "get_metadata r")
    case (Inr mt)
    define r1 where "r1 = (if fin r \<and> 0 < length (buf r)
      then r\<lparr>rs_h := (rs_h r)\<lparr>hd_headers := od_set ''Content-Length'' (HInt (int (length (buf r)))) (hd_headers (rs_h r))\<rparr>\<rparr> else r)"
    define sm where "sm = (\<not> fin r1 \<or> header_written (rs_h r1))"
    define out where "out = (if 0 < length (buf r)
      then (case rs_send (buf r1) sm mt r1 of (None, r2) \<Rightarrow> (None, r2\<lparr>buf := []\<rparr>) | out \<Rightarrow> out) else rs_send [] sm mt r1)"
    obtain e2 r2 where o2: "out = (e2, r2)" by fastforce
    have k1: "keeps_wire (rs_h r) (rs_h r1)" by (simp add: r1_def keeps_headers)
    have k2: "keeps_wire (rs_h r1) (rs_h r2)"
      using o2 keeps_rs_send by (fastforce simp: out_def split: if_splits prod.splits option.splits)
    have "flush_body r = (case out of (Some e, r2) \<Rightarrow> (Some e, r2)
        | (None, r2) \<Rightarrow> if sm \<and> fin r2 then rs_send [] False mt r2 else (None, r2))"
      using Inr by (simp only: flush_body_def sum.case Let_def r1_def sm_def out_def)
    with fb o2 have "r' = r2 \<or> rs_send [] False mt r2 = (e, r')" by (auto split: option.splits if_splits)
    then have k3: "keeps_wire (rs_h r2) (rs_h r')" using keeps_rs_send by auto
    show ?thesis by (rule keeps_wire_trans [OF k1 keeps_wire_trans [OF k2 k3]])
  qed (use fb in \<open>simp add: flush_body_def\<close>)
qed

lemma keeps_flush: "keeps_wire (rs_h r) (rs_h (snd (flush r)))"
proof -
  obtain e r1 where fb: "flush_body r = (e, r1)" by fastforce
  from keeps_flush_body [OF fb] have k1: "keeps_wire (rs_h r) (rs_h r1)" .
  have "keeps_wire (rs_h r1) (rs_h (sendError 500 ''Internal server error'' (removeHeader ''Content-Type'' r1)))"
    by (rule keeps_wire_trans [OF keeps_remove keeps_sendError])
  from keeps_wire_trans [OF k1 this] k1 fb show ?thesis by (cases e) (auto simp: flush_def)
qed

lemma keeps_uses: "rs_uses r r' \<Longrightarrow> keeps_wire (rs_h r) (rs_h r')"
proof (induction rule: rs_uses.induct)
  case (uses_finish r r')
  then show ?case using keeps_wire_trans keeps_flush [of "r'\<lparr>fin := True\<rparr>"] by (fastforce simp: finish_def)
qed (auto intro: keeps_wire_trans keeps_headers keeps_status keeps_sendError keeps_flush
     simp: setHeader_def setExtraHeader_def removeHeader_def setStatusCode_def rs_truncate_def rs_clear_def clearHeaders_def rs_write_def)


section \<open>The QGIS handler\<close>

text \<open>QGIS uses the response it is given through the methods of \<open>QgsServerResponse\<close> only.\<close>

definition qgis_polite :: "qgis \<Rightarrow> bool" where
  "qgis_polite g \<longleftrightarrow> (\<forall>q p r. rs_uses r (snd (qg_handle g q p r))) \<and> (\<forall>msg c r. rs_uses r (qg_write_exception g msg c r))"

lemma handle_request_uses: "qgis_polite g \<Longrightarrow> handle_request g q p r s = ((e, r'), s') \<Longrightarrow> rs_uses r r'"
  unfolding qgis_polite_def handle_request_def by (metis Pair_inject snd_conv)

lemma finish_uses: "finish r = (e, r') \<Longrightarrow> rs_uses r r'"
  using uses_finish [OF uses_none, of r] by simp

lemma set_etag_uses: "set_etag_header g s l t q r = (x, r') \<Longrightarrow> rs_uses r r'"
  by (auto simp: set_etag_header_def split: option.splits intro: uses_none uses_extra)

lemma check_etag_uses: "check_etag_header g s hs l t q r = (x, r') \<Longrightarrow> rs_uses r r'"
  by (auto simp: check_etag_header_def split: prod.splits option.splits dest: set_etag_uses)

lemma project_block_uses:
  assumes "project_block w g scheme l hs q r rid s = (x, r', s')"
  shows "rs_uses r r'"
proof -
  obtain y s1 where y: "cache_lookup w l s = (y, s1)" by fastforce
  show ?thesis
  proof (cases y)
    case (Inr ps)
    obtain p st where ps: "ps = (p, st)" by (cases ps)
    obtain t s3 where t: "wk_modified_time w l True (if st \<noteq> Unchanged then remove_config (p_file p) s1 else s1) = (t, s3)"
      by fastforce
    show ?thesis
    proof (cases t)
      case (Inr tm)
      define r3 where "r3 = (let r1 = setExtraHeader ''X-Map-Id'' (HStr l) r;
          r2 = setExtraHeader ''Last-Modified'' (HStr (qg_iso_tz g tm)) r1
        in case rid of Some i \<Rightarrow> if i \<noteq> [] then setExtraHeader ''X-Request-Id'' (HStr i) r2 else r2 | None \<Rightarrow> r2)"
      have u3: "rs_uses r r3" by (auto simp: r3_def Let_def split: option.split intro!: uses_extra uses_none)
      obtain b r4 where b: "check_etag_header g s3 hs l tm q r3 = (b, r4)" by fastforce
      have u4: "rs_uses r r4" by (rule rs_uses_trans [OF check_etag_uses [OF b] u3])
      obtain e r5 where f: "finish (setStatusCode 304 r4) = (e, r5)" by fastforce
      have u5: "rs_uses r r5" by (rule rs_uses_trans [OF finish_uses [OF f] uses_status [OF u4]])
      have "r' \<in> {r3, r4, r5}"
        using assms y \<open>y = Inr ps\<close> ps t Inr b f
        by (auto simp: project_block_def Let_def r3_def split: if_splits bool.splits option.splits)
      with u3 u4 u5 show ?thesis by auto
    qed (use assms y Inr ps t in \<open>auto simp: project_block_def Let_def uses_none\<close>)
  qed (use assms y in \<open>auto simp: project_block_def uses_none\<close>)
qed

lemma qgis_request_uses:
  assumes "qgis_polite g" and "handle_qgis_request w g scheme loc hs q r rid s = ((e, r'), s')"
  shows "rs_uses r r'"
proof (cases "loc = None \<or> loc = Some []")
  case True
  with assms(2) have "handle_request g q None r s = ((e, r'), s')" by (auto simp: handle_qgis_request_def)
  then show ?thesis by (rule handle_request_uses [OF assms(1)])
next
  case False
  then obtain l where l: "loc = Some l" "l \<noteq> []" by auto
  obtain x r1 s1 where b: "project_block w g scheme l hs q r rid s = (x, r1, s1)" by (metis prod_cases3)
  note u1 = project_block_uses [OF b]
  show ?thesis
  proof (cases x)
    case (Inl er)
    with assms(2) l b have "r' = r1 \<or> (\<exists>c m. r' = sendError c m r1)"
      by (auto simp: handle_qgis_request_def split: option.splits)
    with u1 show ?thesis by (auto intro: uses_error)
  next
    case (Inr po)
    show ?thesis
    proof (cases po)
      case None
      with assms(2) l b Inr u1 show ?thesis by (simp add: handle_qgis_request_def)
    next
      case (Some p)
      with assms(2) l b Inr have "handle_request g q (Some p) r1 (s1\<lparr>wk_config_path := Some (p_file p)\<rparr>) = ((e, r'), s')"
        by (simp add: handle_qgis_request_def)
      from rs_uses_trans [OF handle_request_uses [OF assms(1) this] u1] show ?thesis .
    qed
  qed
qed

lemma message_body_uses:
  assumes "qgis_polite g" and "message_body w g scheme loc hs q r rid s = ((e, r'), s')"
  shows "rs_uses r r'"
proof (cases "scheme = Some ''OWS'' \<and> loc = None \<and> qg_parameter g q ''SERVICE'' \<noteq> []")
  case True
  with assms(2) have f: "finish (qg_write_exception g no_map_error 400 r) = (e, r')" by (simp add: message_body_def)
  have "rs_uses r (qg_write_exception g no_map_error 400 r)" using assms(1) unfolding qgis_polite_def by blast
  from rs_uses_trans [OF finish_uses [OF f] this] show ?thesis .
next
  case no_map: False
  show ?thesis
  proof (cases "scheme = Some ''OWS'' \<and> qr_method q = HeadMethod \<and> loc \<noteq> None")
    case True
    then obtain l where l: "loc = Some l" by auto
    obtain t s1 where t: "wk_modified_time w l False s = (t, s1)" by fastforce
    show ?thesis
    proof (cases t)
      case (Inr tm)
      obtain x r1 where x: "set_etag_header g s1 l tm q r = (x, r1)" by fastforce
      from assms(2) no_map True l t Inr x have "finish r1 = (e, r')" by (simp add: message_body_def)
      from rs_uses_trans [OF finish_uses [OF this] set_etag_uses [OF x]] show ?thesis .
    qed (use assms(2) no_map True l t in \<open>simp add: message_body_def uses_none\<close>)
  next
    case False
    with assms(2) no_map have "handle_qgis_request w g scheme loc hs q r rid s = ((e, r'), s')"
      by (cases loc) (auto simp: message_body_def split: bool.splits)
    then show ?thesis by (rule qgis_request_uses [OF assms(1)])
  qed
qed

lemma debug_request_uses:
  assumes "\<And>s e r' s'. body s = ((e, r'), s') \<Longrightarrow> rs_uses r r'" and "debug_request d body s = ((e, r'), s')"
  shows "rs_uses r r'"
  using assms by (auto simp: debug_request_def split: if_splits prod.splits)

lemma handle_message_keeps:
  assumes "qgis_polite g"
  shows "keeps_wire h (snd (fst (handle_message w g mf rq s h)))"
proof (cases "make_request rq")
  case (Inr q)
  obtain e r' s' where d: "debug_request (od_get (rq_headers rq) ''X-Debug-Id'')
      (message_body w g (od_get (rq_headers rq) ''X-Ogc-Scheme'') (request_location s (rq_headers rq))
         (other_headers (rq_headers rq)) q (response_init h mf) (od_get (rq_headers rq) ''X-Request-Id'')) s = ((e, r'), s')"
    by (metis prod.exhaust)
  from debug_request_uses [OF message_body_uses [OF assms] d] have "rs_uses (response_init h mf) r'" .
  from keeps_uses [OF this] Inr d show ?thesis by (simp add: handle_message_def response_init_def)
qed (simp add: handle_message_def)

text \<open>
  The QGIS handler of a worker and its callback. Each turn of the loop meets an outside world: the
  project stores, the outcome of the metadata function, and the clock before and after a refresh.
\<close>

record turn_env =
  te_env :: env
  te_meta :: "meta result option"
  te_now :: int
  te_later :: int

definition qgis_handler ::
  "qgis \<Rightarrow> turn_env \<Rightarrow> request_message \<Rightarrow> worker \<Rightarrow> zhandler \<Rightarrow> zhandler outcome \<times> worker" where
  "qgis_handler g e rq s h = handle_message (te_env e) g (te_meta e) rq s h"

definition qgis_callback :: "turn_env \<Rightarrow> bool \<Rightarrow> worker \<Rightarrow> worker" where
  "qgis_callback e idle s = snd (post_process (te_env e) (te_now e) (te_later e) idle s)"

lemma qgis_handler_keeps: "qgis_polite g \<Longrightarrow> message_handler (qgis_handler g)"
  by unfold_locales (simp add: qgis_handler_def handle_message_keeps)

lemma idle_qgis_polite: "qgis_polite idle_qgis"
  by (auto simp: qgis_polite_def idle_qgis_def intro!: uses_finish uses_write uses_status uses_none)

end
