(* ===== verification/Network.thy ===== *)
theory Network
  imports Discipline
begin

text \<open>
  The clients, the broker and the workers together: \<open>zeromq/client.py\<close>, \<open>zeromq/broker.py\<close> and
  \<open>zeromq/worker.py\<close> exchanging messages. What a component does with a message is its own model
  (\<open>Client\<close>, \<open>Broker\<close>, \<open>Worker\<close>); this theory says which message it gets and where its
  messages go. A link carries the messages of all peers; those of one peer arrive in order and at
  most once, any of them may be lost, and nothing is made up, which is what ZMQ documents of its
  sockets. Which peer is heard next, and every loss, is an event. A worker that is killed or crashes
  is one that has no turn any more, and what it had not sent yet is lost.
\<close>

section \<open>Links\<close>

text \<open>The first message of a peer.\<close>

fun peer_deq :: "'p \<Rightarrow> ('p \<times> 'a) list \<Rightarrow> ('a \<times> ('p \<times> 'a) list) option" where
  "peer_deq p [] = None"
| "peer_deq p ((p', x) # q) = (if p' = p then Some (x, q)
     else (case peer_deq p q of None \<Rightarrow> None | Some (y, r) \<Rightarrow> Some (y, (p', x) # r)))"

definition hear :: "'p option \<Rightarrow> ('p \<times> 'a) list \<Rightarrow> ('p \<times> 'a) option \<times> ('p \<times> 'a) list" where
  "hear po q = (case po of None \<Rightarrow> (None, q)
     | Some p \<Rightarrow> (case peer_deq p q of None \<Rightarrow> (None, q) | Some (x, r) \<Rightarrow> (Some (p, x), r)))"

lemma peer_deq_Some:
  assumes "peer_deq p q = Some (x, r)"
  obtains a b where "q = a @ (p, x) # b" "r = a @ b" "p \<notin> fst ` set a"
  using assms
proof (induction q arbitrary: r thesis)
  case (Cons y q)
  obtain p' z where y: "y = (p', z)" by (cases y)
  show ?case
  proof (cases "p' = p")
    case True
    with Cons.prems y show ?thesis by (intro Cons.prems(1) [of "[]" q]) auto
  next
    case False
    with Cons.prems(2) y obtain r' where r': "peer_deq p q = Some (x, r')" "r = y # r'"
      by (auto split: option.splits prod.splits)
    show ?thesis
    proof (rule Cons.IH [OF _ r'(1)])
      fix a b assume "q = a @ (p, x) # b" "r' = a @ b" "p \<notin> fst ` set a"
      with r'(2) y False show ?thesis by (intro Cons.prems(1) [of "y # a" b]) auto
    qed
  qed
qed simp

lemma peer_deq_first: "p \<notin> fst ` set a \<Longrightarrow> peer_deq p (a @ (p, x) # b) = Some (x, a @ b)"
  by (induction a) auto

lemma hear_cases:
  obtains (silent) "hear po q = (None, q)"
  | (heard) p x a b where "hear po q = (Some (p, x), a @ b)" "q = a @ (p, x) # b" "p \<notin> fst ` set a"
proof (cases "\<exists>p x r. po = Some p \<and> peer_deq p q = Some (x, r)")
  case True
  then obtain p x r where p: "po = Some p" "peer_deq p q = Some (x, r)" by auto
  from p(2) obtain a b where "q = a @ (p, x) # b" "r = a @ b" "p \<notin> fst ` set a" by (rule peer_deq_Some)
  with p show ?thesis by (intro heard) (auto simp: hear_def)
next
  case False
  then have "hear po q = (None, q)" by (auto simp: hear_def split: option.splits)
  then show ?thesis by (rule silent)
qed

section \<open>State\<close>

text \<open>What \<open>pickle\<close> does with the objects that travel; an object that does not load is \<open>None\<close>.\<close>

record pickle =
  dump_request :: "request_message \<Rightarrow> frame"
  load_request :: "frame \<Rightarrow> request_message option"
  dump :: "payload \<Rightarrow> frame"
  load :: "frame \<Rightarrow> payload option"

definition pickle_ok :: "pickle \<Rightarrow> bool" where
  "pickle_ok pk \<longleftrightarrow> (\<forall>r. load_request pk (dump_request pk r) = Some r) \<and> (\<forall>p. load pk (dump pk p) = Some p)"

record ('e, 's) net_conf =
  nc_pickle :: pickle
  nc_maxqueue :: nat
  nc_timeout :: rat
  nc_handler :: "'e \<Rightarrow> request_message \<Rightarrow> 's \<Rightarrow> zhandler \<Rightarrow> zhandler outcome \<times> 's"
  nc_post :: "'e \<Rightarrow> bool \<Rightarrow> 's \<Rightarrow> 's"

text \<open>
  The last five fields are a record of what happened: the requests sent, those a worker handled
  with the messages it wrote, those the broker refused, the message bodies each client read, and
  the chunks it handed on.
\<close>

type_synonym call = "frame \<times> frame"

record 's net =
  clients :: "frame \<Rightarrow> client option"
  the_broker :: broker
  live_workers :: "frame \<Rightarrow> (sup_client \<times> 's) option"
  to_broker :: "(frame \<times> frame \<times> frame) list"
  to_worker :: "(frame \<times> frame \<times> frame \<times> frame) list"
  from_worker :: "(frame \<times> frame list) list"
  to_client :: "(frame \<times> frame list) list"
  requested :: "(call \<times> request_message) list"
  served :: "(frame \<times> call \<times> request_message \<times> payload list) list"
  refused :: "call list"
  got :: "(call \<times> frame) list"
  yielded :: "(call \<times> string \<times> bool) list"

definition net_init :: "'s net" where
  "net_init = \<lparr>clients = (\<lambda>_. None), the_broker = \<lparr>workers = [], waiting = []\<rparr>, live_workers = (\<lambda>_. None),
     to_broker = [], to_worker = [], from_worker = [], to_client = [],
     requested = [], served = [], refused = [], got = [], yielded = []\<rparr>"

section \<open>Events\<close>

datatype wait_outcome = Message | Silence | SocketFault

datatype link = ToBroker | ToWorker | FromWorker | ToClient

datatype ('e, 's, 'd) net_event =
    ClientStarts frame
  | WorkerStarts frame sup_client 's
  | Fetch frame frame request_message bool
  | BrokerPolls "frame option" "frame option" poll_input
  | WorkerTurns frame wait_outcome 'e bool bool "'d worker_input"
  | ClientReads frame
  | ClientResumes frame frame
  | ClientNext frame frame
  | ClientStops frame
  | Lost link frame

text \<open>
  \<open>fetch\<close>: the request goes out as the frames id and pickled request under an id that was never
  used before; \<open>sent_ok\<close> says whether the socket takes it.
\<close>

definition net_fetch :: "('e, 's) net_conf \<Rightarrow> frame \<Rightarrow> frame \<Rightarrow> request_message \<Rightarrow> bool \<Rightarrow> 's net \<Rightarrow> 's net" where
  "net_fetch cf k m rq ok s =
     (case clients s k of
        None \<Rightarrow> s
      | Some c \<Rightarrow>
          if (k, m) \<in> fst ` set (requested s) then s
          else (case fetch_send ok m c of
              (Inl e, c1) \<Rightarrow> s\<lparr>clients := (clients s)(k \<mapsto> c1)\<rparr>
            | (Inr _, c1) \<Rightarrow> s\<lparr>clients := (clients s)(k \<mapsto> c1),
                 to_broker := to_broker s @ [(k, m, dump_request (nc_pickle cf) rq)],
                 requested := requested s @ [((k, m), rq)]\<rparr>))"

text \<open>Where the actions of the broker go: a \<open>ROUTER\<close> takes the first frame as the address.\<close>

fun out_client :: "action \<Rightarrow> (frame \<times> frame list) list" where
  "out_client (Reply (k # fr) True) = [(k, fr)]"
| "out_client (Busy (k # fr) True) = [(k, fr)]"
| "out_client _ = []"

fun out_worker :: "action \<Rightarrow> (frame \<times> frame \<times> frame \<times> frame) list" where
  "out_worker (Dispatch w (t, k, m, d)) = [(w, k, m, d)]"
| "out_worker _ = []"

fun out_refused :: "action \<Rightarrow> call list" where
  "out_refused (Busy (k # m # fr) ok) = [(k, m)]"
| "out_refused _ = []"

definition net_poll :: "('e, 's) net_conf \<Rightarrow> frame option \<Rightarrow> frame option \<Rightarrow> poll_input \<Rightarrow> 's net \<Rightarrow> 's net" where
  "net_poll cf wo ko inp s =
     (let (bm, fw) = hear wo (from_worker s);
          (fm, tb) = hear ko (to_broker s);
          (b, acts) = broker_iter (nc_maxqueue cf) (nc_timeout cf / 1000) (the_broker s)
            (inp\<lparr>backend_msg := map_option (\<lambda>(w, fr). w # fr) bm,
                 frontend_msg := map_option (\<lambda>(k, m, d). [k, m, d]) fm\<rparr>)
      in s\<lparr>the_broker := b, from_worker := fw, to_broker := tb,
           to_client := to_client s @ concat (map out_client acts),
           to_worker := to_worker s @ concat (map out_worker acts),
           refused := refused s @ concat (map out_refused acts)\<rparr>)"

text \<open>The frames a turn of a worker puts on its socket.\<close>

fun out_frames :: "pickle \<Rightarrow> 'd waction \<Rightarrow> frame list list" where
  "out_frames pk SendReady = [[WORKER_READY]]"
| "out_frames pk (Wire xs) = map (\<lambda>(k, m, p). [k, m, dump pk p]) xs"
| "out_frames pk _ = []"

fun out_payloads :: "'d waction \<Rightarrow> payload list" where
  "out_payloads (Wire xs) = map (\<lambda>x. snd (snd x)) xs"
| "out_payloads _ = []"

text \<open>
  One turn of a worker. \<open>get()\<close> takes the next message of the worker's link, times out or fails;
  a request that does not load is an exception. A worker that leaves its loop closes its socket.
\<close>

definition take_request :: "pickle \<Rightarrow> frame \<Rightarrow> wait_outcome \<Rightarrow> 's net \<Rightarrow> recv \<times> (frame \<times> frame \<times> frame \<times> frame) list" where
  "take_request pk w oc s =
     (case oc of
        Silence \<Rightarrow> (Again, to_worker s)
      | SocketFault \<Rightarrow> (ZmqErr, to_worker s)
      | Message \<Rightarrow>
          (case peer_deq w (to_worker s) of
             None \<Rightarrow> (Again, to_worker s)
           | Some ((k, m, d), q) \<Rightarrow>
               (case load_request pk d of None \<Rightarrow> (RecvExn, q) | Some rq \<Rightarrow> (Request k m rq, q))))"

definition net_turn ::
  "('e, 's) net_conf \<Rightarrow> frame \<Rightarrow> wait_outcome \<Rightarrow> 'e \<Rightarrow> bool \<Rightarrow> bool \<Rightarrow> 'd worker_input \<Rightarrow> 's net \<Rightarrow> 's net" where
  "net_turn cf w oc e br po inp s =
     (case live_workers s w of
        None \<Rightarrow> s
      | Some (sc, st) \<Rightarrow>
          (let (r, q) = take_request (nc_pickle cf) w oc s;
               i = inp\<lparr>received := r, handle := (\<lambda>rq h. fst (nc_handler cf e rq st h))\<rparr>;
               (go, sc1, acts) = worker_turn br po sc i;
               st1 = (case r of Request k m rq \<Rightarrow> snd (nc_handler cf e rq st (zhandler_init k m (socket_up i))) | _ \<Rightarrow> st);
               st2 = (if go \<and> po then nc_post cf e (r = Again) st1 else st1);
               ps = concat (map out_payloads acts)
           in s\<lparr>live_workers := (live_workers s)(w := if go then Some (sc1, st2) else None),
                to_worker := (if go then q else filter (\<lambda>x. fst x \<noteq> w) q),
                from_worker := from_worker s @ map (Pair w) (concat (map (out_frames (nc_pickle cf)) acts)),
                served := served s @ (case r of Request k m rq \<Rightarrow> [(w, (k, m), rq, ps)] | _ \<Rightarrow> [])\<rparr>))"

text \<open>A message body as the client sees it: the \<open>ERR\<close> test comes before the unpickling.\<close>

definition wire_of :: "pickle \<Rightarrow> frame \<Rightarrow> frame list \<Rightarrow> wire" where
  "wire_of pk d rest = (if rest \<noteq> [] \<and> d = ''ERR'' then Raw d
     else (case load pk d of None \<Rightarrow> Raw d | Some p \<Rightarrow> Pickled p))"

definition net_read :: "('e, 's) net_conf \<Rightarrow> frame \<Rightarrow> 's net \<Rightarrow> 's net" where
  "net_read cf k s =
     (case (clients s k, peer_deq k (to_client s)) of
        (Some c, Some (m # d # rest, q)) \<Rightarrow>
          s\<lparr>clients := (clients s)(k \<mapsto> client_recv m (wire_of (nc_pickle cf) d rest) rest c), to_client := q,
            got := (if rest = [] then got s @ [((k, m), d)] else got s)\<rparr>
      | (Some c, Some (fr, q)) \<Rightarrow> s\<lparr>to_client := q\<rparr>
      | _ \<Rightarrow> s)"

definition net_next :: "frame \<Rightarrow> frame \<Rightarrow> 's net \<Rightarrow> 's net" where
  "net_next k m s =
     (case clients s k of
        None \<Rightarrow> s
      | Some c \<Rightarrow>
          (case next_chunk m c of
             (Inl e, c1) \<Rightarrow> s\<lparr>clients := (clients s)(k \<mapsto> c1)\<rparr>
           | (Inr x, c1) \<Rightarrow> s\<lparr>clients := (clients s)(k \<mapsto> c1), yielded := yielded s @ [((k, m), x)]\<rparr>))"

fun net_lose :: "link \<Rightarrow> frame \<Rightarrow> 's net \<Rightarrow> 's net" where
  "net_lose ToBroker p s = s\<lparr>to_broker := snd (hear (Some p) (to_broker s))\<rparr>"
| "net_lose ToWorker p s = s\<lparr>to_worker := snd (hear (Some p) (to_worker s))\<rparr>"
| "net_lose FromWorker p s = s\<lparr>from_worker := snd (hear (Some p) (from_worker s))\<rparr>"
| "net_lose ToClient p s = s\<lparr>to_client := snd (hear (Some p) (to_client s))\<rparr>"

fun net_step :: "('e, 's) net_conf \<Rightarrow> 's net \<Rightarrow> ('e, 's, 'd) net_event \<Rightarrow> 's net" where
  "net_step cf s (ClientStarts k) = (if clients s k = None then s\<lparr>clients := (clients s)(k \<mapsto> client_init)\<rparr> else s)"
| "net_step cf s (WorkerStarts w sc st) =
     (if live_workers s w = None then s\<lparr>live_workers := (live_workers s)(w \<mapsto> (sc, st))\<rparr> else s)"
| "net_step cf s (Fetch k m rq ok) = net_fetch cf k m rq ok s"
| "net_step cf s (BrokerPolls wo ko inp) = net_poll cf wo ko inp s"
| "net_step cf s (WorkerTurns w oc e br po inp) = net_turn cf w oc e br po inp s"
| "net_step cf s (ClientReads k) = net_read cf k s"
| "net_step cf s (ClientResumes k m) = (case clients s k of None \<Rightarrow> s
     | Some c \<Rightarrow> s\<lparr>clients := (clients s)(k \<mapsto> snd (fetch_resume m c))\<rparr>)"
| "net_step cf s (ClientNext k m) = net_next k m s"
| "net_step cf s (ClientStops k) = (case clients s k of None \<Rightarrow> s
     | Some c \<Rightarrow> s\<lparr>clients := (clients s)(k \<mapsto> terminate_client c)\<rparr>)"
| "net_step cf s (Lost l p) = net_lose l p s"

definition net_run :: "('e, 's) net_conf \<Rightarrow> ('e, 's, 'd) net_event list \<Rightarrow> 's net" where
  "net_run cf evs = foldl (net_step cf) net_init evs"

end
