(* ===== verification/NetworkInv.thy ===== *)
theory NetworkInv
  imports Network
begin

text \<open>
  Invariants of the network of \<open>Network\<close>, for every handler that keeps the contract of
  \<open>Discipline\<close> and every order of events: where each request can be, which messages can be under
  way for it, and what a response handler of the client can hold.
\<close>

section \<open>What one iteration of the broker puts out\<close>

fun of_dispatch :: "action \<Rightarrow> bool" where
  "of_dispatch (Dispatch w e) = True"
| "of_dispatch (SendFailed w e) = True"
| "of_dispatch (Drop e) = True"
| "of_dispatch a = False"

lemma of_dispatch_outs: "of_dispatch a \<Longrightarrow> out_client a = []" "of_dispatch a \<Longrightarrow> out_refused a = []"
  by (cases a; simp)+

lemma send_request_kinds: "send_request pk ok e ws q = (ws2, q2, acts) \<Longrightarrow> list_all of_dispatch acts"
proof (cases "ws = []")
  case False
  assume "send_request pk ok e ws q = (ws2, q2, acts)"
  from this False show ?thesis by (cases rule: send_request_cases) (simp_all add: list_all_iff)
qed simp

lemma dispatch_kinds: "dispatch pk ok timeout now ws q = (ws2, q2, acts) \<Longrightarrow> list_all of_dispatch acts"
proof (induction pk ok timeout now ws q arbitrary: ws2 q2 acts rule: dispatch.induct)
  case (1 pk ok timeout now ws q)
  show ?case
  proof (cases "ws = [] \<or> q = []")
    case True
    with "1.prems" show ?thesis
      by (auto simp: dispatch.simps [of pk ok timeout now ws q] dq_pop_def split: if_splits)
  next
    case False
    then have ne: "ws \<noteq> []" and qne: "q \<noteq> []" by auto
    from dq.deq_nonempty [of q] qne obtain e r where pop: "dq_pop q = Inr (e, r)" by auto
    show ?thesis
    proof (cases "now - fst e > timeout")
      case True
      obtain acts' where d: "dispatch pk ok timeout now ws r = (ws2, q2, acts')" "acts = Drop e # acts'"
        using "1.prems" pop True ne
        by (auto simp: dispatch.simps [of pk ok timeout now ws q] Let_def split: prod.splits)
      with "1.IH"(1) [OF ne pop refl True d(1)] show ?thesis by simp
    next
      case fresh: False
      obtain ws1 q1 acts1 where s: "send_request pk ok e ws r = (ws1, q1, acts1)"
        by (cases "send_request pk ok e ws r") auto
      obtain acts2 where d: "dispatch pk ok timeout now ws1 q1 = (ws2, q2, acts2)" "acts = acts1 @ acts2"
        using "1.prems" pop fresh ne s
        by (auto simp: dispatch.simps [of pk ok timeout now ws q] Let_def split: prod.splits)
      from "1.IH"(2) [OF ne pop refl fresh s [symmetric] refl refl d(1)] d(2) send_request_kinds [OF s]
      show ?thesis by simp
    qed
  qed
qed

lemma dispatch_outs:
  assumes "dispatch pk ok timeout now ws q = (ws2, q2, acts)"
  shows "concat (map out_client acts) = []" and "concat (map out_refused acts) = []"
  using dispatch_kinds [OF assms] by (induction acts) (simp_all add: of_dispatch_outs)

lemma dispatched_settled: "mset (map snd (concat (map out_worker acts))) \<subseteq># mset (map snd (settled acts))"
proof (induction acts rule: settled.induct)
  case (2 e as)
  then have "mset (map snd (concat (map out_worker as))) \<subseteq># add_mset (snd e) (mset (map snd (settled as)))"
    by (rule subset_mset.order_trans) simp
  then show ?case by simp
next
  case (3 w e as)
  then show ?case by (cases e) auto
qed auto

definition front_call :: "(frame \<times> frame \<times> frame) option \<Rightarrow> (frame \<times> frame \<times> frame) multiset" where
  "front_call fm = (case fm of None \<Rightarrow> {#} | Some x \<Rightarrow> {#x#})"

text \<open>Calls: what waits and what is dispatched comes from what waited and the call that came in.\<close>

lemma poll_calls:
  assumes "broker_iter mq tmo b i = (b', acts)"
    and "frontend_msg i = map_option (\<lambda>(k, m, d). [k, m, d]) fm"
  shows "(concat (map out_refused acts) = []
      \<and> mset (map snd (waiting b')) + mset (map snd (concat (map out_worker acts))) \<subseteq># mset (map snd (waiting b)) + front_call fm)
    \<or> (\<exists>k m d. fm = Some (k, m, d) \<and> concat (map out_refused acts) = [(k, m)]
      \<and> mset (map snd (waiting b')) + mset (map snd (concat (map out_worker acts))) \<subseteq># mset (map snd (waiting b)))"
  using assms(1)
proof (rule broker_iter_cases)
  fix b1 a1 b2 a2 a3
  assume 1: "(case backend_msg i of None \<Rightarrow> (b, []) | Some fr \<Rightarrow> handle_backend fr (reply_ok i) b) = (b1, a1)"
    and 2: "(case frontend_msg i of None \<Rightarrow> (b1, [])
      | Some fr \<Rightarrow> handle_frontend mq fr (recv_time i) (busy_ok i) b1) = (b2, a2)"
    and 3: "dispatch (pick i) (worker_ok i) tmo (now_time i) (workers b2) (waiting b2) = (workers b', waiting b', a3)"
    and acts: "acts = a1 @ a2 @ a3"
  have b1: "waiting b1 = waiting b" "concat (map out_worker a1) = []" "concat (map out_refused a1) = []"
    using 1 by (auto simp: handle_backend_def split: option.splits list.splits if_splits)
  have w2: "concat (map out_worker a2) = []"
    using 2 by (auto simp: handle_frontend_def split: option.splits list.splits if_splits)
  have "rev (waiting b2) = settled a3 @ rev (waiting b')" using dispatch_spec [OF 3] by blast
  then have "mset (waiting b2) = mset (settled a3) + mset (waiting b')" by (metis mset_append mset_rev)
  then have "mset (map snd (waiting b2)) = mset (map snd (settled a3)) + mset (map snd (waiting b'))" by simp
  with dispatched_settled [of a3]
  have rest: "mset (map snd (waiting b')) + mset (map snd (concat (map out_worker a3))) \<subseteq># mset (map snd (waiting b2))"
    by (simp add: add.commute)
  have outs: "concat (map out_refused acts) = concat (map out_refused a2)"
    "concat (map out_worker acts) = concat (map out_worker a3)"
    by (simp_all only: acts b1 w2 dispatch_outs [OF 3] map_append concat_append append_Nil append_Nil2)
  show ?thesis
  proof (cases fm)
    case None
    with 2 assms(2) have "waiting b2 = waiting b" "a2 = []" using b1 by auto
    with rest outs None show ?thesis by (simp add: front_call_def)
  next
    case (Some x)
    obtain k m d where x: "x = (k, m, d)" by (metis prod_cases3)
    from 2 assms(2) Some x have f: "handle_frontend mq [k, m, d] (recv_time i) (busy_ok i) b1 = (b2, a2)" by simp
    show ?thesis
    proof (cases "length (waiting b1) \<ge> mq")
      case True
      with f have "b2 = b1" "concat (map out_refused a2) = [(k, m)]" by (auto simp: handle_frontend_def)
      with rest outs b1 Some x show ?thesis by simp
    next
      case False
      with f have "waiting b2 = (recv_time i, k, m, d) # waiting b1" "concat (map out_refused a2) = []"
        by (auto simp: handle_frontend_def dq_appendleft_def)
      with rest outs b1 Some x show ?thesis by (simp add: front_call_def)
    qed
  qed
qed

text \<open>Messages: at most the reply that came in, to its client, then a refusal.\<close>

lemma poll_replies:
  assumes "broker_iter mq tmo b i = (b', acts)"
    and "backend_msg i = map_option (\<lambda>(w, fr). w # fr) bm"
  obtains rp bz where "concat (map out_client acts) = rp @ bz"
    and "rp = [] \<or> (\<exists>w k m d. bm = Some (w, [k, m, d]) \<and> rp = [(k, [m, d])])"
    and "bz = [] \<or> (\<exists>k m. (k, m) \<in> set (concat (map out_refused acts)) \<and> bz = [(k, [m, ''ERR'', ''509''])])"
  using assms(1)
proof (rule broker_iter_cases)
  fix b1 a1 b2 a2 a3
  assume 1: "(case backend_msg i of None \<Rightarrow> (b, []) | Some fr \<Rightarrow> handle_backend fr (reply_ok i) b) = (b1, a1)"
    and 2: "(case frontend_msg i of None \<Rightarrow> (b1, [])
      | Some fr \<Rightarrow> handle_frontend mq fr (recv_time i) (busy_ok i) b1) = (b2, a2)"
    and 3: "dispatch (pick i) (worker_ok i) tmo (now_time i) (workers b2) (waiting b2) = (workers b', waiting b', a3)"
    and acts: "acts = a1 @ a2 @ a3"
  have r1: "concat (map out_client a1) = [] \<or> (\<exists>w k m d. bm = Some (w, [k, m, d]) \<and> concat (map out_client a1) = [(k, [m, d])])"
  proof (cases bm)
    case None
    with 1 assms(2) show ?thesis by simp
  next
    case (Some x)
    obtain w fr where "x = (w, fr)" by fastforce
    with 1 assms(2) Some show ?thesis
      by (cases "reply_ok i") (auto simp: handle_backend_def split: list.splits if_splits)
  qed
  have r2: "concat (map out_client a2) = []
      \<or> (\<exists>k m. (k, m) \<in> set (concat (map out_refused acts)) \<and> concat (map out_client a2) = [(k, [m, ''ERR'', ''509''])])"
    using 2 acts by (cases "busy_ok i") (auto simp: handle_frontend_def split: option.splits list.splits if_splits)
  show ?thesis
    by (rule that [of "concat (map out_client a1)" "concat (map out_client a2)"]) (use acts dispatch_outs [OF 3] r1 r2 in auto)
qed

section \<open>Calls\<close>

text \<open>Where a call can be: on its way to the broker, waiting, on its way to a worker, served or refused.\<close>

fun call_of :: "frame \<times> frame \<times> frame \<Rightarrow> call" where
  "call_of (k, m, d) = (k, m)"

definition served_calls :: "'s net \<Rightarrow> call list" where
  "served_calls s = map (\<lambda>x. fst (snd x)) (served s)"

definition places :: "'s net \<Rightarrow> call multiset" where
  "places s = image_mset call_of (mset (to_broker s) + mset (map snd (waiting (the_broker s))) + mset (map snd (to_worker s)))
     + mset (served_calls s) + mset (refused s)"

definition asked :: "pickle \<Rightarrow> 's net \<Rightarrow> frame \<times> frame \<times> frame \<Rightarrow> bool" where
  "asked pk s x = (\<exists>rq. (call_of x, rq) \<in> set (requested s) \<and> snd (snd x) = dump_request pk rq)"

definition calls_inv :: "pickle \<Rightarrow> 's net \<Rightarrow> bool" where
  "calls_inv pk s \<longleftrightarrow> distinct (map fst (requested s))
     \<and> places s \<subseteq># mset (map fst (requested s))
     \<and> (\<forall>x \<in># mset (to_broker s) + mset (map snd (waiting (the_broker s))) + mset (map snd (to_worker s)). asked pk s x)
     \<and> (\<forall>x \<in> set (served s). (fst (snd x), fst (snd (snd x))) \<in> set (requested s))"

text \<open>A call is at one place at most.\<close>

lemma one_place: "calls_inv pk s \<Longrightarrow> count (places s) c \<le> 1"
proof -
  assume inv: "calls_inv pk s"
  have "count (places s) c \<le> count (mset (map fst (requested s))) c"
    using inv unfolding calls_inv_def by (meson mset_subset_eq_count)
  also have "\<dots> \<le> 1" using inv unfolding calls_inv_def by (metis distinct_count_atmost_1 le_refl zero_le_one)
  finally show ?thesis .
qed

lemma served_once:
  assumes "calls_inv pk s" and "(w, c, rq, ps) \<in> set (served s)" and "(w', c, rq', ps') \<in> set (served s)"
  shows "(w', c, rq', ps') = (w, c, rq, ps)"
proof (rule ccontr)
  assume ne: "(w', c, rq', ps') \<noteq> (w, c, rq, ps)"
  obtain as bs where ab: "served s = as @ (w, c, rq, ps) # bs" using split_list [OF assms(2)] by blast
  with assms(3) ne have "(w', c, rq', ps') \<in> set (as @ bs)" by auto
  then obtain xs ys where xy: "as @ bs = xs @ (w', c, rq', ps') # ys" by (meson split_list)
  have "mset (served_calls s) = add_mset c (mset (map (\<lambda>x. fst (snd x)) (as @ bs)))" by (simp add: served_calls_def ab)
  also have "\<dots> = add_mset c (add_mset c (mset (map (\<lambda>x. fst (snd x)) (xs @ ys))))" by (simp only: xy) simp
  finally have "2 \<le> count (places s) c" by (simp add: places_def)
  with one_place [OF assms(1), of c] show False by simp
qed

lemma count_ge_1: "x \<in> set xs \<Longrightarrow> 1 \<le> count (mset xs) x"
  by (metis count_greater_eq_one_iff set_mset_mset)

lemma refused_not_served:
  assumes "calls_inv pk s" and "c \<in> set (refused s)"
  shows "c \<notin> set (served_calls s)"
proof
  assume "c \<in> set (served_calls s)"
  from count_ge_1 [OF this] count_ge_1 [OF assms(2)] have "2 \<le> count (places s) c"
    unfolding places_def image_mset_union count_union by linarith
  with one_place [OF assms(1), of c] show False by simp
qed

lemma pending_not_served:
  assumes "calls_inv pk s" and "(w, k, m, d) \<in> set (to_worker s)"
  shows "(k, m) \<notin> set (served_calls s)"
proof
  assume "(k, m) \<in> set (served_calls s)"
  from count_ge_1 [OF this] have "1 \<le> count (mset (served_calls s)) (k, m)" .
  moreover have "(k, m) \<in> set (map call_of (map snd (to_worker s)))" using assms(2) by force
  from count_ge_1 [OF this] have "1 \<le> count (image_mset call_of (mset (map snd (to_worker s)))) (k, m)"
    by (simp only: mset_map)
  ultimately have "2 \<le> count (places s) (k, m)" unfolding places_def image_mset_union count_union by linarith
  with one_place [OF assms(1), of "(k, m)"] show False by simp
qed

text \<open>Removing calls keeps the invariant, and so does moving them about.\<close>

lemma calls_invI:
  assumes "calls_inv pk s" and "places s' \<subseteq># places s"
    and "mset (to_broker s') + mset (map snd (waiting (the_broker s'))) + mset (map snd (to_worker s'))
      \<subseteq># mset (to_broker s) + mset (map snd (waiting (the_broker s))) + mset (map snd (to_worker s))"
    and "requested s' = requested s"
    and "\<And>x. x \<in> set (served s') \<Longrightarrow> x \<in> set (served s) \<or> (fst (snd x), fst (snd (snd x))) \<in> set (requested s)"
  shows "calls_inv pk s'"
proof -
  have "asked pk s' x = asked pk s x" for x by (simp add: asked_def assms(4))
  moreover have "places s' \<subseteq># mset (map fst (requested s))"
    using assms(1,2) subset_mset.order_trans unfolding calls_inv_def by blast
  ultimately show ?thesis
    using assms(1,4,5) set_mset_mono [OF assms(3)] unfolding calls_inv_def by (simp only:) blast
qed

lemma calls_inv_mono:
  assumes "calls_inv pk s"
    and "mset (to_broker s') + mset (map snd (waiting (the_broker s'))) + mset (map snd (to_worker s'))
      \<subseteq># mset (to_broker s) + mset (map snd (waiting (the_broker s))) + mset (map snd (to_worker s))"
    and "requested s' = requested s" "served s' = served s" "refused s' = refused s"
  shows "calls_inv pk s'"
proof (rule calls_invI [OF assms(1) _ assms(2,3)])
  show "places s' \<subseteq># places s"
    unfolding places_def served_calls_def assms(4,5) by (intro subset_mset.add_right_mono image_mset_subseteq_mono assms(2))
qed (use assms(4) in auto)

lemma mset_middle: "q = a @ x # b \<Longrightarrow> mset q = add_mset x (mset (a @ b))"
  by simp

lemma hear_mset: "hear po q = (x, r) \<Longrightarrow> mset q = mset r + (case x of None \<Rightarrow> {#} | Some y \<Rightarrow> {#y#})"
  by (rule hear_cases [of po q]) auto

lemma calls_inv_poll:
  assumes "calls_inv pk s"
  shows "calls_inv pk (net_poll cf wo ko inp s)"
proof -
  obtain bm fw where h1: "hear wo (from_worker s) = (bm, fw)" by fastforce
  obtain fm tb where h2: "hear ko (to_broker s) = (fm, tb)" by fastforce
  define i where "i = inp\<lparr>backend_msg := map_option (\<lambda>(w, fr). w # fr) bm,
       frontend_msg := map_option (\<lambda>(k, m, d). [k, m, d]) fm\<rparr>"
  obtain b acts where it: "broker_iter (nc_maxqueue cf) (nc_timeout cf / 1000) (the_broker s) i = (b, acts)" by fastforce
  define s' where "s' = net_poll cf wo ko inp s"
  have s': "the_broker s' = b" "to_broker s' = tb" "to_worker s' = to_worker s @ concat (map out_worker acts)"
    "refused s' = refused s @ concat (map out_refused acts)" "requested s' = requested s" "served s' = served s"
    using h1 h2 it by (simp_all add: s'_def net_poll_def i_def)
  let ?Q = "mset (to_broker s) + mset (map snd (waiting (the_broker s))) + mset (map snd (to_worker s))"
  let ?Q' = "mset (to_broker s') + mset (map snd (waiting (the_broker s'))) + mset (map snd (to_worker s'))"
  have fm: "frontend_msg i = map_option (\<lambda>(k, m, d). [k, m, d]) fm" by (simp add: i_def)
  have tb: "mset (to_broker s) = mset tb + front_call fm" using hear_mset [OF h2] by (simp add: front_call_def)
  from poll_calls [OF it fm] show ?thesis
  proof (elim disjE conjE exE)
    assume no: "concat (map out_refused acts) = []"
      and sub: "mset (map snd (waiting b)) + mset (map snd (concat (map out_worker acts))) \<subseteq># mset (map snd (waiting (the_broker s))) + front_call fm"
    have "?Q' = (mset (map snd (waiting b)) + mset (map snd (concat (map out_worker acts)))) + (mset tb + mset (map snd (to_worker s)))"
      using s' by (simp only: map_append mset_append add_ac)
    also have "\<dots> \<subseteq># (mset (map snd (waiting (the_broker s))) + front_call fm) + (mset tb + mset (map snd (to_worker s)))"
      by (rule subset_mset.add_right_mono [OF sub])
    also have "\<dots> = ?Q" by (simp only: tb add_ac)
    finally have "?Q' \<subseteq># ?Q" .
    from calls_inv_mono [OF assms this] s' no show ?thesis by (simp add: s'_def)
  next
    fix k m d assume fm: "fm = Some (k, m, d)" and re: "concat (map out_refused acts) = [(k, m)]"
      and sub: "mset (map snd (waiting b)) + mset (map snd (concat (map out_worker acts))) \<subseteq># mset (map snd (waiting (the_broker s)))"
    have "add_mset (k, m, d) ?Q' = (mset (map snd (waiting b)) + mset (map snd (concat (map out_worker acts))))
        + (mset tb + front_call fm + mset (map snd (to_worker s)))"
      using s' by (simp add: fm front_call_def)
    also have "\<dots> \<subseteq># mset (map snd (waiting (the_broker s))) + (mset tb + front_call fm + mset (map snd (to_worker s)))"
      by (rule subset_mset.add_right_mono [OF sub])
    also have "\<dots> = ?Q" by (simp only: tb add_ac)
    finally have sub': "add_mset (k, m, d) ?Q' \<subseteq># ?Q" .
    have "places s' = image_mset call_of (add_mset (k, m, d) ?Q') + mset (served_calls s) + mset (refused s)"
      using s' re by (simp add: places_def served_calls_def)
    also have "\<dots> \<subseteq># places s"
      unfolding places_def by (intro subset_mset.add_right_mono image_mset_subseteq_mono sub')
    finally have "places s' \<subseteq># places s" .
    moreover have "?Q' \<subseteq># ?Q" using sub' by (rule subset_mset.order_trans [rotated]) simp
    ultimately show ?thesis
      unfolding s'_def [symmetric] by (rule calls_invI [OF assms]) (use s'(5,6) in auto)
  qed
qed

lemma calls_inv_fetch:
  assumes "calls_inv (nc_pickle cf) s"
  shows "calls_inv (nc_pickle cf) (net_fetch cf k m rq ok s)"
proof (cases "clients s k = None \<or> (k, m) \<in> fst ` set (requested s)")
  case True
  with assms show ?thesis by (cases "clients s k") (auto simp: net_fetch_def)
next
  case False
  then obtain c where c: "clients s k = Some c" and new: "(k, m) \<notin> fst ` set (requested s)" by auto
  obtain r c1 where f: "fetch_send ok m c = (r, c1)" by fastforce
  show ?thesis
  proof (cases r)
    case (Inl e)
    with c new f show ?thesis by (intro calls_inv_mono [OF assms]) (auto simp: net_fetch_def)
  next
    case (Inr u)
    define s' where "s' = net_fetch cf k m rq ok s"
    have s': "to_broker s' = to_broker s @ [(k, m, dump_request (nc_pickle cf) rq)]" "requested s' = requested s @ [((k, m), rq)]"
      "the_broker s' = the_broker s" "to_worker s' = to_worker s" "served s' = served s" "refused s' = refused s"
      using c new f Inr by (auto simp: s'_def net_fetch_def)
    have "places s' = add_mset (k, m) (places s)" by (simp add: places_def served_calls_def s')
    moreover have "asked (nc_pickle cf) s' x" if "asked (nc_pickle cf) s x" for x
      using that by (auto simp: asked_def s')
    moreover have "asked (nc_pickle cf) s' (k, m, dump_request (nc_pickle cf) rq)" by (auto simp: asked_def s')
    ultimately have "calls_inv (nc_pickle cf) s'"
      using assms new by (auto simp: calls_inv_def s')
    then show ?thesis by (simp add: s'_def)
  qed
qed

text \<open>What a turn of a worker does to the links.\<close>

lemma take_request_cases:
  obtains (nothing) "take_request pk w oc s = (Again, to_worker s)"
  | (fault) "take_request pk w oc s = (ZmqErr, to_worker s)"
  | (bad) k m d q where "take_request pk w oc s = (RecvExn, q)" "mset (to_worker s) = add_mset (w, k, m, d) (mset q)"
      "load_request pk d = None"
  | (call) k m d rq q where "take_request pk w oc s = (Request k m rq, q)" "mset (to_worker s) = add_mset (w, k, m, d) (mset q)"
      "load_request pk d = Some rq"
proof (cases oc)
  case Message
  show ?thesis
  proof (cases "peer_deq w (to_worker s)")
    case None
    with Message have "take_request pk w oc s = (Again, to_worker s)" by (simp add: take_request_def)
    then show ?thesis by (rule nothing)
  next
    case (Some xq)
    obtain k m d q where xq: "xq = ((k, m, d), q)" by (metis prod.exhaust)
    with Some obtain a b where "to_worker s = a @ (w, k, m, d) # b" "q = a @ b" using peer_deq_Some by metis
    then have ms: "mset (to_worker s) = add_mset (w, k, m, d) (mset q)" by simp
    show ?thesis
    proof (cases "load_request pk d")
      case None
      with Message Some xq have "take_request pk w oc s = (RecvExn, q)" by (simp add: take_request_def)
      from bad [OF this ms None] show ?thesis .
    next
      case (Some rq)
      with Message \<open>peer_deq w (to_worker s) = Some xq\<close> xq
      have "take_request pk w oc s = (Request k m rq, q)" by (simp add: take_request_def)
      from call [OF this ms Some] show ?thesis .
    qed
  qed
next
  case Silence
  then have "take_request pk w oc s = (Again, to_worker s)" by (simp add: take_request_def)
  then show ?thesis by (rule nothing)
next
  case SocketFault
  then have "take_request pk w oc s = (ZmqErr, to_worker s)" by (simp add: take_request_def)
  then show ?thesis by (rule fault)
qed

lemma net_turn_cases:
  assumes "live_workers s w = Some (sc, st)" and "take_request (nc_pickle cf) w oc s = (r, q)"
  obtains go sc1 acts lw where
    "worker_turn br po sc (inp\<lparr>received := r, handle := (\<lambda>rq h. fst (nc_handler cf e rq st h))\<rparr>) = (go, sc1, acts)"
    "net_turn cf w oc e br po inp s = s\<lparr>live_workers := lw, to_worker := (if go then q else filter (\<lambda>x. fst x \<noteq> w) q),
        from_worker := from_worker s @ map (Pair w) (concat (map (out_frames (nc_pickle cf)) acts)),
        served := served s @ (case r of Request k m rq \<Rightarrow> [(w, (k, m), rq, concat (map out_payloads acts))] | _ \<Rightarrow> [])\<rparr>"
proof -
  obtain go sc1 acts where t:
    "worker_turn br po sc (inp\<lparr>received := r, handle := (\<lambda>rq h. fst (nc_handler cf e rq st h))\<rparr>) = (go, sc1, acts)"
    by (metis prod_cases3)
  show ?thesis by (rule that [OF t]) (simp add: net_turn_def assms t Let_def)
qed

lemma calls_inv_served:
  assumes inv: "calls_inv pk s" and "pickle_ok pk"
    and call: "mset (to_worker s) = add_mset (w, k, m, d) (mset q)" "load_request pk d = Some rq"
    and s': "to_broker s' = to_broker s" "the_broker s' = the_broker s" "requested s' = requested s" "refused s' = refused s"
      "mset (to_worker s') \<subseteq># mset q" "served s' = served s @ [(w, (k, m), rq, ps)]"
  shows "calls_inv pk s'"
proof -
  have "asked pk s (k, m, d)"
    using inv call(1) unfolding calls_inv_def by (auto dest!: bspec [where x = "(k, m, d)"])
  then have ask: "((k, m), rq) \<in> set (requested s)"
    using call(2) assms(2) by (auto simp: asked_def pickle_ok_def)
  have "mset (map snd (to_worker s)) = add_mset (k, m, d) (mset (map snd q))" using call(1) by simp
  then have sub: "add_mset (k, m, d) (mset (map snd (to_worker s'))) \<subseteq># mset (map snd (to_worker s))"
    using image_mset_subseteq_mono [OF s'(5)] by simp
  have "places s' = image_mset call_of (mset (to_broker s) + mset (map snd (waiting (the_broker s)))
      + add_mset (k, m, d) (mset (map snd (to_worker s')))) + mset (served_calls s) + mset (refused s)"
    using s' by (simp add: places_def served_calls_def)
  also have "\<dots> \<subseteq># places s"
    unfolding places_def by (intro subset_mset.add_right_mono image_mset_subseteq_mono subset_mset.add_left_mono sub)
  finally have "places s' \<subseteq># places s" .
  moreover have "mset (map snd (to_worker s')) \<subseteq># mset (map snd (to_worker s))"
    using sub by (rule subset_mset.order_trans [rotated]) simp
  ultimately show ?thesis
    by (intro calls_invI [OF inv]) (use s' ask in \<open>auto intro: subset_mset.add_left_mono\<close>)
qed

lemma calls_inv_idle:
  assumes "calls_inv pk s" and "to_broker s' = to_broker s" "the_broker s' = the_broker s" "requested s' = requested s"
    "refused s' = refused s" "mset (to_worker s') \<subseteq># mset (to_worker s)" "served s' = served s"
  shows "calls_inv pk s'"
  by (rule calls_inv_mono [OF assms(1)])
    (use assms image_mset_subseteq_mono [OF assms(6), of snd] in \<open>simp_all add: subset_mset.add_left_mono\<close>)

lemma calls_inv_turn:
  fixes inp :: "'d worker_input"
  assumes "calls_inv (nc_pickle cf) s" and "pickle_ok (nc_pickle cf)"
  shows "calls_inv (nc_pickle cf) (net_turn cf w oc e br po inp s)"
proof (cases "live_workers s w")
  case None
  with assms show ?thesis by (simp add: net_turn_def)
next
  case (Some v)
  obtain sc st where v: "v = (sc, st)" by fastforce
  obtain r q where r: "take_request (nc_pickle cf) w oc s = (r, q)" by fastforce
  define s' where "s' = net_turn cf w oc e br po inp s"
  obtain go lw and acts :: "'d waction list" where t: "s' = s\<lparr>live_workers := lw, to_worker := (if go then q else filter (\<lambda>x. fst x \<noteq> w) q),
        from_worker := from_worker s @ map (Pair w) (concat (map (out_frames (nc_pickle cf)) acts)),
        served := served s @ (case r of Request k m rq \<Rightarrow> [(w, (k, m), rq, concat (map out_payloads acts))] | _ \<Rightarrow> [])\<rparr>"
    unfolding s'_def by (rule net_turn_cases [OF Some [unfolded v] r, where br = br and po = po and inp = inp and e = e]) blast
  have q: "mset (to_worker s') \<subseteq># mset q" by (simp add: t mset_filter)
  have "calls_inv (nc_pickle cf) s'"
  proof (cases rule: take_request_cases [of "nc_pickle cf" w oc s])
    case (call k m d rq q')
    with r have rq: "r = Request k m rq" "q' = q" by simp_all
    then show ?thesis
      using q by (intro calls_inv_served [OF assms call(2,3), of s' "concat (map out_payloads acts)"]) (simp_all add: t)
  next
    case (bad k m d q')
    with r have rq: "r = RecvExn" "mset q \<subseteq># mset (to_worker s)" by simp_all
    from subset_mset.order_trans [OF q rq(2)] rq(1) show ?thesis by (intro calls_inv_idle [OF assms(1)]) (simp_all add: t)
  qed (use r q in \<open>intro calls_inv_idle [OF assms(1)]; simp add: t\<close>)+
  then show ?thesis by (simp add: s'_def)
qed

lemma calls_inv_lose: "calls_inv pk s \<Longrightarrow> calls_inv pk (net_lose l p s)"
proof -
  assume inv: "calls_inv pk s"
  show ?thesis
  proof (cases l)
    case ToBroker
    obtain x r where h: "hear (Some p) (to_broker s) = (x, r)" by fastforce
    from hear_mset [OF h] have "mset r \<subseteq># mset (to_broker s)" by simp
    then show ?thesis using h ToBroker
      by (intro calls_inv_mono [OF inv]) (auto intro: subset_mset.add_right_mono)
  next
    case ToWorker
    obtain x r where h: "hear (Some p) (to_worker s) = (x, r)" by fastforce
    from hear_mset [OF h] have "mset (map snd r) \<subseteq># mset (map snd (to_worker s))"
      by (auto intro: image_mset_subseteq_mono)
    then show ?thesis using h ToWorker
      by (intro calls_inv_mono [OF inv]) (auto intro: subset_mset.add_left_mono)
  qed (auto intro: calls_inv_mono [OF inv])
qed

lemma calls_inv_step:
  assumes "calls_inv (nc_pickle cf) s" and "pickle_ok (nc_pickle cf)"
  shows "calls_inv (nc_pickle cf) (net_step cf s ev)"
proof -
  note keep = calls_inv_mono [OF assms(1)]
  show ?thesis
  proof (cases ev)
    case (ClientReads k)
    then show ?thesis
      by (auto simp: net_read_def split: option.split list.split intro!: keep)
  next
    case (ClientNext k m)
    then show ?thesis by (auto simp: net_next_def assms(1) split: option.split sum.split prod.split intro!: keep)
  qed (use assms in \<open>auto simp: calls_inv_fetch calls_inv_poll calls_inv_turn calls_inv_lose intro!: keep split: option.split\<close>)
qed

end
