(* ===== verification/NetworkReplies.thy ===== *)
theory NetworkReplies
  imports NetworkInv
begin

text \<open>
  Invariants of the network of \<open>Network\<close> on the way back: what is under way for a call, and what its
  client has read, is a subsequence of the messages that one worker wrote for it, and the response
  handlers of the clients hold nothing else.
\<close>

section \<open>The messages of a turn\<close>

lemma turn_outputs:
  assumes "worker_turn br po sc i = (go, sc1, acts)" and "received i = Request k m rq"
    and "h = snd (serve_request (handle i) (zhandler_init k m (socket_up i)) rq)"
  shows "concat (map (out_frames pk) acts) = [WORKER_READY] # map (\<lambda>(k, m, p). [k, m, dump pk p]) (sent h)"
    and "concat (map out_payloads acts) = h_payloads h"
  using assms by (auto simp: worker_turn_def Let_def h_payloads_def split: prod.splits if_splits)

lemma idle_turn_outputs:
  assumes "worker_turn br po sc i = (go, sc1, acts)" and "\<And>k m rq. received i \<noteq> Request k m rq"
  shows "concat (map (out_frames pk) acts) = [[WORKER_READY]]"
  using assms by (auto simp: worker_turn_def Let_def split: recv.splits prod.splits if_splits)

lemma addressed:
  "list_all (\<lambda>x. fst x = k \<and> fst (snd x) = m) xs \<Longrightarrow>
     map (\<lambda>(k, m, p). [k, m, dump pk p]) xs = map (\<lambda>p. [k, m, dump pk p]) (map (\<lambda>x. snd (snd x)) xs)"
  by (induction xs) auto

context message_handler begin

text \<open>A worker answers a request with one well-formed stream of messages under its id.\<close>

lemma served_stream:
  assumes "worker_turn br po sc i = (go, sc1, acts)" and "received i = Request k m rq"
    and "handle i = (\<lambda>rq h. fst (hdl e rq st h))"
  shows "concat (map (out_frames pk) acts) = [WORKER_READY] # map (\<lambda>p. [k, m, dump pk p]) (concat (map out_payloads acts))"
    and "stream_ok (concat (map out_payloads acts))"
proof -
  define h where "h = snd (serve_request (handle i) (zhandler_init k m (socket_up i)) rq)"
  have "keeps_wire (zhandler_init k m (socket_up i)) h"
    unfolding h_def by (rule keeps_wire_serve) (simp add: assms(3) keeps)
  then have h: "wire_inv h" "client_id h = k" "corr_id h = m"
    using wire_inv_init by (auto simp: keeps_wire_def zhandler_init_def)
  then have "list_all (\<lambda>x. fst x = k \<and> fst (snd x) = m) (sent h)" by (simp add: wire_inv_def)
  from addressed [OF this, of pk] turn_outputs(1) [OF assms(1,2) h_def, of pk] turn_outputs(2) [OF assms(1,2) h_def] h(1)
  show "concat (map (out_frames pk) acts) = [WORKER_READY] # map (\<lambda>p. [k, m, dump pk p]) (concat (map out_payloads acts))"
    and "stream_ok (concat (map out_payloads acts))"
    by (simp_all add: wire_inv_def h_payloads_def)
qed

end

section \<open>Messages under way\<close>

definition log_of :: "'c \<Rightarrow> ('c \<times> 'a) list \<Rightarrow> 'a list" where
  "log_of c xs = map snd (filter (\<lambda>x. fst x = c) xs)"

fun worker_frames :: "call \<Rightarrow> frame \<times> frame list \<Rightarrow> frame list" where
  "worker_frames c (w, [k, m, d]) = (if c = (k, m) then [d] else [])"
| "worker_frames c x = []"

fun client_frames :: "call \<Rightarrow> frame \<times> frame list \<Rightarrow> frame list" where
  "client_frames c (k, [m, d]) = (if c = (k, m) then [d] else [])"
| "client_frames c x = []"

definition underway :: "call \<Rightarrow> 's net \<Rightarrow> frame list" where
  "underway c s = log_of c (got s) @ concat (map (client_frames c) (to_client s)) @ concat (map (worker_frames c) (from_worker s))"

definition written_for :: "call \<Rightarrow> 's net \<Rightarrow> payload list" where
  "written_for c s = concat (log_of c (map (\<lambda>x. (fst (snd x), snd (snd (snd x)))) (served s)))"

definition reply_ok_from :: "'s net \<Rightarrow> frame \<times> frame list \<Rightarrow> bool" where
  "reply_ok_from s x \<longleftrightarrow> snd x = [WORKER_READY]
     \<or> (\<exists>k m d rq ps. snd x = [k, m, d] \<and> (fst x, (k, m), rq, ps) \<in> set (served s))"

definition reply_ok_to :: "'s net \<Rightarrow> frame \<times> frame list \<Rightarrow> bool" where
  "reply_ok_to s x \<longleftrightarrow> (\<exists>m d. snd x = [m, d]) \<or> (\<exists>m. snd x = [m, ''ERR'', ''509''] \<and> (fst x, m) \<in> set (refused s))"

definition replies_inv :: "pickle \<Rightarrow> 's net \<Rightarrow> bool" where
  "replies_inv pk s \<longleftrightarrow> (\<forall>x \<in> set (from_worker s). reply_ok_from s x) \<and> (\<forall>x \<in> set (to_client s). reply_ok_to s x)
   \<and> (\<forall>c. subseq (underway c s) (map (dump pk) (written_for c s)))
   \<and> (\<forall>x \<in> set (served s). stream_ok (snd (snd (snd x))))"

lemma log_of_simps [simp]:
  "log_of c [] = []" "log_of c (x # xs) = (if fst x = c then snd x # log_of c xs else log_of c xs)"
  "log_of c (xs @ ys) = log_of c xs @ log_of c ys"
  by (simp_all add: log_of_def)

lemma log_of_none: "c \<notin> fst ` set xs \<Longrightarrow> log_of c xs = []"
  by (induction xs) auto

lemma written_none: "c \<notin> set (served_calls s) \<Longrightarrow> written_for c s = []"
  unfolding written_for_def served_calls_def by (subst log_of_none) (simp_all add: image_image)

lemma frames_ready [simp]: "worker_frames c (w, [x]) = []"
  by simp

lemma frames_of_turn:
  "concat (map (worker_frames c) (map (Pair w) (map (\<lambda>p. [k, m, dump pk p]) ps))) = (if c = (k, m) then map (dump pk) ps else [])"
  by (induction ps) auto

text \<open>Hearing a peer: nothing for the same call comes before its first message, when the call's messages are all its own.\<close>

lemma heard_first:
  assumes "\<And>x. x \<in> set a \<Longrightarrow> f x \<noteq> [] \<Longrightarrow> fst x = p" and "p \<notin> fst ` set a"
  shows "concat (map f a) = []"
  using assms by auto

lemma subseq_without: "subseq (a @ b) (a @ x @ b)"
  by (intro list_emb_append_mono list_emb_append2 subseq_order.order_refl)

lemma concat_without: "subseq (concat (map f (a @ b))) (concat (map f (a @ x # b)))"
  using subseq_without [of "concat (map f a)" "concat (map f b)" "f x"] by simp

lemma replies_invI:
  assumes "replies_inv pk s"
    and "\<And>x. x \<in> set (from_worker s') \<Longrightarrow> x \<in> set (from_worker s) \<or> reply_ok_from s' x"
    and "\<And>x. x \<in> set (to_client s') \<Longrightarrow> x \<in> set (to_client s) \<or> reply_ok_to s' x"
    and "\<And>c. subseq (underway c s') (map (dump pk) (written_for c s'))"
    and "set (served s) \<subseteq> set (served s')" and "set (refused s) \<subseteq> set (refused s')"
    and "\<And>x. x \<in> set (served s') \<Longrightarrow> x \<in> set (served s) \<or> stream_ok (snd (snd (snd x)))"
  shows "replies_inv pk s'"
proof -
  have "reply_ok_from s x \<Longrightarrow> reply_ok_from s' x" for x using assms(5) unfolding reply_ok_from_def by blast
  moreover have "reply_ok_to s x \<Longrightarrow> reply_ok_to s' x" for x using assms(6) unfolding reply_ok_to_def by blast
  ultimately show ?thesis using assms(1,2,3,4,7) unfolding replies_inv_def by blast
qed

lemma underway_written: "replies_inv pk s \<Longrightarrow> subseq (underway c s) (map (dump pk) (written_for c s))"
  unfolding replies_inv_def by blast

lemma replies_inv_mono:
  assumes "replies_inv pk s"
    and "set (from_worker s') \<subseteq> set (from_worker s)" "set (to_client s') \<subseteq> set (to_client s)"
    and "\<And>c. subseq (underway c s') (underway c s)"
    and "served s' = served s" and "refused s' = refused s"
  shows "replies_inv pk s'"
proof (rule replies_invI [OF assms(1)])
  fix c show "subseq (underway c s') (map (dump pk) (written_for c s'))"
  proof (rule subseq_order.order_trans [OF assms(4)])
    have "written_for c s' = written_for c s" by (simp add: written_for_def assms(5))
    with underway_written [OF assms(1)] show "subseq (underway c s) (map (dump pk) (written_for c s'))" by simp
  qed
qed (use assms(2,3,5,6) in auto)

text \<open>A call that was not served has nothing under way; the messages of a call are all of one worker.\<close>

lemma nothing_underway: "replies_inv pk s \<Longrightarrow> c \<notin> set (served_calls s) \<Longrightarrow> underway c s = []"
  using written_none unfolding replies_inv_def by (metis list.map_disc_iff subseq_order.order_antisym list_emb_Nil)

lemma frames_from:
  assumes "worker_frames (k, m) x \<noteq> []" and "reply_ok_from s x"
  obtains d rq ps where "snd x = [k, m, d]" "(fst x, (k, m), rq, ps) \<in> set (served s)"
proof -
  obtain w fr where x: "x = (w, fr)" by fastforce
  from assms(2) x consider "fr = [WORKER_READY]" | k' m' d rq ps where "fr = [k', m', d]" "(w, (k', m'), rq, ps) \<in> set (served s)"
    by (auto simp: reply_ok_from_def)
  then show ?thesis
  proof cases
    case 2
    with assms(1) x have "k' = k" "m' = m" by (auto split: if_splits)
    with 2 x that show ?thesis by auto
  qed (use assms(1) x in simp)
qed

text \<open>A worker says that it is ready; a worker answers a call that nobody had answered.\<close>

lemma replies_inv_ready:
  assumes "replies_inv pk s" and s': "from_worker s' = from_worker s @ [(w, [WORKER_READY])]" "served s' = served s"
    "to_client s' = to_client s" "got s' = got s" "refused s' = refused s"
  shows "replies_inv pk s'"
proof -
  have "underway c s' = underway c s" "written_for c s' = written_for c s" for c
    by (simp_all add: underway_def written_for_def s')
  then show ?thesis
    by (intro replies_invI [OF assms(1)]) (use s' assms(1) in \<open>auto simp: reply_ok_from_def replies_inv_def\<close>)
qed

lemma replies_inv_answer:
  assumes "replies_inv pk s" and new: "(k, m) \<notin> set (served_calls s)" and "stream_ok ps"
    and s': "from_worker s' = from_worker s @ (w, [WORKER_READY]) # map (Pair w) (map (\<lambda>p. [k, m, dump pk p]) ps)"
      "served s' = served s @ [(w, (k, m), rq, ps)]" "to_client s' = to_client s" "got s' = got s" "refused s' = refused s"
  shows "replies_inv pk s'"
proof -
  have under: "underway c s' = underway c s @ (if c = (k, m) then map (dump pk) ps else [])" for c
    using frames_of_turn [of c w k m pk ps] by (simp add: underway_def s' del: map_map)
  have writ: "written_for c s' = written_for c s @ (if c = (k, m) then ps else [])" for c
    by (simp add: written_for_def s')
  have "subseq (underway c s') (map (dump pk) (written_for c s'))" for c
    using underway_written [OF assms(1), of c] nothing_underway [OF assms(1) new] under [of c] writ [of c]
    by (cases "c = (k, m)") (simp_all add: list_emb_append2)
  moreover have "reply_ok_from s' (w, [WORKER_READY])" "\<And>d. reply_ok_from s' (w, [k, m, d])"
    by (auto simp: reply_ok_from_def s'(2))
  ultimately show ?thesis by (intro replies_invI [OF assms(1)]) (use s' assms(3) in auto)
qed

lemma replies_inv_turn:
  fixes inp :: "'d worker_input"
  assumes "replies_inv (nc_pickle cf) s" and "calls_inv (nc_pickle cf) s" and "message_handler (nc_handler cf)"
  shows "replies_inv (nc_pickle cf) (net_turn cf w oc e br po inp s)"
proof (cases "live_workers s w")
  case None
  with assms(1) show ?thesis by (simp add: net_turn_def)
next
  case (Some v)
  obtain sc st where v: "v = (sc, st)" by fastforce
  obtain r q where r: "take_request (nc_pickle cf) w oc s = (r, q)" by fastforce
  define i where "i = inp\<lparr>received := r, handle := (\<lambda>rq h. fst (nc_handler cf e rq st h))\<rparr>"
  define s' where "s' = net_turn cf w oc e br po inp s"
  obtain go sc1 lw and acts :: "'d waction list" where wt: "worker_turn br po sc i = (go, sc1, acts)"
    and t: "s' = s\<lparr>live_workers := lw, to_worker := (if go then q else filter (\<lambda>x. fst x \<noteq> w) q),
        from_worker := from_worker s @ map (Pair w) (concat (map (out_frames (nc_pickle cf)) acts)),
        served := served s @ (case r of Request k m rq \<Rightarrow> [(w, (k, m), rq, concat (map out_payloads acts))] | _ \<Rightarrow> [])\<rparr>"
    unfolding s'_def i_def
    by (rule net_turn_cases [OF Some [unfolded v] r, where br = br and po = po and inp = inp and e = e]) blast
  have hi: "handle i = (\<lambda>rq h. fst (nc_handler cf e rq st h))" "received i = r" by (simp_all add: i_def)
  show ?thesis
  proof (cases "\<exists>k m rq. r = Request k m rq")
    case False
    then have "concat (map (out_frames (nc_pickle cf)) acts) = [[WORKER_READY]]"
      using idle_turn_outputs [OF wt] hi(2) by simp
    with False t have fw: "from_worker s' = from_worker s @ [(w, [WORKER_READY])]" "served s' = served s"
      "to_client s' = to_client s" "got s' = got s" "refused s' = refused s" by (auto split: recv.splits)
    then have "replies_inv (nc_pickle cf) s'" by (rule replies_inv_ready [OF assms(1)])
    then show ?thesis by (simp add: s'_def)
  next
    case True
    then obtain k m rq where rq: "r = Request k m rq" by blast
    define ps where "ps = concat (map out_payloads acts)"
    have rcv: "received i = Request k m rq" using hi(2) rq by simp
    note stream = message_handler.served_stream [OF assms(3) wt rcv hi(1), folded ps_def]
    obtain d where "(w, k, m, d) \<in> set (to_worker s)"
      by (cases rule: take_request_cases [of "nc_pickle cf" w oc s]) (use r rq in \<open>auto dest!: arg_cong [of _ _ set_mset] simp del: set_mset_mset simp: set_mset_mset [symmetric]\<close>)
    then have new: "(k, m) \<notin> set (served_calls s)" by (rule pending_not_served [OF assms(2)])
    have "replies_inv (nc_pickle cf) s'"
      by (rule replies_inv_answer [OF assms(1) new stream(2)]) (use t stream(1) rq in \<open>simp_all add: ps_def\<close>)
    then show ?thesis by (simp add: s'_def)
  qed
qed

text \<open>The broker hands the first message of a worker on, or loses it.\<close>

lemma client_frames_refusal [simp]: "client_frames c (k, [m, x, y]) = []"
  by simp

lemma served_by_one:
  assumes "calls_inv pk s" and "reply_ok_from s x" and "worker_frames c x \<noteq> []"
    and "reply_ok_from s (w, [fst c, snd c, d])"
  shows "fst x = w"
proof -
  obtain k m where c: "c = (k, m)" by fastforce
  from frames_from [OF assms(3) [unfolded c] assms(2)] obtain d' rq ps where 1: "(fst x, (k, m), rq, ps) \<in> set (served s)" by blast
  from assms(4) c obtain rq' ps' where "(w, (k, m), rq', ps') \<in> set (served s)" by (auto simp: reply_ok_from_def)
  with served_once [OF assms(1) 1] show ?thesis by blast
qed

lemma forwarded_sub:
  assumes "replies_inv pk s" and "calls_inv pk s" and h1: "hear wo (from_worker s) = (bm, fw)"
    and rp: "rp = [] \<or> (\<exists>w k m d. bm = Some (w, [k, m, d]) \<and> rp = [(k, [m, d])])"
  shows "subseq (log_of c (got s) @ concat (map (client_frames c) (to_client s @ rp)) @ concat (map (worker_frames c) fw))
    (underway c s)"
proof (cases rule: hear_cases [of wo "from_worker s"])
  case silent
  with h1 rp have "rp = []" "fw = from_worker s" by auto
  then show ?thesis unfolding underway_def by simp
next
  case (heard w fr a b')
  with h1 have bmw: "bm = Some (w, fr)" "fw = a @ b'" by auto
  have ok: "reply_ok_from s x" if "x \<in> set (from_worker s)" for x using assms(1) that by (simp add: replies_inv_def)
  show ?thesis
  proof (cases "rp = []")
    case True
    have "subseq (concat (map (worker_frames c) fw)) (concat (map (worker_frames c) (from_worker s)))"
      using concat_without [of "worker_frames c" a b' "(w, fr)"] bmw(2) heard(2) by simp
    with True show ?thesis unfolding underway_def
      by (intro list_emb_append_mono subseq_order.order_refl) simp_all
  next
    case False
    with rp bmw obtain k m d where fr: "fr = [k, m, d]" "rp = [(k, [m, d])]" by auto
    show ?thesis
    proof (cases "c = (k, m)")
      case c: True
      have no: "concat (map (worker_frames c) a) = []"
      proof (rule heard_first [OF _ heard(3)])
        fix x assume x: "x \<in> set a" "worker_frames c x \<noteq> []"
        have "reply_ok_from s (w, [fst c, snd c, d])" using ok [of "(w, fr)"] heard(2) fr c by simp
        from served_by_one [OF assms(2) _ x(2) this] ok [of x] x(1) heard(2) show "fst x = w" by simp
      qed
      have na: "concat (map (worker_frames c) (a @ xs)) = concat (map (worker_frames c) xs)" for xs
        using no by simp
      show ?thesis unfolding underway_def bmw(2) heard(2) na unfolding fr c by simp
    next
      case False
      with fr bmw heard show ?thesis unfolding underway_def by simp
    qed
  qed
qed

lemma replies_inv_poll:
  assumes "replies_inv pk s" and "calls_inv pk s"
  shows "replies_inv pk (net_poll cf wo ko inp s)"
proof -
  obtain bm fw where h1: "hear wo (from_worker s) = (bm, fw)" by fastforce
  obtain fm tb where h2: "hear ko (to_broker s) = (fm, tb)" by fastforce
  define i where "i = inp\<lparr>backend_msg := map_option (\<lambda>(w, fr). w # fr) bm,
       frontend_msg := map_option (\<lambda>(k, m, d). [k, m, d]) fm\<rparr>"
  obtain b acts where it: "broker_iter (nc_maxqueue cf) (nc_timeout cf / 1000) (the_broker s) i = (b, acts)" by fastforce
  define s' where "s' = net_poll cf wo ko inp s"
  have s': "from_worker s' = fw" "to_client s' = to_client s @ concat (map out_client acts)" "got s' = got s"
    "refused s' = refused s @ concat (map out_refused acts)" "served s' = served s"
    using h1 h2 it by (simp_all add: s'_def net_poll_def i_def)
  have bm: "backend_msg i = map_option (\<lambda>(w, fr). w # fr) bm" by (simp add: i_def)
  have writ: "written_for c s' = written_for c s" for c by (simp add: written_for_def s')
  obtain rp bz where out: "concat (map out_client acts) = rp @ bz"
    and rp: "rp = [] \<or> (\<exists>w k m d. bm = Some (w, [k, m, d]) \<and> rp = [(k, [m, d])])"
    and bz: "bz = [] \<or> (\<exists>k m. (k, m) \<in> set (concat (map out_refused acts)) \<and> bz = [(k, [m, ''ERR'', ''509''])])"
    using poll_replies [OF it bm] .
  have bz0: "concat (map (client_frames c) (xs @ bz)) = concat (map (client_frames c) xs)" for c xs using bz by auto
  have under: "underway c s' = log_of c (got s) @ concat (map (client_frames c) (to_client s @ rp)) @ concat (map (worker_frames c) fw)" for c
    using bz0 [of c "to_client s @ rp"] out s' by (simp only: underway_def append_assoc)
  have sub: "subseq (underway c s') (underway c s)" for c
    unfolding under by (rule forwarded_sub [OF assms h1 rp])
  have fw: "set fw \<subseteq> set (from_worker s)" by (cases rule: hear_cases [of wo "from_worker s"]) (use h1 in auto)
  have "replies_inv pk s'"
  proof (rule replies_invI [OF assms(1)])
    fix c show "subseq (underway c s') (map (dump pk) (written_for c s'))"
      unfolding writ by (rule subseq_order.order_trans [OF sub underway_written [OF assms(1)]])
  next
    fix x assume "x \<in> set (to_client s')"
    with s' out rp bz show "x \<in> set (to_client s) \<or> reply_ok_to s' x" by (auto simp: reply_ok_to_def)
  qed (use s' fw in auto)
  then show ?thesis by (simp add: s'_def)
qed

lemma client_frames_key: "client_frames (k, m) (k', fr) \<noteq> [] \<Longrightarrow> k' = k"
  by (cases "((k, m), (k', fr))" rule: client_frames.cases) (auto split: if_splits)

lemma replies_inv_read:
  assumes "replies_inv pk s"
  shows "replies_inv pk (net_read cf k s)"
proof (cases "clients s k = None \<or> peer_deq k (to_client s) = None")
  case True
  with assms show ?thesis by (cases "clients s k") (auto simp: net_read_def)
next
  case False
  then obtain c fr q where c: "clients s k = Some c" "peer_deq k (to_client s) = Some (fr, q)" by fastforce
  from c(2) obtain a b where ab: "to_client s = a @ (k, fr) # b" "q = a @ b" "k \<notin> fst ` set a" by (rule peer_deq_Some)
  have "concat (map (client_frames (k, m)) a) = []" for m
    by (rule heard_first [OF _ ab(3)]) (auto dest!: client_frames_key)
  then have none: "concat (map (client_frames (k, m)) (a @ xs)) = concat (map (client_frames (k, m)) xs)" for m xs
    by simp
  have "reply_ok_to s (k, fr)" using assms ab(1) by (simp add: replies_inv_def)
  then consider (data) m d where "fr = [m, d]" | (busy) m where "fr = [m, ''ERR'', ''509'']"
    by (auto simp: reply_ok_to_def)
  then show ?thesis
  proof cases
    case data
    define s' where "s' = net_read cf k s"
    have s': "to_client s' = a @ b" "got s' = got s @ [((k, m), d)]" "from_worker s' = from_worker s"
      "served s' = served s" "refused s' = refused s" using c ab data by (simp_all add: s'_def net_read_def)
    have "underway x s' = underway x s" for x
    proof (cases "x = (k, m)")
      case True
      show ?thesis unfolding underway_def s' ab(1) data True none by simp
    qed (simp add: underway_def s' ab(1) data)
    then have "replies_inv pk s'" by (intro replies_inv_mono [OF assms]) (use s' ab in auto)
    then show ?thesis by (simp add: s'_def)
  next
    case busy
    then show ?thesis using c ab
      by (intro replies_inv_mono [OF assms]) (auto simp: net_read_def underway_def)
  qed
qed

lemma subseq_underway:
  assumes "got s' = got s" and "subseq (concat (map (client_frames c) (to_client s'))) (concat (map (client_frames c) (to_client s)))"
    and "subseq (concat (map (worker_frames c) (from_worker s'))) (concat (map (worker_frames c) (from_worker s)))"
  shows "subseq (underway c s') (underway c s)"
  unfolding underway_def assms(1) by (intro list_emb_append_mono subseq_order.order_refl assms(2,3))

lemma hear_sub: "hear po q = (x, r) \<Longrightarrow> set r \<subseteq> set q \<and> subseq (concat (map f r)) (concat (map f q))"
  by (cases rule: hear_cases [of po q]) (auto simp: subseq_without)

lemma replies_inv_lose: "replies_inv pk s \<Longrightarrow> replies_inv pk (net_lose l p s)"
proof -
  assume inv: "replies_inv pk s"
  show ?thesis
  proof (cases l)
    case FromWorker
    obtain x r where h: "hear (Some p) (from_worker s) = (x, r)" by fastforce
    have lose: "net_lose l p s = s\<lparr>from_worker := r\<rparr>" using h FromWorker by simp
    have r: "set r \<subseteq> set (from_worker s)" "\<And>f. subseq (concat (map f r)) (concat (map f (from_worker s)))" using hear_sub [OF h] by blast+
    show ?thesis unfolding lose
      by (rule replies_inv_mono [OF inv], use r in simp_all) (rule subseq_underway; simp add: r)
  next
    case ToClient
    obtain x r where h: "hear (Some p) (to_client s) = (x, r)" by fastforce
    have lose: "net_lose l p s = s\<lparr>to_client := r\<rparr>" using h ToClient by simp
    have r: "set r \<subseteq> set (to_client s)" "\<And>f. subseq (concat (map f r)) (concat (map f (to_client s)))" using hear_sub [OF h] by blast+
    show ?thesis unfolding lose
      by (rule replies_inv_mono [OF inv], use r in simp_all) (rule subseq_underway; simp add: r)
  qed (auto intro!: replies_inv_mono [OF inv] simp: underway_def)
qed

lemma replies_inv_step:
  assumes "replies_inv (nc_pickle cf) s" and "calls_inv (nc_pickle cf) s" and "message_handler (nc_handler cf)"
  shows "replies_inv (nc_pickle cf) (net_step cf s ev)"
proof -
  note keep = replies_inv_mono [OF assms(1)]
  show ?thesis
  proof (cases ev)
    case (Fetch k m rq ok)
    then show ?thesis
      by (auto simp: net_fetch_def underway_def assms(1) split: option.split sum.split prod.split intro!: keep)
  next
    case (ClientNext k m)
    then show ?thesis
      by (auto simp: net_next_def underway_def assms(1) split: option.split sum.split prod.split intro!: keep)
  next
    case (BrokerPolls wo ko inp)
    then show ?thesis by (simp add: replies_inv_poll [OF assms(1,2)])
  next
    case (WorkerTurns w oc e br po inp)
    then show ?thesis by (simp add: replies_inv_turn [OF assms])
  next
    case (ClientReads k)
    then show ?thesis by (simp add: replies_inv_read [OF assms(1)])
  next
    case (Lost l p)
    then show ?thesis by (simp add: replies_inv_lose [OF assms(1)])
  qed (auto simp: assms(1) underway_def intro!: keep split: option.split)
qed

end
