(* ===== verification/NetworkProps.thy ===== *)
theory NetworkProps
  imports NetworkReplies "HOL-Library.Countable"
begin

text \<open>
  What the response handlers of the clients can hold, and the properties of the network as a whole:
  a reply belongs to its request, a refused request is never executed.
\<close>

section \<open>What a message does to a handler\<close>

fun payload_chunks :: "payload \<Rightarrow> (string \<times> bool) list" where
  "payload_chunks (PChunk d mo m) = [(d, mo)]"
| "payload_chunks (PReply st hs d m) = []"

definition frame_chunks :: "pickle \<Rightarrow> frame \<Rightarrow> (string \<times> bool) list" where
  "frame_chunks pk f = (case load pk f of None \<Rightarrow> [] | Some p \<Rightarrow> payload_chunks p)"

definition queued :: "rhandler \<Rightarrow> (string \<times> bool) list" where
  "queued h = (case rh_chunks h of None \<Rightarrow> [] | Some q \<Rightarrow> q)"

definition same_reply :: "rhandler \<Rightarrow> rhandler \<Rightarrow> bool" where
  "same_reply h h' \<longleftrightarrow> rh_status h' = rh_status h \<and> rh_headers h' = rh_headers h \<and> rh_data h' = rh_data h \<and> rh_meta h' = rh_meta h
     \<and> rh_future h' = rh_future h"

definition holds_reply :: "payload \<Rightarrow> rhandler \<Rightarrow> bool" where
  "holds_reply p h \<longleftrightarrow> (\<exists>d. rh_data h = Some d \<and> p = PReply (rh_status h) (rh_headers h) d (rh_meta h))"

lemma set_result_effect:
  assumes "rh_set_result w h = (r, h1)"
  obtains (reply) p where "w = Pickled p" "holds_reply p h1" "rh_future h1 = Resolved \<or> rh_future h1 = rh_future h"
      "queued h1 = [] \<or> queued h1 = queued h"
  | (chunk) d mo mt where "w = Pickled (PChunk d mo mt)" "same_reply h h1" "queued h1 = queued h @ [(d, mo)]"
  | (nothing) "same_reply h h1 \<and> queued h1 = queued h"
proof (cases "rh_status h = -1")
  case True
  show ?thesis
  proof (cases w)
    case (Pickled p)
    show ?thesis
    proof (cases p)
      case (PReply st hs body mt)
      have "holds_reply p h1" "rh_future h1 = Resolved \<or> rh_future h1 = rh_future h" "queued h1 = [] \<or> queued h1 = queued h"
        using assms True Pickled PReply by (auto simp: rh_set_result_def Let_def holds_reply_def queued_def split: if_splits)
      with Pickled show ?thesis by (intro reply)
    qed (rule nothing; use assms True Pickled in \<open>auto simp: rh_set_result_def same_reply_def\<close>)
  qed (rule nothing; use assms True in \<open>auto simp: rh_set_result_def same_reply_def\<close>)
next
  case started: False
  show ?thesis
  proof (cases "rh_has_more h")
    case True
    show ?thesis
    proof (cases w)
      case (Pickled p)
      show ?thesis
      proof (cases p)
        case (PChunk d mo mt)
        show ?thesis
        proof (cases "rh_chunks h")
          case None
          with assms started True Pickled PChunk have "same_reply h h1 \<and> queued h1 = queued h"
            by (auto simp: rh_set_result_def same_reply_def queued_def Let_def)
          then show ?thesis by (rule nothing)
        next
          case (Some q)
          with assms started True Pickled PChunk have "same_reply h h1" "queued h1 = queued h @ [(d, mo)]"
            by (auto simp: rh_set_result_def same_reply_def queued_def Let_def)
          with Pickled PChunk show ?thesis by (intro chunk) simp_all
        qed
      qed (rule nothing; use assms started True Pickled in \<open>auto simp: rh_set_result_def same_reply_def\<close>)
    qed (rule nothing; use assms started True in \<open>auto simp: rh_set_result_def same_reply_def\<close>)
  qed (rule nothing; use assms started in \<open>auto simp: rh_set_result_def same_reply_def\<close>)
qed

lemma set_exception_effect:
  "rh_set_exception e h = (r, h1) \<Longrightarrow> queued h1 = queued h
     \<and> (rh_future h1 = Failed e \<or> same_reply h h1)"
  by (auto simp: rh_set_exception_def Let_def queued_def same_reply_def split: if_splits)

lemma client_recv_store:
  obtains (same) "store (client_recv m w rest c) = store c"
  | (updated) h r h1 where "store c m = Some h" "store (client_recv m w rest c) = (store c)(m \<mapsto> h1)"
      "(r, h1) = (if rest \<noteq> [] \<and> w = Raw ''ERR'' then rh_set_exception (RequestProxyError (hd rest)) h else rh_set_result w h)"
proof (cases "m \<in> set (client.table c) \<and> store c m \<noteq> None")
  case False
  then have "store (client_recv m w rest c) = store c" by (auto simp: client_recv_def)
  then show ?thesis by (rule same)
next
  case True
  then obtain h where h: "m \<in> set (client.table c)" "store c m = Some h" by auto
  obtain r h1 where o: "(if rest \<noteq> [] \<and> w = Raw ''ERR'' then rh_set_exception (RequestProxyError (hd rest)) h else rh_set_result w h) = (r, h1)"
    by fastforce
  have "store (client_recv m w rest c) = (store c)(m \<mapsto> h1)"
    unfolding client_recv_def using h o by (simp add: Let_def split: option.split)
  from updated [OF h(2) this o [symmetric]] show ?thesis .
qed

section \<open>The invariant of the handlers\<close>

definition held :: "pickle \<Rightarrow> 's net \<Rightarrow> call \<Rightarrow> rhandler \<Rightarrow> bool" where
  "held pk s c h \<longleftrightarrow>
     (rh_future h = Resolved \<longrightarrow> (\<exists>f \<in> set (log_of c (got s)). \<exists>p. load pk f = Some p \<and> holds_reply p h))
   \<and> (\<forall>e. rh_future h = Failed e \<longrightarrow> e = RequestProxyError ''509'' \<and> c \<in> set (refused s))"

definition queue_of :: "'s net \<Rightarrow> call \<Rightarrow> (string \<times> bool) list" where
  "queue_of s c = (case clients s (fst c) of None \<Rightarrow> [] | Some cl \<Rightarrow> (case store cl (snd c) of None \<Rightarrow> [] | Some h \<Rightarrow> queued h))"

definition chunks_read :: "pickle \<Rightarrow> 's net \<Rightarrow> call \<Rightarrow> (string \<times> bool) list" where
  "chunks_read pk s c = concat (map (frame_chunks pk) (log_of c (got s)))"

definition handlers_inv :: "pickle \<Rightarrow> 's net \<Rightarrow> bool" where
  "handlers_inv pk s \<longleftrightarrow>
     (\<forall>k m cl h. clients s k = Some cl \<longrightarrow> store cl m = Some h \<longrightarrow> held pk s (k, m) h)
   \<and> (\<forall>c. subseq (log_of c (yielded s) @ queue_of s c) (chunks_read pk s c))"

lemma held_same: "held pk s c h \<Longrightarrow> same_reply h h' \<Longrightarrow> held pk s c h'"
  by (simp add: held_def same_reply_def holds_reply_def)

lemma held_mono: "held pk s c h \<Longrightarrow> set (log_of c (got s)) \<subseteq> set (log_of c (got s')) \<Longrightarrow> set (refused s) \<subseteq> set (refused s')
    \<Longrightarrow> held pk s' c h"
  unfolding held_def by blast

lemma handlers_held: "handlers_inv pk s \<Longrightarrow> clients s k = Some cl \<Longrightarrow> store cl m = Some h \<Longrightarrow> held pk s (k, m) h"
  unfolding handlers_inv_def by blast

lemma handlers_queue: "handlers_inv pk s \<Longrightarrow> subseq (log_of c (yielded s) @ queue_of s c) (chunks_read pk s c)"
  unfolding handlers_inv_def by blast

text \<open>Events that leave the clients and their logs alone, and events of one client.\<close>

lemma handlers_inv_keep:
  assumes "handlers_inv pk s" and "clients s' = clients s" "got s' = got s" "yielded s' = yielded s"
    and "set (refused s) \<subseteq> set (refused s')"
  shows "handlers_inv pk s'"
proof -
  have "held pk s' c h" if "held pk s c h" for c h using that assms(3,5) by (intro held_mono [OF that]) simp_all
  moreover have "queue_of s' c = queue_of s c" "chunks_read pk s' c = chunks_read pk s c" for c
    by (simp_all add: queue_of_def chunks_read_def assms(2,3))
  ultimately show ?thesis using assms(1,2,4) unfolding handlers_inv_def by simp
qed

lemma handlers_inv_client:
  assumes "handlers_inv pk s" and "clients s' = (clients s)(k \<mapsto> c1)"
    and "\<And>c. set (log_of c (got s)) \<subseteq> set (log_of c (got s'))" and "refused s' = refused s"
    and "\<And>m h. store c1 m = Some h \<Longrightarrow> held pk s' (k, m) h"
    and "\<And>c. subseq (log_of c (yielded s') @ queue_of s' c) (chunks_read pk s' c)"
  shows "handlers_inv pk s'"
  unfolding handlers_inv_def
proof (intro conjI allI impI)
  fix k' m cl h assume cl: "clients s' k' = Some cl" "store cl m = Some h"
  show "held pk s' (k', m) h"
  proof (cases "k' = k")
    case True
    with cl assms(2,5) show ?thesis by simp
  next
    case False
    with cl assms(2) have "held pk s (k', m) h" using handlers_held [OF assms(1)] by simp
    then show ?thesis by (rule held_mono) (use assms(3,4) in simp_all)
  qed
qed (rule assms(6))

lemma subseq_grow: "subseq a b \<Longrightarrow> subseq a (b @ c)"
  by (rule subseq_order.order_trans [of a b]) (simp_all add: prefix_imp_subseq)

lemma chunks_read_more: "chunks_read pk s c = xs \<Longrightarrow> got s' = got s @ [((k, m), d)] \<Longrightarrow>
    chunks_read pk s' c = xs @ (if c = (k, m) then frame_chunks pk d else [])"
  by (auto simp: chunks_read_def)

text \<open>A message of a worker, read by its client: what it does to the handler of its call, and to the invariant.\<close>

lemma data_held:
  assumes oh: "held pk s (k, m) h" and lq: "subseq (log_of (k, m) (yielded s) @ queued h) (chunks_read pk s (k, m))"
    and res: "rh_set_result w h = (r, h1)" and w: "\<And>p. w = Pickled p \<Longrightarrow> load pk d = Some p"
    and s': "got s' = got s @ [((k, m), d)]" "refused s' = refused s"
  shows "held pk s' (k, m) h1 \<and> subseq (log_of (k, m) (yielded s) @ queued h1) (chunks_read pk s' (k, m))"
proof -
  note read = chunks_read_more [OF refl s'(1), of pk]
  have mono: "held pk s' x h" if "held pk s x h" for x h using that by (rule held_mono) (simp_all add: s')
  from res show ?thesis
  proof (cases rule: set_result_effect)
    case (reply p)
    from w [OF reply(1)] reply(2) have "\<exists>f \<in> set (log_of (k, m) (got s')). \<exists>p. load pk f = Some p \<and> holds_reply p h1"
      by (auto simp: s'(1))
    then have "held pk s' (k, m) h1"
      using reply(3) oh s'(2) unfolding held_def by auto
    moreover have "subseq (log_of (k, m) (yielded s)) (chunks_read pk s (k, m))"
      by (rule subseq_order.order_trans [OF _ lq]) (simp add: prefix_imp_subseq)
    with lq reply(4) have "subseq (log_of (k, m) (yielded s) @ queued h1) (chunks_read pk s (k, m))" by auto
    ultimately show ?thesis unfolding read by (simp add: subseq_grow)
  next
    case (chunk dd mo mt)
    from w [OF chunk(1)] have "frame_chunks pk d = [(dd, mo)]" by (simp add: frame_chunks_def)
    with lq chunk(3) have "subseq (log_of (k, m) (yielded s) @ queued h1) (chunks_read pk s' (k, m))"
      unfolding read by (simp add: list_emb_append_mono flip: append_assoc)
    with mono [OF held_same [OF oh chunk(2)]] show ?thesis by simp
  next
    case nothing
    with mono [OF held_same [OF oh conjunct1 [OF nothing]]] lq show ?thesis unfolding read by (simp add: subseq_grow)
  qed
qed

lemma handlers_inv_data:
  assumes inv: "handlers_inv pk s" and c: "clients s k = Some c"
    and s': "clients s' = (clients s)(k \<mapsto> client_recv m (wire_of pk d []) [] c)" "got s' = got s @ [((k, m), d)]"
      "refused s' = refused s" "yielded s' = yielded s"
  shows "handlers_inv pk s'"
proof -
  define c1 where "c1 = client_recv m (wire_of pk d []) [] c"
  note s' = s' [folded c1_def] and read = chunks_read_more [OF refl s'(2), of pk]
  have w: "wire_of pk d [] = Pickled p \<Longrightarrow> load pk d = Some p" for p by (auto simp: wire_of_def split: option.splits)
  have old: "held pk s' (k, m') h" if "store c m' = Some h" for m' h
    by (rule held_mono [OF handlers_held [OF inv c that]]) (simp_all add: s')
  have grow: "subseq (log_of x (yielded s') @ queue_of s' x) (chunks_read pk s' x)"
    if "\<And>m'. x = (k, m') \<Longrightarrow> store c1 m' = store c m'" for x
  proof -
    have "queue_of s' x = queue_of s x" using that c by (cases x) (simp add: queue_of_def s'(1))
    then show ?thesis unfolding read s'(4) using subseq_grow [OF handlers_queue [OF inv]] by simp
  qed
  show ?thesis
  proof (cases rule: client_recv_store [of m "wire_of pk d []" "[]" c])
    case same
    then have "store c1 = store c" by (simp add: c1_def)
    then show ?thesis by (intro handlers_inv_client [OF inv s'(1)] grow) (simp_all add: s' old)
  next
    case (updated h r h1)
    then have st: "store c1 = (store c)(m \<mapsto> h1)" and res: "rh_set_result (wire_of pk d []) h = (r, h1)" by (simp_all add: c1_def)
    have "subseq (log_of (k, m) (yielded s) @ queued h) (chunks_read pk s (k, m))"
      using handlers_queue [OF inv, of "(k, m)"] updated(1) c by (simp add: queue_of_def)
    note new = data_held [OF handlers_held [OF inv c updated(1)] this res w s'(2,3)]
    show ?thesis
    proof (rule handlers_inv_client [OF inv s'(1) _ s'(3)])
      fix m' h' assume "store c1 m' = Some h'"
      with st new old show "held pk s' (k, m') h'" by (cases "m' = m") auto
    next
      fix x show "subseq (log_of x (yielded s') @ queue_of s' x) (chunks_read pk s' x)"
      proof (cases "x = (k, m)")
        case True
        with new st s'(1,4) show ?thesis by (simp add: queue_of_def)
      qed (rule grow, auto simp: st)
    qed (simp add: s'(2))
  qed
qed

text \<open>A refusal, read by its client.\<close>

lemma busy_held:
  assumes inv: "handlers_inv pk s" and c: "clients s k = Some c" and busy: "(k, m) \<in> set (refused s)"
    and s': "got s' = got s" "refused s' = refused s"
    and h': "store (client_recv m (Raw ''ERR'') [''509''] c) m' = Some h'"
  shows "held pk s' (k, m') h' \<and> queued h' = queue_of s (k, m')"
proof -
  have old: "held pk s' (k, m') h" if "store c m' = Some h" for m' h
    by (rule held_mono [OF handlers_held [OF inv c that]]) (simp_all add: s')
  show ?thesis
  proof (cases rule: client_recv_store [of m "Raw ''ERR''" "[''509'']" c])
    case same
    with old c h' show ?thesis by (simp add: queue_of_def)
  next
    case (updated h r h1)
    then have res: "rh_set_exception (RequestProxyError ''509'') h = (r, h1)" by simp
    from set_exception_effect [OF res] have q: "queued h1 = queued h" "rh_future h1 = Failed (RequestProxyError ''509'') \<or> same_reply h h1"
      by auto
    from q(2) have "held pk s' (k, m) h1" using held_same [OF old [OF updated(1)]] busy s'(2) by (auto simp: held_def)
    with q(1) updated(1,2) old c h' show ?thesis by (cases "m' = m") (auto simp: queue_of_def)
  qed
qed

lemma handlers_inv_busy:
  assumes inv: "handlers_inv pk s" and c: "clients s k = Some c" and busy: "(k, m) \<in> set (refused s)"
    and s': "clients s' = (clients s)(k \<mapsto> client_recv m (Raw ''ERR'') [''509''] c)" "got s' = got s"
      "refused s' = refused s" "yielded s' = yielded s"
  shows "handlers_inv pk s'"
proof -
  note all = busy_held [OF inv c busy s'(2,3)]
  have dom: "store (client_recv m (Raw ''ERR'') [''509''] c) m' = None \<longleftrightarrow> store c m' = None" for m'
    by (rule client_recv_store [of m "Raw ''ERR''" "[''509'']" c]) auto
  have queue: "queue_of s' x = queue_of s x" for x
  proof (cases "fst x = k")
    case True
    then obtain m' where x: "x = (k, m')" by (cases x) auto
    show ?thesis
    proof (cases "store (client_recv m (Raw ''ERR'') [''509''] c) m'")
      case None
      with dom [of m'] c x show ?thesis by (simp add: queue_of_def s'(1))
    qed (use all x in \<open>simp add: queue_of_def s'(1)\<close>)
  qed (simp add: queue_of_def s'(1))
  have "chunks_read pk s' x = chunks_read pk s x" for x by (simp add: chunks_read_def s')
  with handlers_queue [OF inv] queue s'(4) show ?thesis
    by (intro handlers_inv_client [OF inv s'(1) _ s'(3)]) (simp_all add: all s'(2))
qed

lemma handlers_inv_read:
  assumes "handlers_inv pk s" and "replies_inv pk s" and pk: "pk = nc_pickle cf"
  shows "handlers_inv pk (net_read cf k s)"
proof (cases "clients s k = None \<or> peer_deq k (to_client s) = None")
  case True
  with assms show ?thesis by (cases "clients s k") (auto simp: net_read_def)
next
  case False
  then obtain c fr q where c: "clients s k = Some c" "peer_deq k (to_client s) = Some (fr, q)" by fastforce
  from c(2) obtain a b where ab: "to_client s = a @ (k, fr) # b" by (rule peer_deq_Some)
  have "reply_ok_to s (k, fr)" using assms(2) ab by (simp add: replies_inv_def)
  then consider (data) m d where "fr = [m, d]" | (busy) m where "fr = [m, ''ERR'', ''509'']" "(k, m) \<in> set (refused s)"
    by (auto simp: reply_ok_to_def)
  then show ?thesis
  proof cases
    case data
    with c pk show ?thesis by (intro handlers_inv_data [OF assms(1) c(1), of _ m d]) (simp_all add: net_read_def)
  next
    case busy
    with c show ?thesis
      by (intro handlers_inv_busy [OF assms(1) c(1) busy(2)]) (simp_all add: net_read_def wire_of_def)
  qed
qed

text \<open>Events that change the handlers of one client without reading a message.\<close>

lemma handlers_inv_store:
  assumes "handlers_inv pk s" and "clients s k = Some c \<or> clients s k = None \<and> c = client_init"
    and "clients s' = (clients s)(k \<mapsto> c1)" "got s' = got s" "refused s' = refused s" "yielded s' = yielded s"
    and "\<And>m h1. store c1 m = Some h1 \<Longrightarrow> rh_future h1 \<in> {Pending, Cancelled} \<or> (\<exists>h. store c m = Some h \<and> same_reply h h1)"
    and "\<And>m h1. store c1 m = Some h1 \<Longrightarrow> queued h1 = [] \<or> (\<exists>h. store c m = Some h \<and> queued h1 = queued h)"
  shows "handlers_inv pk s'"
proof (rule handlers_inv_client [OF assms(1,3)])
  fix m h1 assume h1: "store c1 m = Some h1"
  have mono: "held pk s' x h" if "held pk s x h" for x h using that by (rule held_mono) (simp_all add: assms(4,5))
  from assms(7) [OF h1] show "held pk s' (k, m) h1"
  proof
    assume "\<exists>h. store c m = Some h \<and> same_reply h h1"
    then obtain h where h: "store c m = Some h" "same_reply h h1" by blast
    from h(1) assms(2) have "clients s k = Some c" by (auto simp: client_init_def)
    from mono [OF held_same [OF handlers_held [OF assms(1) this h(1)] h(2)]] show ?thesis .
  qed (auto simp: held_def)
next
  fix x
  have "queue_of s' x = [] \<or> queue_of s' x = queue_of s x"
  proof (cases "fst x = k")
    case True
    show ?thesis
    proof (cases "store c1 (snd x)")
      case None
      with True show ?thesis by (simp add: queue_of_def assms(3))
    next
      case (Some h1)
      from assms(8) [OF Some] show ?thesis
      proof
        assume "\<exists>h. store c (snd x) = Some h \<and> queued h1 = queued h"
        then obtain h where h: "store c (snd x) = Some h" "queued h1 = queued h" by blast
        from h(1) assms(2) have "clients s k = Some c" by (auto simp: client_init_def)
        with True Some h show ?thesis by (simp add: queue_of_def assms(3))
      qed (simp add: queue_of_def assms(3) True Some)
    qed
  qed (simp add: queue_of_def assms(3))
  moreover have "subseq (log_of x (yielded s)) (log_of x (yielded s) @ queue_of s x)" by (simp add: prefix_imp_subseq)
  ultimately show "subseq (log_of x (yielded s') @ queue_of s' x) (chunks_read pk s' x)"
    using handlers_queue [OF assms(1), of x] subseq_order.order_trans
    by (auto simp: assms(6) chunks_read_def assms(4))
qed (simp_all add: assms(4,5))

lemma same_reply_refl [simp]: "same_reply h h"
  by (simp add: same_reply_def)

lemma handlers_inv_fetch:
  assumes "handlers_inv pk s"
  shows "handlers_inv pk (net_fetch cf k m rq ok s)"
proof (cases "clients s k = None \<or> (k, m) \<in> fst ` set (requested s)")
  case True
  with assms show ?thesis by (cases "clients s k") (auto simp: net_fetch_def)
next
  case False
  then obtain c where c: "clients s k = Some c" and new: "(k, m) \<notin> fst ` set (requested s)" by auto
  obtain r c1 where f: "fetch_send ok m c = (r, c1)" by fastforce
  define s' where "s' = net_fetch cf k m rq ok s"
  have s': "clients s' = (clients s)(k \<mapsto> c1)" "got s' = got s" "refused s' = refused s" "yielded s' = yielded s"
    using c new f by (simp_all add: s'_def net_fetch_def split: sum.split)
  have "store c1 = store c \<or> store c1 = (store c)(m \<mapsto> rhandler_init)"
    using f by (auto simp: fetch_send_def split: if_splits)
  then have "handlers_inv pk s'"
    by (intro handlers_inv_store [OF assms disjI1 [OF c] s'])
      (auto simp: rhandler_init_def queued_def split: if_splits)
  then show ?thesis by (simp add: s'_def)
qed

lemma handlers_inv_resume:
  assumes "handlers_inv pk s" and "clients s k = Some c"
  shows "handlers_inv pk (s\<lparr>clients := (clients s)(k \<mapsto> snd (fetch_resume m c))\<rparr>)"
proof -
  have "store (snd (fetch_resume m c)) = store c
      \<or> (\<exists>h. store c m = Some h \<and> store (snd (fetch_resume m c)) = (store c)(m \<mapsto> h\<lparr>rh_has_more := False, rh_future := Cancelled\<rparr>))"
    by (auto simp: fetch_resume_def split: option.split future.split)
  then show ?thesis
    by (intro handlers_inv_store [OF assms(1) disjI1 [OF assms(2)]]) (auto simp: queued_def split: if_splits)
qed

lemma handlers_inv_next:
  assumes "handlers_inv pk s"
  shows "handlers_inv pk (net_next k m s)"
proof (cases "clients s k")
  case (Some c)
  obtain r c1 where n: "next_chunk m c = (r, c1)" by fastforce
  show ?thesis
  proof (cases r)
    case (Inl e)
    have "store c1 = store c \<or> (\<exists>h. store c m = Some h \<and> store c1 = (store c)(m \<mapsto> h\<lparr>rh_has_more := False\<rparr>))"
      using n Inl by (auto simp: next_chunk_def split: option.splits list.splits)
    then have "handlers_inv pk (s\<lparr>clients := (clients s)(k \<mapsto> c1)\<rparr>)"
      by (intro handlers_inv_store [OF assms disjI1 [OF Some]]) (auto simp: queued_def same_reply_def split: if_splits)
    with Some n Inl show ?thesis by (simp add: net_next_def)
  next
    case (Inr x)
    then obtain h q where h: "store c m = Some h" "rh_chunks h = Some (x # q)"
        "store c1 = (store c)(m \<mapsto> h\<lparr>rh_chunks := Some q\<rparr>)"
      using n by (auto simp: next_chunk_def split: option.splits list.splits)
    define s' where "s' = net_next k m s"
    have s': "clients s' = (clients s)(k \<mapsto> c1)" "got s' = got s" "refused s' = refused s" "yielded s' = yielded s @ [((k, m), x)]"
      using Some n Inr by (simp_all add: s'_def net_next_def)
    have mono: "held pk s' y h" if "held pk s y h" for y h using that by (rule held_mono) (simp_all add: s')
    have "handlers_inv pk s'"
    proof (rule handlers_inv_client [OF assms s'(1) _ s'(3)])
      fix m' h' assume h': "store c1 m' = Some h'"
      then obtain h0 where "store c m' = Some h0" "same_reply h0 h'" using h by (auto simp: same_reply_def split: if_splits)
      with mono [OF held_same [OF handlers_held [OF assms Some]]] show "held pk s' (k, m') h'" by blast
    next
      fix y
      have "log_of y (yielded s') @ queue_of s' y = log_of y (yielded s) @ queue_of s y"
        using h Some by (cases y) (auto simp: s' queue_of_def queued_def)
      then show "subseq (log_of y (yielded s') @ queue_of s' y) (chunks_read pk s' y)"
        using handlers_queue [OF assms, of y] by (simp add: chunks_read_def s'(2))
    qed (simp add: s'(2))
    then show ?thesis by (simp add: s'_def)
  qed
qed (use assms in \<open>simp add: net_next_def\<close>)

lemma handlers_inv_step:
  assumes "handlers_inv (nc_pickle cf) s" and "replies_inv (nc_pickle cf) s"
  shows "handlers_inv (nc_pickle cf) (net_step cf s ev)"
proof -
  note keep = handlers_inv_keep [OF assms(1)]
  show ?thesis
  proof (cases ev)
    case (ClientStarts k)
    then show ?thesis
      using assms(1) by (auto intro!: handlers_inv_store [OF assms(1), where ?c1.0 = client_init and c = client_init] simp: client_init_def)
  next
    case (ClientStops k)
    show ?thesis
    proof (cases "clients s k")
      case (Some c)
      then show ?thesis using ClientStops
        by (auto intro!: handlers_inv_store [OF assms(1) disjI1 [OF Some]] simp: terminate_client_def)
    qed (use assms(1) ClientStops in simp)
  next
    case (BrokerPolls wo ko inp)
    then show ?thesis by (auto intro!: keep simp: net_poll_def Let_def split: prod.split)
  next
    case (WorkerTurns w oc e br po inp)
    then show ?thesis by (auto intro!: keep simp: net_turn_def Let_def split: prod.split option.split)
  next
    case (Lost l p)
    then show ?thesis by (cases l) (auto intro!: keep)
  next
    case (ClientResumes k m)
    then show ?thesis using handlers_inv_resume [OF assms(1)] assms(1) by (auto split: option.split)
  qed (use assms in \<open>auto simp: handlers_inv_fetch handlers_inv_read handlers_inv_next intro!: keep\<close>)
qed

section \<open>The network as a step system\<close>

definition net_inv :: "('e, 's) net_conf \<Rightarrow> 's net \<Rightarrow> bool" where
  "net_inv cf s \<longleftrightarrow> (pickle_ok (nc_pickle cf) \<and> message_handler (nc_handler cf) \<longrightarrow>
     calls_inv (nc_pickle cf) s \<and> replies_inv (nc_pickle cf) s \<and> handlers_inv (nc_pickle cf) s)"

interpretation net_sys: step_system "net_step cf" "net_inv cf" for cf
  by unfold_locales (simp add: net_inv_def calls_inv_step replies_inv_step handlers_inv_step)

lemma net_inv_init: "net_inv cf net_init"
  by (simp add: net_inv_def net_init_def calls_inv_def replies_inv_def handlers_inv_def places_def served_calls_def
      underway_def written_for_def queue_of_def chunks_read_def)

lemma net_run_inv:
  assumes "pickle_ok (nc_pickle cf)" and "message_handler (nc_handler cf)"
  shows "calls_inv (nc_pickle cf) (net_run cf evs)" "replies_inv (nc_pickle cf) (net_run cf evs)"
    "handlers_inv (nc_pickle cf) (net_run cf evs)"
  using net_sys.inv_run [OF net_inv_init] assms by (auto simp: net_inv_def net_run_def)

lemma subseq_concat_map: "subseq xs ys \<Longrightarrow> subseq (concat (map f xs)) (concat (map f ys))"
  by (induction rule: list_emb.induct) (auto intro: list_emb_append_mono list_emb_append2)

section \<open>A reply belongs to its request\<close>

lemma filter_unique:
  assumes "x \<in> set xs" and "count (mset (map f xs)) (f x) \<le> 1"
  shows "filter (\<lambda>y. f y = f x) xs = [x]"
proof -
  obtain as bs where ab: "xs = as @ x # bs" using split_list [OF assms(1)] by blast
  with assms(2) have "f x \<notin> f ` set as" "f x \<notin> f ` set bs"
    by (auto simp: count_eq_zero_iff)
  then have "filter (\<lambda>y. f y = f x) as = []" "filter (\<lambda>y. f y = f x) bs = []" by (auto simp: filter_empty_conv image_iff)
  with ab show ?thesis by simp
qed

lemma one_service:
  assumes "calls_inv pk s" and "(w, c, rq, ps) \<in> set (served s)"
  shows "filter (\<lambda>x. fst (snd x) = c) (served s) = [(w, c, rq, ps)]"
proof -
  have "count (mset (served_calls s)) c \<le> count (places s) c" by (simp add: places_def)
  with one_place [OF assms(1), of c] have "count (mset (map (\<lambda>x. fst (snd x)) (served s))) c \<le> 1"
    unfolding served_calls_def by linarith
  with filter_unique [OF assms(2), of "\<lambda>x. fst (snd x)"] show ?thesis by simp
qed

lemma written_single:
  "filter (\<lambda>x. fst (snd x) = c) (served s) = [(w, c, rq, ps)] \<Longrightarrow> written_for c s = ps"
proof -
  have "log_of c (map (\<lambda>x. (fst (snd x), snd (snd (snd x)))) xs)
      = map (\<lambda>x. snd (snd (snd x))) (filter (\<lambda>x. fst (snd x) = c) xs)" for xs :: "(frame \<times> call \<times> request_message \<times> payload list) list"
    by (induction xs) auto
  then show "filter (\<lambda>x. fst (snd x) = c) (served s) = [(w, c, rq, ps)] \<Longrightarrow> ?thesis" by (simp add: written_for_def)
qed

lemma subseq_set: "subseq xs ys \<Longrightarrow> set xs \<subseteq> set ys"
  by (induction rule: list_emb.induct) auto

lemma chunks_no_reply: "chunks_ok ps \<Longrightarrow> PReply st hs d mt \<notin> set ps"
proof (induction ps)
  case (Cons p ps)
  then show ?case by (cases p) auto
qed simp

lemma header_first: "stream_ok ps \<Longrightarrow> PReply st hs d mt \<in> set ps \<Longrightarrow> \<exists>cs. ps = PReply st hs d mt # cs"
  using chunks_no_reply by (cases ps rule: stream_ok.cases) auto

lemma read_frames:
  assumes "replies_inv pk s"
  shows "subseq (log_of c (got s)) (map (dump pk) (written_for c s))"
proof -
  have "subseq (log_of c (got s)) (underway c s)" by (simp add: underway_def prefix_imp_subseq)
  then show ?thesis using underway_written [OF assms] by (rule subseq_order.order_trans)
qed

lemma frame_chunks_dump: "pickle_ok pk \<Longrightarrow> frame_chunks pk (dump pk p) = payload_chunks p"
  by (simp add: frame_chunks_def pickle_ok_def)

lemma chunks_of_written:
  assumes "pickle_ok pk" and "replies_inv pk s"
  shows "subseq (chunks_read pk s c) (concat (map payload_chunks (written_for c s)))"
  using subseq_concat_map [OF read_frames [OF assms(2)], of "frame_chunks pk" c]
  by (simp add: chunks_read_def comp_def frame_chunks_dump [OF assms(1)])

lemma resolved_from_service:
  assumes "pickle_ok pk" and "calls_inv pk s" "replies_inv pk s" "handlers_inv pk s"
    and "clients s k = Some c" "store c m = Some h" "rh_future h = Resolved"
  obtains w rq d cs where "filter (\<lambda>x. fst (snd x) = (k, m)) (served s)
       = [(w, (k, m), rq, PReply (rh_status h) (rh_headers h) d (rh_meta h) # cs)]"
    "((k, m), rq) \<in> set (requested s)" "rh_data h = Some d"
    "subseq (log_of (k, m) (yielded s) @ queued h) (concat (map payload_chunks cs))"
proof -
  from handlers_held [OF assms(4-6)] assms(7) obtain f p where f: "f \<in> set (log_of (k, m) (got s))" "load pk f = Some p" "holds_reply p h"
    by (auto simp: held_def)
  then obtain d where p: "rh_data h = Some d" "p = PReply (rh_status h) (rh_headers h) d (rh_meta h)" by (auto simp: holds_reply_def)
  from f(1) read_frames [OF assms(3)] have "f \<in> set (map (dump pk) (written_for (k, m) s))"
    using subseq_set by fastforce
  then obtain p' where p': "p' \<in> set (written_for (k, m) s)" "f = dump pk p'" by auto
  with f(2) assms(1) have "p' = p" by (simp add: pickle_ok_def)
  with p' have pin: "p \<in> set (written_for (k, m) s)" by simp
  then have "(k, m) \<in> set (served_calls s)" using written_none [of "(k, m)" s] by force
  then obtain w rq ps where sv: "(w, (k, m), rq, ps) \<in> set (served s)" by (auto simp: served_calls_def)
  note one = one_service [OF assms(2) sv]
  note ws = written_single [OF one]
  have "stream_ok ps" using assms(3) sv unfolding replies_inv_def by force
  from header_first [OF this, of "rh_status h" "rh_headers h" d "rh_meta h"] pin ws p(2)
  obtain cs where cs: "ps = p # cs" by auto
  have "((k, m), rq) \<in> set (requested s)" using assms(2) sv unfolding calls_inv_def by force
  moreover have "subseq (log_of (k, m) (yielded s) @ queued h) (concat (map payload_chunks cs))"
    using subseq_order.order_trans [OF handlers_queue [OF assms(4)] chunks_of_written [OF assms(1,3)], of "(k, m)"] ws cs p(2)
    by (simp add: queue_of_def assms(5,6))
  ultimately show ?thesis using one cs p by (intro that [of w rq d cs]) simp_all
qed

text \<open>
  C1: Replies and requests. Whatever the order of events and the losses, when a front-end request
  has its response, exactly one worker handled exactly that request, once; status, headers, data and
  metadata are those of the header message this worker wrote, and the chunks handed on and queued are
  a subsequence, in order, of the chunks it wrote after it. No request gets the answer to another.
\<close>
theorem reply_belongs_to_request:
  assumes "nc_handler cf = qgis_handler g" and "qgis_polite g" and "pickle_ok (nc_pickle cf)"
    and "clients (net_run cf evs) k = Some c" and "store c m = Some h" and "rh_future h = Resolved"
  shows "\<exists>w rq d chunks. filter (\<lambda>x. fst (snd x) = (k, m)) (served (net_run cf evs))
        = [(w, (k, m), rq, PReply (rh_status h) (rh_headers h) d (rh_meta h) # chunks)]
      \<and> ((k, m), rq) \<in> set (requested (net_run cf evs)) \<and> rh_data h = Some d
      \<and> subseq (log_of (k, m) (yielded (net_run cf evs)) @ queued h) (concat (map payload_chunks chunks))"
proof -
  have "message_handler (nc_handler cf)" unfolding assms(1) by (rule qgis_handler_keeps [OF assms(2)])
  note inv = net_run_inv [OF assms(3) this, of evs]
  from resolved_from_service [OF assms(3) inv assms(4-6)] show ?thesis by metis
qed

lemma refused_grows: "set (refused s) \<subseteq> set (refused (net_step cf s ev))"
proof (cases ev)
  case (Lost l p)
  then show ?thesis by (cases l) auto
qed (auto simp: net_fetch_def net_poll_def net_turn_def net_read_def net_next_def Let_def
     split: option.split prod.split list.split sum.split)

lemma refused_stays: "set (refused s) \<subseteq> set (refused (foldl (net_step cf) s evs))"
proof (induction evs arbitrary: s)
  case (Cons ev evs)
  with refused_grows [of s cf ev] show ?case by force
qed simp

lemma net_run_append: "net_run cf (evs @ fs) = foldl (net_step cf) (net_run cf evs) fs"
  by (simp add: net_run_def)

text \<open>
  C10: Refusals. A request whose response is an exception from the network was refused by the broker
  with 509 and is never handled by a worker, neither before nor later, and nothing is ever read for it.
\<close>
theorem refused_never_executed:
  assumes "nc_handler cf = qgis_handler g" and "qgis_polite g" and "pickle_ok (nc_pickle cf)"
    and "clients (net_run cf evs) k = Some c" and "store c m = Some h" and "rh_future h = Failed e"
  shows "e = RequestProxyError ''509''
    \<and> filter (\<lambda>x. fst (snd x) = (k, m)) (served (net_run cf (evs @ later))) = []
    \<and> log_of (k, m) (got (net_run cf (evs @ later))) = []"
proof -
  have mh: "message_handler (nc_handler cf)" unfolding assms(1) by (rule qgis_handler_keeps [OF assms(2)])
  note now = net_run_inv [OF assms(3) mh, of evs] and then' = net_run_inv [OF assms(3) mh, of "evs @ later"]
  from handlers_held [OF now(3) assms(4,5)] assms(6) have e: "e = RequestProxyError ''509''" "(k, m) \<in> set (refused (net_run cf evs))"
    by (auto simp: held_def)
  with refused_stays have "(k, m) \<in> set (refused (net_run cf (evs @ later)))" unfolding net_run_append by blast
  from refused_not_served [OF then'(1) this] have ns: "(k, m) \<notin> set (served_calls (net_run cf (evs @ later)))" .
  then have "filter (\<lambda>x. fst (snd x) = (k, m)) (served (net_run cf (evs @ later))) = []"
    by (force simp: filter_empty_conv served_calls_def)
  with e(1) nothing_underway [OF then'(2) ns] show ?thesis by (simp add: underway_def)
qed

section \<open>A run\<close>

text \<open>A codec for the runs: an object is the number that encodes it, in unary.\<close>

instance hvalue :: countable by countable_datatype

instance payload :: countable by countable_datatype

definition unary :: "nat \<Rightarrow> frame" where
  "unary n = replicate n CHR ''1''"

definition unary_pickle :: pickle where
  "unary_pickle = \<lparr>dump_request = (\<lambda>r. unary (to_nat (rq_query r, rq_headers r, rq_method r, rq_data r))),
     load_request = (\<lambda>f. case from_nat (length f) of (q, hs, me, d) \<Rightarrow>
        Some \<lparr>rq_query = q, rq_headers = hs, rq_method = me, rq_data = d\<rparr>),
     dump = (\<lambda>p. unary (to_nat p)), load = (\<lambda>f. Some (from_nat (length f)))\<rparr>"

lemma unary_pickle_ok: "pickle_ok unary_pickle"
  by (simp add: pickle_ok_def unary_pickle_def unary_def)

lemmas unary_loads = unary_pickle_ok [unfolded pickle_ok_def]

definition sample_conf :: "nat \<Rightarrow> (turn_env, worker) net_conf" where
  "sample_conf n = \<lparr>nc_pickle = unary_pickle, nc_maxqueue = n, nc_timeout = 3000,
     nc_handler = qgis_handler idle_qgis, nc_post = qgis_callback\<rparr>"

definition sample_env :: turn_env where
  "sample_env = \<lparr>te_env = env_town, te_meta = None, te_now = 0, te_later = 0\<rparr>"

definition sample_turn :: "unit worker_input" where
  "sample_turn = \<lparr>received = Again, handle = (\<lambda>_ h. (None, h)), socket_up = (\<lambda>_. True), busy_sent = True, done_sent = True,
     broadcast = None, report_data = ()\<rparr>"

definition sample_poll :: poll_input where
  "sample_poll = \<lparr>backend_msg = None, frontend_msg = None, recv_time = 1, now_time = 2, reply_ok = True, busy_ok = True,
     worker_ok = (\<lambda>_. True), pick = (\<lambda>_. 0)\<rparr>"

definition plain_message :: request_message where
  "plain_message = \<lparr>rq_query = ''?SERVICE=WMS'', rq_headers = [], rq_method = ''GET'', rq_data = None\<rparr>"

definition sample_events :: "(turn_env, worker, unit) net_event list" where
  "sample_events =
     [ClientStarts ''c'', WorkerStarts ''w'' \<lparr>enabled = True, cl_pid = 7, cl_busy = False\<rparr> (sample_worker False),
      Fetch ''c'' ''m'' plain_message True,
      WorkerTurns ''w'' Silence sample_env False False sample_turn,
      BrokerPolls (Some ''w'') (Some ''c'') sample_poll,
      WorkerTurns ''w'' Message sample_env False False sample_turn,
      BrokerPolls (Some ''w'') None sample_poll, BrokerPolls (Some ''w'') None sample_poll,
      ClientReads ''c'']"

definition answered :: "frame \<Rightarrow> frame \<Rightarrow> zhandler" where
  "answered k m = (zhandler_init k m (\<lambda>_. True))\<lparr>hd_headers := [(''Content-Length'', HInt 3)], header_written := True,
     sent := [(k, m, PReply 200 [(''Content-Length'', HInt 3)] ''map'' None)], writes := 1\<rparr>"

lemma sample_handler:
  "fst (qgis_handler idle_qgis sample_env plain_message (sample_worker False) (zhandler_init k m (\<lambda>_. True))) = (None, answered k m)"
  by (simp add: qgis_handler_def handle_message_def plain_message_def make_request_def lstrip_chars_def HTTP_METHODS_def
      request_location_def nonempty_def debug_request_def message_body_def idle_qgis_def handle_qgis_request_def handle_request_def
      sample_env_def rs_simps response_init_def zhandler_init_def rs_write_def get_metadata_def sample_worker_def answered_def)

lemma sample_turn_waits:
  "live_workers s ''w'' = Some (sc, st) \<Longrightarrow> \<not> cl_busy sc \<Longrightarrow>
     net_turn (sample_conf n) ''w'' Silence e False False sample_turn s
     = s\<lparr>live_workers := (live_workers s)(''w'' \<mapsto> (sc, st)), from_worker := from_worker s @ [(''w'', [WORKER_READY])]\<rparr>"
  by (simp add: net_turn_def take_request_def worker_turn_def notify_done_def sample_turn_def)

lemma sample_turn_serves:
  assumes "live_workers s ''w'' = Some (sc, sample_worker False)" "\<not> cl_busy sc"
    and "to_worker s = [(''w'', k, m, dump_request unary_pickle plain_message)]"
  shows "net_turn (sample_conf n) ''w'' Message sample_env False False sample_turn s
     = s\<lparr>live_workers := (live_workers s)(''w'' \<mapsto> (sc\<lparr>cl_busy := False\<rparr>,
           snd (qgis_handler idle_qgis sample_env plain_message (sample_worker False) (zhandler_init k m (\<lambda>_. True))))), to_worker := [],
         from_worker := from_worker s @ [(''w'', [WORKER_READY]), (''w'', [k, m, dump unary_pickle (PReply 200 [(''Content-Length'', HInt 3)] ''map'' None)])],
         served := served s @ [(''w'', (k, m), plain_message, [PReply 200 [(''Content-Length'', HInt 3)] ''map'' None])]\<rparr>"
  using assms unary_loads
  by (simp add: net_turn_def take_request_def worker_turn_def notify_done_def notify_busy_def sample_turn_def sample_conf_def
      serve_request_def sample_handler answered_def Let_def)

lemmas poll_simps = net_poll_def hear_def broker_iter_def sample_poll_def handle_backend_def handle_frontend_def WORKER_READY_def

lemma poll_ready:
  "from_worker s = (''w'', [WORKER_READY]) # fw \<Longrightarrow> the_broker s = \<lparr>workers = [], waiting = []\<rparr> \<Longrightarrow>
     net_poll cf (Some ''w'') None sample_poll s = s\<lparr>the_broker := \<lparr>workers = [''w''], waiting = []\<rparr>, from_worker := fw\<rparr>"
  by (simp add: poll_simps)

lemma poll_reply:
  "from_worker s = (''w'', [''c'', m, d]) # fw \<Longrightarrow> waiting (the_broker s) = [] \<Longrightarrow>
     net_poll cf (Some ''w'') None sample_poll s = s\<lparr>from_worker := fw, to_client := to_client s @ [(''c'', [m, d])]\<rparr>"
  by (simp add: poll_simps)

lemma poll_request:
  assumes "from_worker s = (''w'', [WORKER_READY]) # fw" "the_broker s = \<lparr>workers = [], waiting = []\<rparr>"
    and "to_broker s = [(''c'', m, d)]"
  shows "net_poll (sample_conf 10) (Some ''w'') (Some ''c'') sample_poll s
     = s\<lparr>from_worker := fw, to_broker := [], to_worker := to_worker s @ [(''w'', ''c'', m, d)]\<rparr>"
  using assms by (simp add: poll_simps dq_appendleft_def dispatch.simps dq_pop_def send_request.simps set_pop_def sample_conf_def)

lemma poll_refused:
  assumes "the_broker s = \<lparr>workers = [], waiting = []\<rparr>" and "to_broker s = [(''c'', m, d)]"
  shows "net_poll (sample_conf 0) None (Some ''c'') sample_poll s
     = s\<lparr>to_broker := [], to_client := to_client s @ [(''c'', [m, ''ERR'', ''509''])], refused := refused s @ [(''c'', m)]\<rparr>"
  using assms by (simp add: poll_simps sample_conf_def)

definition waiting_client :: client where
  "waiting_client = snd (fetch_send True ''m'' client_init)"

lemma sample_start:
  "net_run (sample_conf n) (take 3 sample_events) = net_init\<lparr>clients := [''c'' \<mapsto> waiting_client],
     live_workers := [''w'' \<mapsto> (\<lparr>enabled = True, cl_pid = 7, cl_busy = False\<rparr>, sample_worker False)],
     to_broker := [(''c'', ''m'', dump_request unary_pickle plain_message)], requested := [((''c'', ''m''), plain_message)]\<rparr>"
  by (simp add: net_run_def sample_events_def net_init_def net_fetch_def fetch_send_def client_init_def waiting_client_def sample_conf_def)

definition sample_end :: "worker net" where
  "sample_end = net_run (sample_conf 10) sample_events"

lemma sample_run:
  "clients sample_end = [''c'' \<mapsto> client_recv ''m'' (Pickled (PReply 200 [(''Content-Length'', HInt 3)] ''map'' None)) [] waiting_client]"
proof -
  define s3 :: "worker net" where "s3 = net_init\<lparr>clients := [''c'' \<mapsto> waiting_client],
     live_workers := [''w'' \<mapsto> (\<lparr>enabled = True, cl_pid = 7, cl_busy = False\<rparr>, sample_worker False)],
     to_broker := [(''c'', ''m'', dump_request unary_pickle plain_message)], requested := [((''c'', ''m''), plain_message)]\<rparr>"
  have "sample_end = foldl (net_step (sample_conf 10)) s3 (drop 3 sample_events)"
    unfolding s3_def sample_start [of 10, symmetric] sample_end_def net_run_def by (simp flip: foldl_append)
  moreover have "clients (foldl (net_step (sample_conf 10)) s3 (drop 3 sample_events))
      = [''c'' \<mapsto> client_recv ''m'' (Pickled (PReply 200 [(''Content-Length'', HInt 3)] ''map'' None)) [] waiting_client]"
    using unary_loads
    by (simp add: sample_events_def s3_def net_init_def sample_turn_waits sample_turn_serves poll_ready poll_reply poll_request
        net_read_def wire_of_def, simp add: sample_conf_def)
  ultimately show ?thesis by simp
qed

lemma sample_resolved:
  "\<exists>h. store (client_recv ''m'' (Pickled (PReply 200 hs d mt)) [] waiting_client) ''m'' = Some h \<and> rh_future h = Resolved \<and> rh_status h = 200"
  by (simp add: waiting_client_def client_recv_def rh_set_result_def rhandler_init_def future_done_def fetch_send_def client_init_def
      rh_done_def Let_def)

theorem reply_belongs_to_request_witness:
  "\<exists>w rq hs d mt chunks. filter (\<lambda>x. fst (snd x) = (''c'', ''m'')) (served sample_end)
      = [(w, (''c'', ''m''), rq, PReply 200 hs d mt # chunks)]"
proof -
  obtain h where h: "store (client_recv ''m'' (Pickled (PReply 200 [(''Content-Length'', HInt 3)] ''map'' None)) [] waiting_client) ''m'' = Some h"
    "rh_future h = Resolved" "rh_status h = 200" using sample_resolved by blast
  have "nc_handler (sample_conf 10) = qgis_handler idle_qgis" "pickle_ok (nc_pickle (sample_conf 10))"
    by (simp_all add: sample_conf_def unary_pickle_ok)
  from reply_belongs_to_request [OF this(1) idle_qgis_polite this(2) _ h(1,2), of sample_events "''c''"] sample_run h(3)
  show ?thesis unfolding sample_end_def by simp metis
qed

definition refused_events :: "(turn_env, worker, unit) net_event list" where
  "refused_events = take 3 sample_events @ [BrokerPolls None (Some ''c'') sample_poll, ClientReads ''c'']"

lemma refused_run:
  "clients (net_run (sample_conf 0) refused_events) = [''c'' \<mapsto> client_recv ''m'' (Raw ''ERR'') [''509''] waiting_client]"
proof -
  define s3 :: "worker net" where "s3 = net_init\<lparr>clients := [''c'' \<mapsto> waiting_client],
     live_workers := [''w'' \<mapsto> (\<lparr>enabled = True, cl_pid = 7, cl_busy = False\<rparr>, sample_worker False)],
     to_broker := [(''c'', ''m'', dump_request unary_pickle plain_message)], requested := [((''c'', ''m''), plain_message)]\<rparr>"
  have "net_run (sample_conf 0) refused_events
      = foldl (net_step (sample_conf 0)) s3 [BrokerPolls None (Some ''c'') sample_poll, ClientReads ''c'']"
    unfolding s3_def sample_start [of 0, symmetric] refused_events_def net_run_def by simp
  moreover have "clients (foldl (net_step (sample_conf 0)) s3 [BrokerPolls None (Some ''c'') sample_poll, ClientReads ''c''])
      = [''c'' \<mapsto> client_recv ''m'' (Raw ''ERR'') [''509''] waiting_client]"
    by (simp add: s3_def net_init_def poll_refused net_read_def wire_of_def)
  ultimately show ?thesis by simp
qed

theorem refused_never_executed_witness:
  "filter (\<lambda>x. fst (snd x) = (''c'', ''m'')) (served (net_run (sample_conf 0) (refused_events @ drop 3 sample_events))) = []"
proof -
  let ?c = "client_recv ''m'' (Raw ''ERR'') [''509''] waiting_client"
  have h: "store ?c ''m'' = Some (rhandler_init\<lparr>rh_future := Failed (RequestProxyError ''509'')\<rparr>)"
    by (simp add: waiting_client_def client_recv_def rh_set_exception_def rhandler_init_def future_done_def fetch_send_def
        client_init_def rh_done_def Let_def)
  have "nc_handler (sample_conf 0) = qgis_handler idle_qgis" "pickle_ok (nc_pickle (sample_conf 0))"
    by (simp_all add: sample_conf_def unary_pickle_ok)
  from refused_never_executed [OF this(1) idle_qgis_polite this(2) _ h, of refused_events "''c''"] refused_run
  show ?thesis by (simp add: rhandler_init_def)
qed

section \<open>A heartbeat that crosses a dispatch\<close>

text \<open>
  A worker that waits says \<open>ready\<close> again every second. When such a message is under way while the
  broker dispatches to the worker, the worker is entered as available although it is busy. Two workers,
  two requests: both go to the first one while the second is idle. The pickled request does not matter.
\<close>

definition crossing_conf :: "(unit, unit) net_conf" where
  "crossing_conf = \<lparr>nc_pickle = \<lparr>dump_request = (\<lambda>r. ''req''), load_request = (\<lambda>f. None), dump = (\<lambda>p. ''rep''), load = (\<lambda>f. None)\<rparr>,
     nc_maxqueue = 10, nc_timeout = 3000, nc_handler = (\<lambda>_ rq st h. (base_handle_message rq h, st)), nc_post = (\<lambda>_ _ st. st)\<rparr>"

definition crossing_events :: "(unit, unit, unit) net_event list" where
  "crossing_events =
     (let sc = \<lparr>enabled = True, cl_pid = 7, cl_busy = False\<rparr>; last = sample_poll\<lparr>pick := (\<lambda>ws. length ws - 1)\<rparr>
      in [ClientStarts ''c'', WorkerStarts ''w'' sc (), WorkerStarts ''v'' sc (),
          WorkerTurns ''w'' Silence () False False sample_turn, WorkerTurns ''v'' Silence () False False sample_turn,
          BrokerPolls (Some ''w'') None sample_poll, BrokerPolls (Some ''v'') None sample_poll,
          WorkerTurns ''w'' Silence () False False sample_turn,
          Fetch ''c'' ''m1'' plain_message True, BrokerPolls None (Some ''c'') sample_poll,
          Fetch ''c'' ''m2'' plain_message True, BrokerPolls (Some ''w'') (Some ''c'') last])"

theorem busy_worker_gets_request:
  "to_worker (net_run crossing_conf crossing_events) = [(''w'', ''c'', ''m1'', ''req''), (''w'', ''c'', ''m2'', ''req'')]
   \<and> workers (the_broker (net_run crossing_conf crossing_events)) = [''v'']"
  by code_simp

end
