(* ===== verification/NetworkLive.thy ===== *)
theory NetworkLive
  imports NetworkProps
begin

text \<open>
  A request that nothing disturbs: from a network at rest with a ready worker, the steps one after
  the other bring every byte that QGIS writes to the front end, through the client, the broker, the
  worker, the broker and the client again.
\<close>

section \<open>The steps of an exchange\<close>

definition smooth_poll :: "rat \<Rightarrow> poll_input" where
  "smooth_poll t = \<lparr>backend_msg = None, frontend_msg = None, recv_time = t, now_time = t, reply_ok = True, busy_ok = True,
     worker_ok = (\<lambda>_. True), pick = (\<lambda>_. 0)\<rparr>"

text \<open>At rest: the links are empty, nothing waits, the worker \<open>w\<close> is alive and available.\<close>

definition at_rest :: "frame \<Rightarrow> 's net \<Rightarrow> bool" where
  "at_rest w s \<longleftrightarrow> to_broker s = [] \<and> to_worker s = [] \<and> from_worker s = [] \<and> to_client s = []
     \<and> the_broker s = \<lparr>workers = [w], waiting = []\<rparr> \<and> live_workers s w \<noteq> None"

definition exchange ::
  "frame \<Rightarrow> frame \<Rightarrow> frame \<Rightarrow> request_message \<Rightarrow> rat \<Rightarrow> 'e \<Rightarrow> 'd worker_input \<Rightarrow> nat \<Rightarrow> ('e, 's, 'd) net_event list" where
  "exchange k m w rq t e i n =
     [Fetch k m rq True, BrokerPolls None (Some k) (smooth_poll t), WorkerTurns w Message e False False i]
     @ replicate (Suc n) (BrokerPolls (Some w) None (smooth_poll t)) @ replicate n (ClientReads k)"

lemmas smooth_simps = net_poll_def hear_def broker_iter_def smooth_poll_def handle_backend_def handle_frontend_def WORKER_READY_def

lemma smooth_request:
  assumes "at_rest w s" and "0 < nc_maxqueue cf" and "0 \<le> nc_timeout cf"
  shows "net_poll cf None (Some k) (smooth_poll t) (s\<lparr>to_broker := [(k, m, d)]\<rparr>)
     = s\<lparr>the_broker := \<lparr>workers = [], waiting = []\<rparr>, to_worker := [(w, k, m, d)]\<rparr>"
  using assms by (simp add: at_rest_def smooth_simps dq_appendleft_def dispatch.simps dq_pop_def send_request.simps set_pop_def)

lemma smooth_ready:
  "from_worker s = (w, [WORKER_READY]) # fw \<Longrightarrow> the_broker s = \<lparr>workers = [], waiting = []\<rparr> \<Longrightarrow>
     net_poll cf (Some w) None (smooth_poll t) s = s\<lparr>the_broker := \<lparr>workers = [w], waiting = []\<rparr>, from_worker := fw\<rparr>"
  by (simp add: smooth_simps)

lemma smooth_reply:
  "from_worker s = (w, [k, m, d]) # fw \<Longrightarrow> waiting (the_broker s) = [] \<Longrightarrow> k \<noteq> WORKER_READY \<Longrightarrow>
     net_poll cf (Some w) None (smooth_poll t) s = s\<lparr>from_worker := fw, to_client := to_client s @ [(k, [m, d])]\<rparr>"
  by (simp add: smooth_simps)

lemma smooth_replies:
  assumes "from_worker s = map (\<lambda>p. (w, [k, m, dump pk p])) ps" and "waiting (the_broker s) = []" and "k \<noteq> WORKER_READY"
  shows "foldl (net_step cf) s (replicate (length ps) (BrokerPolls (Some w) None (smooth_poll t)))
     = s\<lparr>from_worker := [], to_client := to_client s @ map (\<lambda>p. (k, [m, dump pk p])) ps\<rparr>"
  using assms(1,2)
proof (induction ps arbitrary: s)
  case (Cons p ps)
  have "net_step cf s (BrokerPolls (Some w) None (smooth_poll t))
      = s\<lparr>from_worker := map (\<lambda>p. (w, [k, m, dump pk p])) ps, to_client := to_client s @ [(k, [m, dump pk p])]\<rparr>"
  proof -
    have "from_worker s = (w, [k, m, dump pk p]) # map (\<lambda>p. (w, [k, m, dump pk p])) ps" using Cons.prems(1) by simp
    from smooth_reply [OF this Cons.prems(2) assms(3)] show ?thesis by simp
  qed
  with Cons.IH [of "s\<lparr>from_worker := map (\<lambda>p. (w, [k, m, dump pk p])) ps, to_client := to_client s @ [(k, [m, dump pk p])]\<rparr>"]
    Cons.prems(2) show ?case by simp
qed simp

lemma smooth_reads:
  assumes "to_client s = map (\<lambda>p. (k, [m, dump (nc_pickle cf) p])) ps" and "clients s k = Some c" and "pickle_ok (nc_pickle cf)"
  shows "clients (foldl (net_step cf) s (replicate (length ps) (ClientReads k))) k = Some (deliver m ps c)"
  using assms(1,2)
proof (induction ps arbitrary: s c)
  case (Cons p ps)
  define s1 where "s1 = net_step cf s (ClientReads k)"
  have "to_client s1 = map (\<lambda>p. (k, [m, dump (nc_pickle cf) p])) ps" "clients s1 k = Some (client_recv m (Pickled p) [] c)"
    using Cons.prems assms(3) by (simp_all add: s1_def net_read_def wire_of_def pickle_ok_def)
  from Cons.IH [OF this] show ?case by (simp add: s1_def)
qed simp

text \<open>The exchange delivers the messages of the worker, all of them and in order, to the client that asked.\<close>

lemma smooth_turn:
  fixes i :: "'d worker_input" and cf :: "('e, 's) net_conf"
  assumes "pickle_ok (nc_pickle cf)" and "message_handler (nc_handler cf)" and "live_workers s w = Some (sc, st)"
    and "to_worker s = [(w, k, m, dump_request (nc_pickle cf) rq)]" and "from_worker s = []"
    and ps: "ps = h_payloads (snd (serve_request (\<lambda>rq h. fst (nc_handler cf e rq st h)) (zhandler_init k m (socket_up i)) rq))"
    and s': "s' = net_step cf s (WorkerTurns w Message e False False i)"
  shows "from_worker s' = (w, [WORKER_READY]) # map (\<lambda>p. (w, [k, m, dump (nc_pickle cf) p])) ps"
    and "the_broker s' = the_broker s" and "to_client s' = to_client s" and "clients s' = clients s"
proof -
  have take: "take_request (nc_pickle cf) w Message s = (Request k m rq, [])"
    using assms(1,4) by (simp add: take_request_def pickle_ok_def)
  define j where "j = i\<lparr>received := Request k m rq, handle := (\<lambda>rq h. fst (nc_handler cf e rq st h))\<rparr>"
  obtain go sc1 lw and acts :: "'d waction list" where wt: "worker_turn False False sc j = (go, sc1, acts)"
    and t: "s' = s\<lparr>live_workers := lw, to_worker := (if go then [] else filter (\<lambda>x. fst x \<noteq> w) []),
        from_worker := from_worker s @ map (Pair w) (concat (map (out_frames (nc_pickle cf)) acts)),
        served := served s @ [(w, (k, m), rq, concat (map out_payloads acts))]\<rparr>"
    unfolding s' net_step.simps j_def
    by (rule net_turn_cases [OF assms(3) take, where br = False and po = False and inp = i and e = e]) simp
  have rcv: "received j = Request k m rq" "handle j = (\<lambda>rq h. fst (nc_handler cf e rq st h))" "socket_up j = socket_up i"
    by (simp_all add: j_def)
  have "concat (map out_payloads acts) = ps"
    unfolding ps by (rule turn_outputs(2) [OF wt rcv(1)]) (simp add: rcv)
  with message_handler.served_stream(1) [OF assms(2) wt rcv(1,2), of "nc_pickle cf"]
  show "from_worker s' = (w, [WORKER_READY]) # map (\<lambda>p. (w, [k, m, dump (nc_pickle cf) p])) ps"
    using t assms(5) by (simp add: comp_def)
  show "the_broker s' = the_broker s" "to_client s' = to_client s" "clients s' = clients s" by (simp_all add: t)
qed

lemma exchange_delivers:
  fixes i :: "'d worker_input" and cf :: "('e, 's) net_conf"
  assumes "at_rest w s" and "0 < nc_maxqueue cf" and "0 \<le> nc_timeout cf" and "pickle_ok (nc_pickle cf)"
    and "message_handler (nc_handler cf)" and "k \<noteq> WORKER_READY"
    and "clients s k = Some c" and "(k, m) \<notin> fst ` set (requested s)" and "m \<notin> set (client.table c)"
    and "live_workers s w = Some (sc, st)"
    and "ps = h_payloads (snd (serve_request (\<lambda>rq h. fst (nc_handler cf e rq st h)) (zhandler_init k m (socket_up i)) rq))"
  shows "clients (foldl (net_step cf) s (exchange k m w rq t e i (length ps))) k = Some (deliver m ps (snd (fetch_send True m c)))"
proof -
  define pk where "pk = nc_pickle cf"
  define c1 where "c1 = snd (fetch_send True m c)"
  define s1 where "s1 = s\<lparr>clients := (clients s)(k \<mapsto> c1), requested := requested s @ [((k, m), rq)]\<rparr>"
  have fetch: "net_step cf s (Fetch k m rq True :: ('e, 's, 'd) net_event) = s1\<lparr>to_broker := [(k, m, dump_request pk rq)]\<rparr>"
    using assms(1,7,8,9) by (simp add: net_fetch_def fetch_send_def s1_def c1_def pk_def at_rest_def)
  have r1: "at_rest w s1" using assms(1) by (simp add: s1_def at_rest_def)
  define s2 where "s2 = s1\<lparr>the_broker := \<lparr>workers = [], waiting = []\<rparr>, to_worker := [(w, k, m, dump_request pk rq)]\<rparr>"
  have poll: "net_step cf (s1\<lparr>to_broker := [(k, m, dump_request pk rq)]\<rparr>) (BrokerPolls None (Some k) (smooth_poll t) :: ('e, 's, 'd) net_event) = s2"
    using smooth_request [OF r1 assms(2,3)] by (simp add: s2_def)
  define s3 where "s3 = net_step cf s2 (WorkerTurns w Message e False False i)"
  have live: "live_workers s2 w = Some (sc, st)" using assms(10) by (simp add: s2_def s1_def)
  have s2: "to_worker s2 = [(w, k, m, dump_request (nc_pickle cf) rq)]" "from_worker s2 = []"
    using r1 by (simp_all add: s2_def pk_def at_rest_def)
  note s3 = smooth_turn [OF assms(4,5) live s2 assms(11) s3_def, folded pk_def]
  have "from_worker s3 = (w, [WORKER_READY]) # map (\<lambda>p. (w, [k, m, dump pk p])) ps" by (rule s3(1))
  moreover have b3: "the_broker s3 = \<lparr>workers = [], waiting = []\<rparr>" "to_client s3 = []" "clients s3 k = Some c1"
    using s3(2-4) r1 by (simp_all add: s2_def at_rest_def) (simp add: s1_def)
  ultimately have ready: "net_step cf s3 (BrokerPolls (Some w) None (smooth_poll t) :: ('e, 's, 'd) net_event)
      = s3\<lparr>the_broker := \<lparr>workers = [w], waiting = []\<rparr>, from_worker := map (\<lambda>p. (w, [k, m, dump pk p])) ps\<rparr>" (is "_ = ?s4")
    by (simp add: smooth_ready)
  define s5 where "s5 = ?s4\<lparr>from_worker := [], to_client := map (\<lambda>p. (k, [m, dump pk p])) ps\<rparr>"
  have replies: "foldl (net_step cf) ?s4 (replicate (length ps) (BrokerPolls (Some w) None (smooth_poll t) :: ('e, 's, 'd) net_event)) = s5"
    using smooth_replies [of ?s4 w k m pk ps cf t] assms(6) b3(2) by (simp add: s5_def)
  have "foldl (net_step cf) s (exchange k m w rq t e i (length ps)) = foldl (net_step cf) s5 (replicate (length ps) (ClientReads k :: ('e, 's, 'd) net_event))"
    unfolding exchange_def replicate_Suc
    by (simp only: foldl_append foldl_Cons foldl_Nil append_Cons append_Nil fetch poll s3_def [symmetric] ready replies)
  moreover have "to_client s5 = map (\<lambda>p. (k, [m, dump (nc_pickle cf) p])) ps" "clients s5 k = Some c1"
    using b3 by (simp_all add: s5_def pk_def)
  ultimately show ?thesis using smooth_reads [OF _ _ assms(4)] by (simp add: c1_def)
qed

section \<open>The property\<close>

lemma registered_by_fetch:
  "m \<notin> set (client.table c) \<Longrightarrow> registered m rhandler_init (snd (fetch_send True m c))"
  by (simp add: registered_def fetch_send_def)

text \<open>
  C2: An undisturbed request. When QGIS answers a request by any interleaving of writes and flushes
  with status 200, the exchange with an available worker ends with exactly the bytes written at the
  front end, whatever the number of chunks: the steps that bring them are one turn of the worker, one
  poll of the broker per message and one read of the client per message.
\<close>
theorem undisturbed_request_answered:
  assumes "nc_handler cf = qgis_handler g" and "qgis_polite g" and "pickle_ok (nc_pickle cf)"
    and "0 < nc_maxqueue cf" and "0 \<le> nc_timeout cf"
    and "at_rest w s" and "live_workers s w = Some (sc, st)" and "k \<noteq> WORKER_READY"
    and "clients s k = Some c" and "(k, m) \<notin> fst ` set (requested s)" and "m \<notin> set (client.table c)"
    and "fst (qgis_handler g e rq st (zhandler_init k m (socket_up i))) = (None, rs_h (snd (finish (run_rops ops r))))"
    and "fresh r" and "statusCode r = 200" and "n = length (serve ops r)"
  shows "\<exists>c'. clients (foldl (net_step cf) s (exchange k m w rq t e i n)) k = Some c'
     \<and> read_body n m c' = (if Flush \<in> set ops then 206 else 200, written ops, None)"
proof -
  have mh: "message_handler (nc_handler cf)" unfolding assms(1) by (rule qgis_handler_keeps [OF assms(2)])
  let ?c = "snd (fetch_send True m c)"
  have "serve ops r = h_payloads (snd (serve_request (\<lambda>rq h. fst (nc_handler cf e rq st h)) (zhandler_init k m (socket_up i)) rq))"
    using assms(12) by (simp add: assms(1) serve_request_def serve_def)
  from exchange_delivers [OF assms(6,4,5,3) mh assms(8-11) assms(7) this, of t]
  have "clients (foldl (net_step cf) s (exchange k m w rq t e i n)) k = Some (deliver m (serve ops r) ?c)"
    unfolding assms(15) .
  moreover have "length (serve ops r) \<le> n" by (simp add: assms(15))
  from stream_delivered [OF assms(13,14) registered_by_fetch [OF assms(11)] this]
  have "read_body n m (deliver m (serve ops r) ?c) = (if Flush \<in> set ops then 206 else 200, written ops, None)" by blast
  ultimately show ?thesis by blast
qed

lemma run_rops_uses: "rs_uses r0 r \<Longrightarrow> rs_uses r0 (run_rops ops r)"
  by (induction ops r rule: run_rops.induct) (auto intro: uses_write uses_flush)

text \<open>A QGIS that answers every request with the same program.\<close>

definition writing_qgis :: "rop list \<Rightarrow> qgis" where
  "writing_qgis ops = idle_qgis\<lparr>qg_handle := (\<lambda>q p r. finish (run_rops ops r))\<rparr>"

lemma writing_qgis_polite: "qgis_polite (writing_qgis ops)"
  using idle_qgis_polite by (auto simp: qgis_polite_def writing_qgis_def intro!: uses_finish run_rops_uses uses_none)

definition rested_net :: "worker net" where
  "rested_net = net_init\<lparr>clients := [''c'' \<mapsto> client_init], the_broker := \<lparr>workers = [''w''], waiting = []\<rparr>,
     live_workers := [''w'' \<mapsto> (\<lparr>enabled = True, cl_pid = 7, cl_busy = False\<rparr>, sample_worker False)]\<rparr>"

definition chunked :: "rop list" where
  "chunked = [Write ''ab'', Flush, Write ''c'', Flush, Write ''d'']"

definition chunked_conf :: "(turn_env, worker) net_conf" where
  "chunked_conf = (sample_conf 10)\<lparr>nc_handler := qgis_handler (writing_qgis chunked)\<rparr>"

theorem undisturbed_request_answered_witness:
  "\<exists>n c'. clients (foldl (net_step chunked_conf) rested_net (exchange ''c'' ''m'' ''w'' plain_message 1 sample_env sample_turn n)) ''c'' = Some c'
     \<and> read_body n ''m'' c' = (206, ''abcd'', None)"
proof -
  let ?r = "response_init (zhandler_init ''c'' ''m'' (\<lambda>_. True)) None"
  have h: "fst (qgis_handler (writing_qgis chunked) sample_env plain_message (sample_worker False) (zhandler_init ''c'' ''m'' (socket_up sample_turn)))
      = (None, rs_h (snd (finish (run_rops chunked ?r))))"
    by (simp add: qgis_handler_def handle_message_def plain_message_def make_request_def lstrip_chars_def HTTP_METHODS_def
      request_location_def nonempty_def debug_request_def message_body_def idle_qgis_def writing_qgis_def handle_qgis_request_def
      handle_request_def sample_env_def rs_simps response_init_def zhandler_init_def rs_write_def get_metadata_def sample_worker_def
      sample_turn_def chunked_def)
  have r: "fresh ?r" "statusCode ?r = 200"
    by (simp_all add: fresh_def calm_def get_metadata_def response_init_def zhandler_init_def statusCode_def)
  have c: "nc_handler chunked_conf = qgis_handler (writing_qgis chunked)" "pickle_ok (nc_pickle chunked_conf)"
    "0 < nc_maxqueue chunked_conf" "0 \<le> nc_timeout chunked_conf"
    by (simp_all add: chunked_conf_def sample_conf_def unary_pickle_ok)
  have s: "at_rest ''w'' rested_net" "clients rested_net ''c'' = Some client_init" "(''c'', ''m'') \<notin> fst ` set (requested rested_net)"
    "live_workers rested_net ''w'' = Some (\<lparr>enabled = True, cl_pid = 7, cl_busy = False\<rparr>, sample_worker False)"
    by (simp_all add: at_rest_def rested_net_def net_init_def)
  have k: "''c'' \<noteq> WORKER_READY" "''m'' \<notin> set (client.table client_init)" by (simp_all add: WORKER_READY_def client_init_def)
  from undisturbed_request_answered [OF c(1) writing_qgis_polite c(2-4) s(1,4) k(1) s(2,3) k(2) h r refl, of 1]
  show ?thesis by (auto simp: chunked_def)
qed

end
