(* ===== verification/NetworkSpec.thy ===== *)
theory NetworkSpec
  imports NetworkProps
begin

text \<open>
  What the network of \<open>Network\<close> promises to the front end, as an abstract machine without sockets,
  queues, identities or workers' loops: a book of calls, each open, executed or declined, and
  what has come back for each. Every event of the network is one step of the machine or none.
\<close>

section \<open>The abstract machine\<close>

text \<open>\<open>Muddled\<close> is the state of a call of which more has happened than should; no step leads there.\<close>

datatype call_state = Asked request_message | Executed frame request_message "payload list" | Declined | Muddled

record rpc =
  book :: "call \<Rightarrow> call_state option"
  answered_with :: "call \<Rightarrow> frame list"
  handed_on :: "call \<Rightarrow> (string \<times> bool) list"

definition rpc_init :: rpc where
  "rpc_init = \<lparr>book = (\<lambda>_. None), answered_with = (\<lambda>_. []), handed_on = (\<lambda>_. [])\<rparr>"

text \<open>
  A call is made once; while it is open it may be executed, by one worker which writes one
  well-formed stream of messages, or declined; of an executed call the messages come back in order,
  some perhaps missing, and their chunks are handed on in order.
\<close>

inductive rpc_step :: "pickle \<Rightarrow> rpc \<Rightarrow> rpc \<Rightarrow> bool" for pk where
  Call: "book b c = None \<Longrightarrow> rpc_step pk b (b\<lparr>book := (book b)(c \<mapsto> Asked rq)\<rparr>)"
| Execute: "book b c = Some (Asked rq) \<Longrightarrow> stream_ok ps \<Longrightarrow> rpc_step pk b (b\<lparr>book := (book b)(c \<mapsto> Executed w rq ps)\<rparr>)"
| Decline: "book b c = Some (Asked rq) \<Longrightarrow> rpc_step pk b (b\<lparr>book := (book b)(c \<mapsto> Declined)\<rparr>)"
| Answer: "book b c = Some (Executed w rq ps) \<Longrightarrow> subseq (answered_with b c @ [d]) (map (dump pk) ps) \<Longrightarrow>
    rpc_step pk b (b\<lparr>answered_with := (answered_with b)(c := answered_with b c @ [d])\<rparr>)"
| HandOn: "book b c = Some (Executed w rq ps) \<Longrightarrow> subseq (handed_on b c @ [x]) (concat (map payload_chunks ps)) \<Longrightarrow>
    rpc_step pk b (b\<lparr>handed_on := (handed_on b)(c := handed_on b c @ [x])\<rparr>)"

inductive_cases rpc_stepE: "rpc_step pk b b'"

text \<open>
  The state of a call in the network: how often it was made, executed and declined. A call made, executed
  or declined twice, executed and declined, executed otherwise than asked, or never made is muddled.
\<close>

fun call_state_from :: "request_message list \<Rightarrow> (frame \<times> request_message \<times> payload list) list \<Rightarrow> call list \<Rightarrow> call_state option" where
  "call_state_from [] [] [] = None"
| "call_state_from [rq] [] [] = Some (Asked rq)"
| "call_state_from [rq] [(w, rq', ps)] [] = Some (if rq' = rq then Executed w rq ps else Muddled)"
| "call_state_from [rq] [] [c] = Some Declined"
| "call_state_from rqs xs cs = Some Muddled"

definition executions :: "'s net \<Rightarrow> call \<Rightarrow> (frame \<times> request_message \<times> payload list) list" where
  "executions s c = map (\<lambda>(w, c', rq, ps). (w, rq, ps)) (filter (\<lambda>x. fst (snd x) = c) (served s))"

definition call_state_of :: "'s net \<Rightarrow> call \<Rightarrow> call_state option" where
  "call_state_of s c = call_state_from (log_of c (requested s)) (executions s c) (filter (\<lambda>x. x = c) (refused s))"

definition rpc_of :: "'s net \<Rightarrow> rpc" where
  "rpc_of s = \<lparr>book = call_state_of s, answered_with = (\<lambda>c. log_of c (got s)), handed_on = (\<lambda>c. log_of c (yielded s))\<rparr>"

lemma rpc_of_init: "rpc_of net_init = rpc_init"
  by (simp add: rpc_of_def rpc_init_def call_state_of_def executions_def net_init_def fun_eq_iff)

section \<open>What one event of the network records\<close>

definition same_record :: "'s net \<Rightarrow> 's net \<Rightarrow> bool" where
  "same_record s s' \<longleftrightarrow> requested s' = requested s \<and> served s' = served s \<and> refused s' = refused s
     \<and> got s' = got s \<and> yielded s' = yielded s"

text \<open>At most one of the records grows, by one entry.\<close>

inductive recorded :: "'s net \<Rightarrow> 's net \<Rightarrow> bool" where
  nothing: "same_record s s' \<Longrightarrow> recorded s s'"
| asked: "same_record (s\<lparr>requested := requested s @ [x]\<rparr>) s' \<Longrightarrow> recorded s s'"
| executed: "same_record (s\<lparr>served := served s @ [y]\<rparr>) s' \<Longrightarrow> recorded s s'"
| declined: "same_record (s\<lparr>refused := refused s @ [c]\<rparr>) s' \<Longrightarrow> recorded s s'"
| read: "same_record (s\<lparr>got := got s @ [z]\<rparr>) s' \<Longrightarrow> recorded s s'"
| handed: "same_record (s\<lparr>yielded := yielded s @ [v]\<rparr>) s' \<Longrightarrow> recorded s s'"

lemma recorded_fetch: "recorded s (net_fetch cf k m rq ok s)"
  by (cases "clients s k"; cases "fetch_send ok m (the (clients s k))"; cases "fst (fetch_send ok m (the (clients s k)))")
    (auto simp: net_fetch_def same_record_def intro: recorded.nothing recorded.asked [of s "((k, m), rq)"])

lemma recorded_poll: "recorded s (net_poll cf wo ko inp s)"
proof -
  obtain bm fw where h1: "hear wo (from_worker s) = (bm, fw)" by fastforce
  obtain fm tb where h2: "hear ko (to_broker s) = (fm, tb)" by fastforce
  define i where "i = inp\<lparr>backend_msg := map_option (\<lambda>(w, fr). w # fr) bm,
       frontend_msg := map_option (\<lambda>(k, m, d). [k, m, d]) fm\<rparr>"
  obtain b acts where it: "broker_iter (nc_maxqueue cf) (nc_timeout cf / 1000) (the_broker s) i = (b, acts)" by fastforce
  have fm: "frontend_msg i = map_option (\<lambda>(k, m, d). [k, m, d]) fm" by (simp add: i_def)
  have same: "same_record (s\<lparr>refused := refused s @ concat (map out_refused acts)\<rparr>) (net_poll cf wo ko inp s)"
    using h1 h2 it by (simp add: net_poll_def i_def same_record_def)
  from poll_calls [OF it fm] consider "concat (map out_refused acts) = []" | c where "concat (map out_refused acts) = [c]" by blast
  then show ?thesis
  proof cases
    case 1
    with same show ?thesis by (intro recorded.nothing) (simp add: same_record_def)
  next
    case 2
    with same show ?thesis by (intro recorded.declined) simp
  qed
qed

lemma recorded_turn:
  fixes inp :: "'d worker_input"
  shows "recorded s (net_turn cf w oc e br po inp s)"
proof (cases "live_workers s w")
  case None
  then show ?thesis by (intro recorded.nothing) (simp add: net_turn_def same_record_def)
next
  case (Some v)
  obtain sc st where v: "v = (sc, st)" by fastforce
  obtain r q where r: "take_request (nc_pickle cf) w oc s = (r, q)" by fastforce
  obtain go lw and acts :: "'d waction list" where t: "net_turn cf w oc e br po inp s =
      s\<lparr>live_workers := lw, to_worker := (if go then q else filter (\<lambda>x. fst x \<noteq> w) q),
        from_worker := from_worker s @ map (Pair w) (concat (map (out_frames (nc_pickle cf)) acts)),
        served := served s @ (case r of Request k m rq \<Rightarrow> [(w, (k, m), rq, concat (map out_payloads acts))] | _ \<Rightarrow> [])\<rparr>"
    by (rule net_turn_cases [OF Some [unfolded v] r, where br = br and po = po and inp = inp and e = e]) blast
  show ?thesis
  proof (cases r)
    case (Request k m rq)
    with t show ?thesis by (intro recorded.executed) (simp add: same_record_def)
  qed (use t in \<open>simp_all add: recorded.nothing same_record_def\<close>)
qed

lemma recorded_read: "recorded s (net_read cf k s)"
proof (cases "\<exists>c m d rest q. clients s k = Some c \<and> peer_deq k (to_client s) = Some (m # d # rest, q) \<and> rest = []")
  case True
  then obtain m d where "same_record (s\<lparr>got := got s @ [((k, m), d)]\<rparr>) (net_read cf k s)"
    by (auto simp: net_read_def same_record_def)
  then show ?thesis by (rule recorded.read)
next
  case False
  then show ?thesis
    by (intro recorded.nothing) (auto simp: net_read_def same_record_def split: option.split list.split)
qed

lemma recorded_next: "recorded s (net_next k m s)"
proof (cases "clients s k")
  case None
  then show ?thesis by (intro recorded.nothing) (simp add: net_next_def same_record_def)
next
  case (Some c)
  obtain r c1 where n: "next_chunk m c = (r, c1)" by fastforce
  show ?thesis
  proof (cases r)
    case (Inl e)
    with Some n show ?thesis by (intro recorded.nothing) (simp add: net_next_def same_record_def)
  next
    case (Inr x)
    with Some n show ?thesis by (intro recorded.handed) (simp add: net_next_def same_record_def)
  qed
qed

lemma recorded_step: "recorded s (net_step cf s ev)"
proof (cases ev)
  case (Lost l p)
  then show ?thesis by (cases l) (auto intro!: recorded.nothing simp: same_record_def)
qed (auto simp: recorded_fetch recorded_poll recorded_turn recorded_read recorded_next same_record_def
     intro!: recorded.nothing split: option.split)

section \<open>The network refines the abstract machine\<close>

lemma call_state_cong:
  "log_of c (requested s') = log_of c (requested s) \<Longrightarrow> executions s' c = executions s c \<Longrightarrow>
     filter (\<lambda>x. x = c) (refused s') = filter (\<lambda>x. x = c) (refused s) \<Longrightarrow> call_state_of s' c = call_state_of s c"
  by (simp add: call_state_of_def)

lemma same_calls:
  "requested s' = requested s \<Longrightarrow> served s' = served s \<Longrightarrow> refused s' = refused s \<Longrightarrow> call_state_of s' = call_state_of s"
  by (rule ext, rule call_state_cong) (simp_all add: executions_def)

lemma rpc_of_same: "same_record s s' \<Longrightarrow> rpc_of s' = rpc_of s"
  using same_calls [of s' s] by (simp add: same_record_def rpc_of_def)

lemma never_executed: "c \<notin> set (served_calls s) \<Longrightarrow> executions s c = []"
  by (auto simp: executions_def served_calls_def filter_empty_conv)

lemma never_refused: "c \<notin> set cs \<Longrightarrow> filter (\<lambda>x. x = c) cs = []"
  by (auto simp: filter_empty_conv)

lemma asked_once:
  assumes "calls_inv pk s" "(c, rq) \<in> set (requested s)"
  shows "log_of c (requested s) = [rq]"
proof -
  have "count (mset (map fst (requested s))) c \<le> 1"
    using assms(1) unfolding calls_inv_def by (metis distinct_count_atmost_1 le_refl zero_le_one)
  with filter_unique [OF assms(2), of fst] show ?thesis by (simp add: log_of_def)
qed

lemma call_executed:
  assumes "calls_inv pk s" "(w, c, rq, ps) \<in> set (served s)"
  shows "call_state_of s c = Some (Executed w rq ps)"
proof -
  have "(c, rq) \<in> set (requested s)" using assms unfolding calls_inv_def by force
  from asked_once [OF assms(1) this] have "log_of c (requested s) = [rq]" .
  moreover have "executions s c = [(w, rq, ps)]" using one_service [OF assms] by (simp add: executions_def)
  moreover have "c \<in> set (served_calls s)" using assms(2) by (force simp: served_calls_def)
  then have "filter (\<lambda>x. x = c) (refused s) = []" using refused_not_served [OF assms(1)] by (intro never_refused) blast
  ultimately show ?thesis by (simp add: call_state_of_def)
qed

lemma call_pending:
  assumes "calls_inv pk s" "(c, rq) \<in> set (requested s)" "c \<notin> set (served_calls s)" "c \<notin> set (refused s)"
  shows "call_state_of s c = Some (Asked rq)"
  using asked_once [OF assms(1,2)] assms(3,4) by (simp add: call_state_of_def never_executed never_refused)

lemma call_known:
  assumes "calls_inv pk s" "c \<in> set (served_calls s) \<or> c \<in> set (refused s)"
  shows "c \<in> fst ` set (requested s)"
proof -
  from assms(2) have "c \<in># places s" by (auto simp: places_def)
  with assms(1) have "c \<in># mset (map fst (requested s))" unfolding calls_inv_def by (metis mset_subset_eqD)
  then show ?thesis by simp
qed

lemma call_executed_last:
  assumes "calls_inv pk s" "served s = xs @ [(w, c, rq, ps)]"
  shows "c \<notin> set (map (\<lambda>x. fst (snd x)) xs)" "c \<notin> set (refused s)" "(c, rq) \<in> set (requested s)"
proof -
  have "mset (served_calls s) = add_mset c (mset (map (\<lambda>x. fst (snd x)) xs))" by (simp add: served_calls_def assms(2))
  then have "count (mset (map (\<lambda>x. fst (snd x)) xs)) c + count (mset (refused s)) c + 1 \<le> 1"
    using one_place [OF assms(1), of c] unfolding places_def by simp
  then show "c \<notin> set (map (\<lambda>x. fst (snd x)) xs)" "c \<notin> set (refused s)"
    using count_ge_1 [of c "map (\<lambda>x. fst (snd x)) xs"] count_ge_1 [of c "refused s"] by linarith+
  show "(c, rq) \<in> set (requested s)" using assms unfolding calls_inv_def by simp
qed

lemma call_refused_last:
  assumes "calls_inv pk s" "refused s = cs @ [c]"
  shows "c \<notin> set cs" "c \<notin> set (served_calls s)"
proof -
  have "mset (refused s) = add_mset c (mset cs)" by (simp add: assms(2))
  then have "count (mset (served_calls s)) c + count (mset cs) c + 1 \<le> 1"
    using one_place [OF assms(1), of c] unfolding places_def by simp
  then show "c \<notin> set cs" "c \<notin> set (served_calls s)"
    using count_ge_1 [of c cs] count_ge_1 [of c "served_calls s"] by linarith+
qed

text \<open>What each entry of a record means for the book, under the invariants of both states.\<close>

definition net_good :: "('e, 's) net_conf \<Rightarrow> 's net \<Rightarrow> bool" where
  "net_good cf s \<longleftrightarrow> pickle_ok (nc_pickle cf) \<and> message_handler (nc_handler cf)
     \<and> calls_inv (nc_pickle cf) s \<and> replies_inv (nc_pickle cf) s \<and> handlers_inv (nc_pickle cf) s"

lemma net_good_step: "net_good cf s \<Longrightarrow> net_good cf (net_step cf s ev)"
  by (simp add: net_good_def calls_inv_step replies_inv_step handlers_inv_step)

lemma book_update:
  assumes "call_state_of s' c = v" and "\<And>c'. c' \<noteq> c \<Longrightarrow> call_state_of s' c' = call_state_of s c'"
    and "got s' = got s" "yielded s' = yielded s"
  shows "rpc_of s' = (rpc_of s)\<lparr>book := (book (rpc_of s))(c := v)\<rparr>"
  using assms by (simp add: rpc_of_def fun_eq_iff)

lemma simulate_asked:
  assumes "calls_inv pk s" "calls_inv pk s'" "same_record (s\<lparr>requested := requested s @ [(c, rq)]\<rparr>) s'"
  shows "rpc_step pk (rpc_of s) (rpc_of s')"
proof -
  have s': "requested s' = requested s @ [(c, rq)]" "served s' = served s" "refused s' = refused s"
    "got s' = got s" "yielded s' = yielded s" using assms(3) by (simp_all add: same_record_def)
  have new: "c \<notin> fst ` set (requested s)" using assms(2) s'(1) by (simp add: calls_inv_def)
  with call_known [OF assms(1)] have out: "c \<notin> set (served_calls s)" "c \<notin> set (refused s)" by blast+
  have none: "call_state_of s c = None"
    using out log_of_none [OF new] by (simp add: call_state_of_def never_executed never_refused)
  have "call_state_of s' c = Some (Asked rq)"
    by (rule call_pending [OF assms(2)]) (use s' out in \<open>simp_all add: served_calls_def\<close>)
  moreover have "call_state_of s' c' = call_state_of s c'" if "c' \<noteq> c" for c'
    using that s' by (intro call_state_cong) (simp_all add: executions_def)
  ultimately have "rpc_of s' = (rpc_of s)\<lparr>book := (book (rpc_of s))(c \<mapsto> Asked rq)\<rparr>"
    by (rule book_update [OF _ _ s'(4,5)])
  moreover have "book (rpc_of s) c = None" using none by (simp add: rpc_of_def)
  ultimately show ?thesis by (simp add: rpc_step.Call)
qed

lemma simulate_executed:
  assumes "calls_inv pk s" "calls_inv pk s'" "replies_inv pk s'"
    and "same_record (s\<lparr>served := served s @ [(w, c, rq, ps)]\<rparr>) s'"
  shows "rpc_step pk (rpc_of s) (rpc_of s')"
proof -
  have s': "requested s' = requested s" "served s' = served s @ [(w, c, rq, ps)]" "refused s' = refused s"
    "got s' = got s" "yielded s' = yielded s" using assms(4) by (simp_all add: same_record_def)
  note last = call_executed_last [OF assms(2) s'(2)]
  have "call_state_of s c = Some (Asked rq)"
    by (rule call_pending [OF assms(1)]) (use last s' in \<open>simp_all add: served_calls_def\<close>)
  then have pend: "book (rpc_of s) c = Some (Asked rq)" by (simp add: rpc_of_def)
  have "call_state_of s' c = Some (Executed w rq ps)" by (rule call_executed [OF assms(2)]) (simp add: s'(2))
  moreover have "call_state_of s' c' = call_state_of s c'" if "c' \<noteq> c" for c'
    using that s' by (intro call_state_cong) (simp_all add: executions_def)
  ultimately have "rpc_of s' = (rpc_of s)\<lparr>book := (book (rpc_of s))(c \<mapsto> Executed w rq ps)\<rparr>"
    by (rule book_update [OF _ _ s'(4,5)])
  moreover have "stream_ok ps" using assms(3) s'(2) unfolding replies_inv_def by simp
  ultimately show ?thesis using rpc_step.Execute [of "rpc_of s", OF pend] by simp
qed

lemma simulate_declined:
  assumes "calls_inv pk s" "calls_inv pk s'" "same_record (s\<lparr>refused := refused s @ [c]\<rparr>) s'"
  shows "rpc_step pk (rpc_of s) (rpc_of s')"
proof -
  have s': "requested s' = requested s" "served s' = served s" "refused s' = refused s @ [c]"
    "got s' = got s" "yielded s' = yielded s" using assms(3) by (simp_all add: same_record_def)
  note last = call_refused_last [OF assms(2) s'(3)]
  from call_known [OF assms(2), of c] s' obtain rq where rq: "(c, rq) \<in> set (requested s)" by auto
  have "call_state_of s c = Some (Asked rq)"
    by (rule call_pending [OF assms(1) rq]) (use last s' in \<open>simp_all add: served_calls_def\<close>)
  then have pend: "book (rpc_of s) c = Some (Asked rq)" by (simp add: rpc_of_def)
  have "call_state_of s' c = Some Declined"
    using asked_once [OF assms(1) rq] last s' by (simp add: call_state_of_def never_executed never_refused)
  moreover have "call_state_of s' c' = call_state_of s c'" if "c' \<noteq> c" for c'
    using that s' by (intro call_state_cong) (simp_all add: executions_def)
  ultimately have "rpc_of s' = (rpc_of s)\<lparr>book := (book (rpc_of s))(c \<mapsto> Declined)\<rparr>"
    by (rule book_update [OF _ _ s'(4,5)])
  then show ?thesis using rpc_step.Decline [of "rpc_of s", OF pend] by simp
qed

text \<open>What is heard of a call was written for it.\<close>

lemma written_call:
  assumes "calls_inv pk s" "written_for c s \<noteq> []"
  obtains w rq ps where "call_state_of s c = Some (Executed w rq ps)" "written_for c s = ps"
proof -
  from assms(2) written_none [of c s] have "c \<in> set (served_calls s)" by blast
  then obtain w rq ps where sv: "(w, c, rq, ps) \<in> set (served s)" by (auto simp: served_calls_def)
  from that call_executed [OF assms(1) sv] written_single [OF one_service [OF assms(1) sv]] show thesis by blast
qed

lemma simulate_read:
  assumes "calls_inv pk s'" "replies_inv pk s'" "same_record (s\<lparr>got := got s @ [(c, d)]\<rparr>) s'"
  shows "rpc_step pk (rpc_of s) (rpc_of s')"
proof -
  have sub: "subseq (log_of c (got s) @ [d]) (map (dump pk) (written_for c s'))"
    using read_frames [OF assms(2), of c] assms(3) by (simp add: same_record_def)
  then have "written_for c s' \<noteq> []" by auto
  with assms(1) obtain w rq ps where x: "call_state_of s' c = Some (Executed w rq ps)" "written_for c s' = ps"
    by (rule written_call)
  have eq: "call_state_of s' = call_state_of s"
    using assms(3) by (intro same_calls) (simp_all add: same_record_def)
  have "book (rpc_of s) c = Some (Executed w rq ps)" using x(1) eq by (simp add: rpc_of_def)
  moreover have "subseq (answered_with (rpc_of s) c @ [d]) (map (dump pk) ps)" using sub x(2) by (simp add: rpc_of_def)
  ultimately have "rpc_step pk (rpc_of s) ((rpc_of s)\<lparr>answered_with := (answered_with (rpc_of s))(c := answered_with (rpc_of s) c @ [d])\<rparr>)"
    by (rule rpc_step.Answer)
  moreover have "rpc_of s' = (rpc_of s)\<lparr>answered_with := (answered_with (rpc_of s))(c := answered_with (rpc_of s) c @ [d])\<rparr>"
    using assms(3) eq by (simp add: rpc_of_def same_record_def fun_eq_iff)
  ultimately show ?thesis by simp
qed

lemma simulate_handed:
  assumes "pickle_ok pk" "calls_inv pk s'" "replies_inv pk s'" "handlers_inv pk s'"
    and "same_record (s\<lparr>yielded := yielded s @ [(c, x)]\<rparr>) s'"
  shows "rpc_step pk (rpc_of s) (rpc_of s')"
proof -
  have "subseq (log_of c (yielded s')) (concat (map payload_chunks (written_for c s')))"
    using subseq_order.order_trans [OF handlers_queue [OF assms(4)] chunks_of_written [OF assms(1,3)], of c]
    by (rule subseq_order.order_trans [rotated]) (simp add: prefix_imp_subseq)
  then have sub: "subseq (log_of c (yielded s) @ [x]) (concat (map payload_chunks (written_for c s')))"
    using assms(5) by (simp add: same_record_def)
  then have "written_for c s' \<noteq> []" by auto
  with assms(2) obtain w rq ps where p: "call_state_of s' c = Some (Executed w rq ps)" "written_for c s' = ps"
    by (rule written_call)
  have eq: "call_state_of s' = call_state_of s"
    using assms(5) by (intro same_calls) (simp_all add: same_record_def)
  have "book (rpc_of s) c = Some (Executed w rq ps)" using p(1) eq by (simp add: rpc_of_def)
  moreover have "subseq (handed_on (rpc_of s) c @ [x]) (concat (map payload_chunks ps))" using sub p(2) by (simp add: rpc_of_def)
  ultimately have "rpc_step pk (rpc_of s) ((rpc_of s)\<lparr>handed_on := (handed_on (rpc_of s))(c := handed_on (rpc_of s) c @ [x])\<rparr>)"
    by (rule rpc_step.HandOn)
  moreover have "rpc_of s' = (rpc_of s)\<lparr>handed_on := (handed_on (rpc_of s))(c := handed_on (rpc_of s) c @ [x])\<rparr>"
    using assms(5) eq by (simp add: rpc_of_def same_record_def fun_eq_iff)
  ultimately show ?thesis by simp
qed

lemma net_simulates:
  assumes "net_good cf s"
  shows "rpc_step (nc_pickle cf) (rpc_of s) (rpc_of (net_step cf s ev)) \<or> rpc_of (net_step cf s ev) = rpc_of s"
proof -
  note now = assms [unfolded net_good_def] and then' = net_good_step [OF assms, of ev, unfolded net_good_def]
  from recorded_step [of s cf ev] show ?thesis
  proof cases
    case nothing
    then show ?thesis by (simp add: rpc_of_same)
  next
    case (asked x)
    then show ?thesis using simulate_asked now then' by (cases x) blast
  next
    case (executed y)
    then show ?thesis using simulate_executed now then' by (cases y) blast
  next
    case (declined c)
    then show ?thesis using simulate_declined now then' by blast
  next
    case (read z)
    then show ?thesis using simulate_read then' by (cases z) blast
  next
    case (handed v)
    then show ?thesis using simulate_handed then' by (cases v) blast
  qed
qed

interpretation net_spec: step_refinement "net_step cf" "net_good cf" rpc_of "rpc_step (nc_pickle cf)" for cf
  by unfold_locales (rule net_good_step net_simulates; assumption)+

lemma net_run_good:
  "pickle_ok (nc_pickle cf) \<Longrightarrow> message_handler (nc_handler cf) \<Longrightarrow> net_good cf (net_run cf evs)"
  unfolding net_good_def by (intro conjI net_run_inv)

text \<open>
  C4: The network as a service. What the front end sees of clients, broker, workers and links is a
  run of the abstract machine: every event, loss and crossing message included, is one step of it,
  or none. A call is made once; it is executed by one worker or declined by the broker, never both;
  and only what the worker wrote for it comes back, in order.
\<close>

theorem network_refines_calls:
  assumes "nc_handler cf = qgis_handler g" and "qgis_polite g" and "pickle_ok (nc_pickle cf)"
  shows "rpc_of (net_run cf []) = rpc_init
    \<and> (rpc_step (nc_pickle cf) (rpc_of (net_run cf evs)) (rpc_of (net_run cf (evs @ [ev])))
       \<or> rpc_of (net_run cf (evs @ [ev])) = rpc_of (net_run cf evs))"
proof -
  have "message_handler (nc_handler cf)" unfolding assms(1) by (rule qgis_handler_keeps [OF assms(2)])
  from net_run_good [OF assms(3) this] have "net_good cf (net_run cf evs)" .
  from net_spec.simulates [OF this, of ev] show ?thesis by (simp add: net_run_def rpc_of_init)
qed

section \<open>The life of a call\<close>

text \<open>The abstract machine never takes anything back.\<close>

definition call_follows :: "call_state option \<Rightarrow> call_state option \<Rightarrow> bool" where
  "call_follows x y = (case x of
      None \<Rightarrow> True
    | Some (Asked rq) \<Rightarrow> y = Some (Asked rq) \<or> y = Some Declined \<or> (\<exists>w ps. y = Some (Executed w rq ps) \<and> stream_ok ps)
    | Some st \<Rightarrow> y = Some st)"

definition rpc_follows :: "rpc \<Rightarrow> rpc \<Rightarrow> bool" where
  "rpc_follows a b \<longleftrightarrow> (\<forall>c. call_follows (book a c) (book b c) \<and> prefix (answered_with a c) (answered_with b c)
     \<and> prefix (handed_on a c) (handed_on b c))"

lemma call_follows_refl [simp]: "call_follows x x"
  by (simp add: call_follows_def split: option.split call_state.split)

lemma rpc_follows_refl: "rpc_follows a a"
  by (simp add: rpc_follows_def)

lemma call_follows_trans: "call_follows x y \<Longrightarrow> call_follows y z \<Longrightarrow> call_follows x z"
  by (cases x; cases "the x") (auto simp: call_follows_def)

lemma rpc_follows_trans: "rpc_follows a b \<Longrightarrow> rpc_follows b c \<Longrightarrow> rpc_follows a c"
  unfolding rpc_follows_def by (meson call_follows_trans prefix_order.order_trans)

lemma rpc_step_follows: "rpc_step pk b b' \<Longrightarrow> rpc_follows b b'"
  by (erule rpc_step.cases) (simp_all add: rpc_follows_def, simp_all add: call_follows_def)

text \<open>What has come back for a call was written by its one execution; nothing comes back otherwise. No call is muddled.\<close>

fun came_back_ok :: "pickle \<Rightarrow> call_state option \<Rightarrow> frame list \<Rightarrow> (string \<times> bool) list \<Rightarrow> bool" where
  "came_back_ok pk (Some (Executed w rq ps)) fs xs =
     (stream_ok ps \<and> subseq fs (map (dump pk) ps) \<and> subseq xs (concat (map payload_chunks ps)))"
| "came_back_ok pk (Some Muddled) fs xs = False"
| "came_back_ok pk st fs xs = (fs = [] \<and> xs = [])"

definition call_sound :: "pickle \<Rightarrow> rpc \<Rightarrow> call \<Rightarrow> bool" where
  "call_sound pk b c = came_back_ok pk (book b c) (answered_with b c) (handed_on b c)"

lemma call_sound_step:
  assumes "rpc_step pk b b'" and "call_sound pk b c"
  shows "call_sound pk b' c"
  using assms(1)
proof cases
  case (Call c' rq)
  with assms(2) show ?thesis by (cases "c' = c") (simp_all add: call_sound_def)
next
  case (Execute c' rq ps w)
  with assms(2) show ?thesis by (cases "c' = c") (simp_all add: call_sound_def)
next
  case (Decline c' rq)
  with assms(2) show ?thesis by (cases "c' = c") (simp_all add: call_sound_def)
next
  case (Answer c' w rq ps d)
  with assms(2) show ?thesis by (cases "c' = c") (simp_all add: call_sound_def)
next
  case (HandOn c' w rq ps x)
  with assms(2) show ?thesis by (cases "c' = c") (simp_all add: call_sound_def)
qed

text \<open>
  C14: The life of a call. Along a run an open call stays open, is declined, or is executed as it was
  asked, once, with a well-formed stream of messages; a declined or executed call stays as it is, and
  no call is muddled; what has come back is never taken back, and it is always a subsequence of what the one execution wrote,
  nothing for a call that was not executed.
\<close>

theorem call_life:
  assumes "nc_handler cf = qgis_handler g" and "qgis_polite g" and "pickle_ok (nc_pickle cf)"
  shows "call_follows (call_state_of (net_run cf evs) c) (call_state_of (net_run cf (evs @ later)) c)
    \<and> prefix (log_of c (got (net_run cf evs))) (log_of c (got (net_run cf (evs @ later))))
    \<and> prefix (log_of c (yielded (net_run cf evs))) (log_of c (yielded (net_run cf (evs @ later))))
    \<and> came_back_ok (nc_pickle cf) (call_state_of (net_run cf (evs @ later)) c)
        (log_of c (got (net_run cf (evs @ later)))) (log_of c (yielded (net_run cf (evs @ later))))"
proof -
  have mh: "message_handler (nc_handler cf)" unfolding assms(1) by (rule qgis_handler_keeps [OF assms(2)])
  let ?pk = "nc_pickle cf" and ?now = "net_run cf evs"
  have "call_sound ?pk (rpc_of (net_run cf fs)) c" for fs
    unfolding net_run_def
  proof (rule net_spec.keeps_run [where P = "\<lambda>b. call_sound ?pk b c"])
    show "net_good cf net_init" using net_run_good [OF assms(3) mh, of "[]"] by (simp add: net_run_def)
    show "call_sound ?pk (rpc_of net_init) c" by (simp add: rpc_of_init rpc_init_def call_sound_def)
  qed (rule call_sound_step)
  then have "call_sound ?pk (rpc_of (net_run cf (evs @ later))) c" .
  moreover have "rpc_follows (rpc_of ?now) (rpc_of (foldl (net_step cf) ?now later))"
    by (rule net_spec.keeps_run [where P = "rpc_follows (rpc_of ?now)", OF net_run_good [OF assms(3) mh]])
      (auto intro: rpc_follows_refl rpc_follows_trans rpc_step_follows)
  ultimately show ?thesis by (cases c) (simp add: rpc_follows_def rpc_of_def call_sound_def net_run_append)
qed

section \<open>Examples\<close>

text \<open>A request is open after it was sent; the broker with no room for requests declines it.\<close>

lemma sample_asked: "call_state_of (net_run (sample_conf n) (take 3 sample_events)) (''c'', ''m'') = Some (Asked plain_message)"
  by (simp add: sample_start call_state_of_def executions_def net_init_def)

lemma sample_conf_ok:
  "nc_handler (sample_conf n) = qgis_handler idle_qgis" "pickle_ok (nc_pickle (sample_conf n))"
  by (simp_all add: sample_conf_def unary_pickle_ok)

theorem network_refines_calls_witness:
  "rpc_of (net_run (sample_conf 0) []) = rpc_init
   \<and> (rpc_step (nc_pickle (sample_conf 0)) (rpc_of (net_run (sample_conf 0) (take 3 sample_events)))
        (rpc_of (net_run (sample_conf 0) (take 3 sample_events @ [BrokerPolls None (Some ''c'') sample_poll])))
      \<or> rpc_of (net_run (sample_conf 0) (take 3 sample_events @ [BrokerPolls None (Some ''c'') sample_poll]))
        = rpc_of (net_run (sample_conf 0) (take 3 sample_events)))"
  by (rule network_refines_calls [OF sample_conf_ok(1) idle_qgis_polite sample_conf_ok(2)])

theorem call_life_witness:
  "call_state_of (net_run (sample_conf 10) (take 3 sample_events)) (''c'', ''m'') = Some (Asked plain_message)
   \<and> (call_state_of sample_end (''c'', ''m'') = Some (Asked plain_message)
     \<or> call_state_of sample_end (''c'', ''m'') = Some Declined
     \<or> (\<exists>w ps. call_state_of sample_end (''c'', ''m'') = Some (Executed w plain_message ps) \<and> stream_ok ps))"
  using call_life [OF sample_conf_ok(1) idle_qgis_polite sample_conf_ok(2),
      of 10 "take 3 sample_events" "(''c'', ''m'')" "drop 3 sample_events"]
  by (simp add: sample_asked call_follows_def sample_end_def)

end
