(* ===== verification/Requests.thy ===== *)
theory Requests
  imports Handlers NetworkLive
begin

text \<open>
  One HTTP request from end to end: what the handler of the front end sends (\<open>Handlers\<close>), what the
  worker makes of it (\<open>QgsWorker\<close>), the messages that come back (\<open>Streaming\<close>) and what the
  handler then does to the HTTP response. \<open>NetworkLive\<close> shows that the messages do arrive.
\<close>

section \<open>From the front end to the worker and back\<close>

text \<open>
  The message of a call. Python leaves a header without value as \<open>None\<close> in the dictionary; to every
  reader of the headers in the worker, which use \<open>get\<close> and \<open>pop\<close> with a test, it is as good as absent.
\<close>

definition valued :: "(string, string option) odict \<Rightarrow> (string, string) odict" where
  "valued d = map (\<lambda>(k, v). (k, the v)) (filter (\<lambda>(k, v). v \<noteq> None) d)"

definition message_of :: "backend_call \<Rightarrow> request_message" where
  "message_of call = \<lparr>rq_query = bk_query call, rq_headers = valued (bk_headers call), rq_method = bk_method call,
     rq_data = bk_data call\<rparr>"

text \<open>
  The worker's answer, delivered to the client that asked; the fuel is the number of messages. The
  second component is the state the worker is in afterwards.
\<close>

definition worker_answer ::
  "env \<Rightarrow> qgis \<Rightarrow> meta result option \<Rightarrow> worker \<Rightarrow> frame \<Rightarrow> frame \<Rightarrow> request_message \<Rightarrow> payload list \<times> worker" where
  "worker_answer w g mf s k m rq =
     (let h = zhandler_init k m (\<lambda>_. True)
      in (h_payloads (snd (serve_request (\<lambda>rq h. fst (handle_message w g mf rq s h)) h rq)),
          snd (handle_message w g mf rq s h)))"

definition fetched :: "frame \<Rightarrow> payload list \<Rightarrow> client \<Rightarrow> rhandler result \<times> chunks" where
  "fetched m ps c =
     (case fetch_resume m (deliver m ps (snd (fetch_send True m c))) of
        (Inl e, c1) \<Rightarrow> (Inl e, ([], None))
      | (Inr h, c1) \<Rightarrow> (Inr h, (case fetch_more (length ps) m c1 of (ds, e, c2) \<Rightarrow> (ds, e))))"

definition http_roundtrip ::
  "get_arg \<Rightarrow> (arguments \<Rightarrow> string) \<Rightarrow> async_handler \<Rightarrow> env \<Rightarrow> qgis \<Rightarrow> meta result option \<Rightarrow> worker \<Rightarrow> frame \<Rightarrow> frame \<Rightarrow>
     client \<Rightarrow> string \<Rightarrow> http_request \<Rightarrow> stats \<Rightarrow> handled \<times> worker" where
  "http_roundtrip garg encode ah w g mf s k m c meth rq st =
     (handle_http garg encode ah (\<lambda>call. fetched m (fst (worker_answer w g mf s k m (message_of call))) c) meth rq st,
      snd (worker_answer w g mf s k m (message_of (make_call garg encode ah meth rq))))"

section \<open>Headers of the message\<close>

lemma od_get_valued: "od_wf d \<Longrightarrow> od_get (valued d) k = (case od_get d k of None \<Rightarrow> None | Some v \<Rightarrow> v)"
proof (induction d)
  case (Cons kv d)
  obtain j v where kv: "kv = (j, v)" by (cases kv)
  have d: "od_wf d" "od_get d j = None"
    using Cons.prems kv by (auto simp: od_wf_def od_keys_def map_of_eq_None_iff)
  with Cons.IH [OF d(1)] kv show ?case by (cases v) (auto simp: valued_def)
qed (simp add: valued_def)

lemma od_wf_backend: "od_wf headers \<Longrightarrow> od_wf (set_backend_headers garg ah rq headers)"
  unfolding set_backend_headers_def computed_headers_def Let_def
  by (intro od_wf_update) (simp split: option.split)

text \<open>A header that the handler computes itself reaches the worker as computed, unless the client's own value is let through.\<close>

lemma own_header_cong:
  "k \<noteq> ''X-Qgis-Forwarded-Url'' \<Longrightarrow> hq_headers rq' = hq_headers rq \<Longrightarrow> hq_arguments rq' = hq_arguments rq \<Longrightarrow>
     own_header garg ah rq' url k = own_header garg ah rq [] k"
  by (simp add: own_header_def Let_def)

lemma message_header:
  assumes "od_wf (hq_headers rq)" and "\<not> allowed_header (ah_allowed_hdrs ah) k" and "k \<noteq> ''X-Qgis-Forwarded-Url''"
  shows "od_get (rq_headers (message_of (make_call garg encode ah m rq))) k
      = (case own_header garg ah rq [] k of None \<Rightarrow> None | Some v \<Rightarrow> v)"
proof -
  obtain rq' url where H: "bk_headers (make_call garg encode ah m rq) = set_backend_headers garg ah rq' [(''X-Qgis-Forwarded-Url'', Some url)]"
    and rq': "hq_headers rq' = hq_headers rq" "hq_arguments rq' = hq_arguments rq"
    by (rule make_call_headers)
  have wf: "od_wf (bk_headers (make_call garg encode ah m rq))"
    unfolding H by (rule od_wf_backend) (simp add: od_wf_def od_keys_def)
  have "od_get (bk_headers (make_call garg encode ah m rq)) k = own_header garg ah rq' url k"
    unfolding H using backend_header [of rq' garg ah url k] assms(1,2) rq'(1) by simp
  with od_get_valued [OF wf, of k] own_header_cong [OF assms(3) rq', of garg ah url] show ?thesis
    by (simp add: message_of_def)
qed

text \<open>What the worker reads of an OWS request for a project.\<close>

lemma ows_message:
  assumes "od_wf (hq_headers rq)"
    and "\<forall>k \<in> {''X-Map-Location'', ''X-Ogc-Scheme'', ''If-None-Match'', ''X-Debug-Id''}. \<not> allowed_header (ah_allowed_hdrs ah) k"
    and "ah_ogc_scheme ah = Some ''OWS''" and "garg (hq_arguments rq) ''MAP'' = Some loc" and "loc \<noteq> []"
    and "(case od_get (hq_headers rq) ''If-None-Match'' of None \<Rightarrow> [] | Some u \<Rightarrow> u) = v" and "truthy (od_get (hq_headers rq) ''X-Debug-Id'') = None"
    and "hs = rq_headers (message_of (make_call garg encode ah meth rq))"
  shows "od_get hs ''X-Ogc-Scheme'' = Some ''OWS''" "request_location s hs = Some loc"
    "od_get (other_headers hs) ''If-None-Match'' = Some v" "od_get hs ''X-Debug-Id'' = None"
proof -
  have loc: "truthy (Some loc) = Some loc" using assms(5) by (cases loc) (auto simp: truthy_def)
  have h: "od_get hs k = (case own_header garg ah rq [] k of None \<Rightarrow> None | Some v \<Rightarrow> v)"
    if "k \<in> {''X-Map-Location'', ''X-Ogc-Scheme'', ''If-None-Match'', ''X-Debug-Id''}" for k
    unfolding assms(8) by (rule message_header [OF assms(1)]) (use that assms(2) in auto)
  show "od_get hs ''X-Ogc-Scheme'' = Some ''OWS''" "od_get hs ''X-Debug-Id'' = None"
    using h assms(3,7) by (simp_all add: own_header_def)
  have "od_get hs ''X-Map-Location'' = Some loc" using h assms(4) loc by (simp add: own_header_def)
  then show "request_location s hs = Some loc" using assms(5) by (simp add: request_location_def nonempty_def)
  have "od_get hs ''If-None-Match'' = Some v" using h assms(6) by (simp add: own_header_def)
  then show "od_get (other_headers hs) ''If-None-Match'' = Some v" by (subst od_get_other_headers) simp_all
qed

section \<open>Validators, end to end\<close>

lemma get_request: "rq_method rq = ''GET'' \<Longrightarrow> \<exists>q. make_request rq = Inr q \<and> qr_method q = GetMethod"
  by (simp add: make_request_def HTTP_METHODS_def Let_def)

lemma get_call: "rq_method (message_of (make_call garg encode ah ''GET'' rq)) = ''GET''"
  by (simp add: message_of_def make_call_def split_def Let_def)

lemma fetched_reply:
  assumes "m \<notin> set (client.table c)" and "s \<noteq> -1" and "s \<noteq> 206"
  shows "\<exists>h. fetched m [PReply s hs d mt] c = (Inr h, snd (fetched m [PReply s hs d mt] c))
    \<and> rh_status h = s \<and> rh_headers h = hs \<and> rh_data h = Some d"
  using assms by (simp add: fetched_def fetch_send_def client_recv_def rh_set_result_def rhandler_init_def future_done_def
      rh_done_def fetch_resume_def Let_def split: prod.split)

lemma fresh_init: "(\<And>x. mf \<noteq> Some (Inl x)) \<Longrightarrow> fresh_response (response_init (zhandler_init k m (\<lambda>_. True)) mf)"
  by (auto simp: fresh_response_def response_init_def zhandler_init_def calm_def get_metadata_def statusCode_def
      split: option.split sum.split)

lemma worker_revalidates:
  assumes "make_request rq = Inr q" and "qr_method q \<noteq> HeadMethod"
    and "od_get (rq_headers rq) ''X-Ogc-Scheme'' = Some ''OWS''" and "request_location s (rq_headers rq) = Some loc"
    and "od_get (rq_headers rq) ''X-Debug-Id'' = None"
    and "od_get (other_headers (rq_headers rq)) ''If-None-Match'' = Some v" and "v = ''*'' \<or> v = e"
    and "cm_wf (wk_cache s)" and "\<And>x. mf \<noteq> Some (Inl x)"
    and "cm_lookup w loc (wk_check_interval s \<le> 0) (wk_cache s) = (Inr (p, st), m')"
    and "lru_peek loc (cm_lru m') = Some (p, t)"
    and "compute_etag g (after_lookup p st m' s) loc (drop_us t) q = Some e"
  shows "\<exists>hds mt. worker_answer w g mf s k m rq = ([PReply 304 hds [] mt], after_lookup p st m' s) \<and> od_get hds ''Etag'' = Some (HStr e)"
proof -
  let ?h = "zhandler_init k m (\<lambda>_. True)"
  have loc: "loc \<noteq> []" by (rule request_location_ne [OF assms(4)])
  have fr: "fresh_response (response_init ?h mf)" by (rule fresh_init [OF assms(9)])
  have v: "od_get (other_headers (rq_headers rq)) ''If-None-Match'' = Some ''*'' \<or> od_get (other_headers (rq_headers rq)) ''If-None-Match'' = Some e"
    using assms(6,7) by auto
  obtain r5 hds where r5: "handle_qgis_request w g (Some ''OWS'') (Some loc) (other_headers (rq_headers rq)) q (response_init ?h mf)
        (od_get (rq_headers rq) ''X-Request-Id'') s = ((None, r5), after_lookup p st m' s)"
      "h_payloads (rs_h r5) = [PReply 304 hds [] (meta_of r5)]" "od_get hds ''Etag'' = Some (HStr e)"
    using not_modified [OF assms(8) loc fr assms(10-12) v] by blast
  have "handle_message w g mf rq s ?h = ((None, rs_h r5), after_lookup p st m' s)"
    using r5(1) assms(1-5) by (simp add: handle_message_def debug_request_def message_body_def)
  with r5(2,3) show ?thesis by (simp add: worker_answer_def serve_request_def)
qed

text \<open>
  C8: Revalidation. A GET request for a project under OWS whose validator is the current tag of the
  project, or a star, is answered by the front end with status 304, the tag and no body; no error is
  counted, and QGIS is not called by the worker. It takes no more of the deployment than that the
  configured prefixes do not let the client replace the four headers concerned.
\<close>
theorem revalidation_end_to_end:
  assumes "od_wf (hq_headers rq)"
    and "\<forall>k \<in> {''X-Map-Location'', ''X-Ogc-Scheme'', ''If-None-Match'', ''X-Debug-Id''}. \<not> allowed_header (ah_allowed_hdrs ah) k"
    and "ah_ogc_scheme ah = Some ''OWS''" and "garg (hq_arguments rq) ''MAP'' = Some loc" and "loc \<noteq> []"
    and "od_get (hq_headers rq) ''If-None-Match'' = Some v" and "v = ''*'' \<or> v = e"
    and "truthy (od_get (hq_headers rq) ''X-Debug-Id'') = None"
    and "make_request (message_of (make_call garg encode ah ''GET'' rq)) = Inr q"
    and "cm_wf (wk_cache s)" and "\<forall>x. mf \<noteq> Some (Inl x)" and "m \<notin> set (client.table c)"
    and "cm_lookup w loc (wk_check_interval s \<le> 0) (wk_cache s) = (Inr (p, st), m')"
    and "lru_peek loc (cm_lru m') = Some (p, t)"
    and "compute_etag g (after_lookup p st m' s) loc (drop_us t) q = Some e"
    and "http_roundtrip garg encode ah w g mf s k m c ''GET'' rq st0 = (hn, s')"
  shows "hn_raised hn = None \<and> last (hn_calls hn) = SetStatus 304 \<and> SetHeader ''Etag'' e \<in> set (hn_calls hn)
    \<and> (\<forall>d. WriteData d \<notin> set (hn_calls hn)) \<and> num_errors (hn_stats hn) = num_errors st0
    \<and> wk_handled s' = wk_handled s"
proof -
  define call where "call = make_call garg encode ah ''GET'' rq"
  have "(case od_get (hq_headers rq) ''If-None-Match'' of None \<Rightarrow> [] | Some u \<Rightarrow> u) = v" using assms(6) by simp
  note head = ows_message [where garg = garg and rq = rq and encode = encode and meth = "''GET''", OF assms(1-5) this assms(8) refl, folded call_def]
  have "qr_method q = GetMethod" using get_request [OF get_call, of garg encode ah rq] assms(9) by auto
  then have "qr_method q \<noteq> HeadMethod" by simp
  from worker_revalidates [OF assms(9) [folded call_def] this head(1,2,4,3) assms(7,10) _ assms(13-15), of mf k m] assms(11)
  obtain hds mt where wa: "worker_answer w g mf s k m (message_of call) = ([PReply 304 hds [] mt], after_lookup p st m' s)"
    "od_get hds ''Etag'' = Some (HStr e)" by blast
  obtain h where f: "fetched m [PReply 304 hds [] mt] c = (Inr h, snd (fetched m [PReply 304 hds [] mt] c))"
    "rh_status h = 304" "rh_headers h = hds" "rh_data h = Some []"
    using fetched_reply [OF assms(12), of 304 hds "[]" mt] by auto
  obtain rest where f': "fetched m [PReply 304 hds [] mt] c = (Inr h, rest)" using f(1) by metis
  have hn: "hn = handle_http garg encode ah (\<lambda>call. fetched m (fst (worker_answer w g mf s k m (message_of call))) c) ''GET'' rq st0"
    "s' = after_lookup p st m' s"
    using assms(16) wa(1) by (simp_all add: http_roundtrip_def call_def)
  define cors where "cors = fst (set_access_control_headers (ah_base ah) (snd (proxy_url (ah_base ah) rq)))"
  have "(\<lambda>call. fetched m (fst (worker_answer w g mf s k m (message_of call))) c) call = (Inr h, rest)" by (simp add: wa(1) f')
  then have calls: "hn_calls hn = map (\<lambda>(k, v). SetHeader k (header_text v)) hds @ cors @ [SetStatus 304]"
    "hn_raised hn = None" "hn_stats hn = st0\<lparr>num_requests := Suc (num_requests st0)\<rparr>"
    using f(2-4) hn(1) by (simp_all add: handle_http_def call_def [symmetric] send_response_def truthy_def Let_def cors_def)
  have "WriteData d \<notin> set cors" for d
    by (auto simp: cors_def set_access_control_headers_def split: option.split)
  moreover have "(''Etag'', HStr e) \<in> set hds" by (rule map_of_SomeD [OF wa(2)])
  then have "SetHeader ''Etag'' e \<in> set (hn_calls hn)" unfolding calls(1) by force
  moreover have "wk_handled s' = wk_handled s" by (simp add: hn(2) after_lookup_def)
  ultimately show ?thesis using calls by auto
qed

section \<open>Project errors, end to end\<close>

text \<open>What a failed lookup is answered with: one of the known errors, or an internal error.\<close>

definition lookup_answer :: "string \<Rightarrow> exn \<Rightarrow> int \<times> string" where
  "lookup_answer loc e = (case project_error loc e of Some a \<Rightarrow> a | None \<Rightarrow> (500, ''Worker internal error''))"

lemma lookup_answer_cases: "fst (lookup_answer loc e) \<in> {422, 403, 404, 500} \<and> snd (lookup_answer loc e) \<noteq> []
    \<and> (fst (lookup_answer loc e) = 500 \<longleftrightarrow> project_error loc e = None)"
  by (simp add: lookup_answer_def project_error_def invalid_layers_msg_def unreadable_msg_def not_found_msg_def)

lemma worker_lookup_error:
  assumes "plain_request rq q" and "request_location s (rq_headers rq) = Some loc"
    and "fst (cm_lookup w loc (wk_check_interval s \<le> 0) (wk_cache s)) = Inl e" and "e \<noteq> OtherError ''ZMQError''"
  shows "fst (worker_answer w g mf s k m rq) = [PReply (fst (lookup_answer loc e)) [] (snd (lookup_answer loc e)) None]"
  using project_errors [OF assms, of g mf k m]
  by (cases "project_error loc e") (auto simp: worker_answer_def lookup_answer_def Let_def split: prod.splits)

text \<open>
  C16: Project errors at the HTTP client. A request for a project whose lookup raises is answered by the
  front end, without QGIS, with the status and the message of its kind: 422 for a project with bad layers
  or an unreadable one, 403 for a path that is not allowed, 404 for a missing file, and 500 for any other
  exception. Only the last is counted as an error of the server. No exception gets out of the handler.
\<close>
theorem project_errors_end_to_end:
  assumes "od_wf (hq_headers rq)" and "\<not> allowed_header (ah_allowed_hdrs ah) ''X-Map-Location''"
    and "garg (hq_arguments rq) ''MAP'' = Some loc" and "loc \<noteq> []"
    and "plain_request (message_of (make_call garg encode ah meth rq)) q"
    and "fst (cm_lookup w loc (wk_check_interval s \<le> 0) (wk_cache s)) = Inl e" and "e \<noteq> OtherError ''ZMQError''"
    and "m \<notin> set (client.table c)"
    and "http_roundtrip garg encode ah w g mf s k m c meth rq st0 = (hn, s')"
  shows "hn_raised hn = None
    \<and> (\<exists>cors. cors = fst (set_access_control_headers (ah_base ah) (snd (proxy_url (ah_base ah) rq)))
        \<and> hn_calls hn = cors @ (if e = StrictCheckingError then [SetStatus 422, WriteData (invalid_layers_msg loc)]
            else if e = UnreadableResourceError then [SetStatus 422, WriteData (unreadable_msg loc)]
            else if e = PathNotAllowedError then [SetStatus 403, WriteData ''Project path not allowed'']
            else if e = FileNotFoundError then [SetStatus 404, WriteData (not_found_msg loc)]
            else [SetStatus 500, WriteData ''Worker internal error'']))
    \<and> num_requests (hn_stats hn) = Suc (num_requests st0)
    \<and> num_errors (hn_stats hn) = num_errors st0 + (if project_error loc e = None then 1 else 0)"
proof -
  define call where "call = make_call garg encode ah meth rq"
  have loc: "truthy (Some loc) = Some loc" using assms(4) by (cases loc) (auto simp: truthy_def)
  have "od_get (rq_headers (message_of call)) ''X-Map-Location'' = Some loc"
    unfolding call_def using message_header [OF assms(1,2), of garg encode meth] assms(3) loc by (simp add: own_header_def)
  then have "request_location s (rq_headers (message_of call)) = Some loc"
    using assms(4) by (simp add: request_location_def nonempty_def)
  note wa = worker_lookup_error [OF assms(5) [folded call_def] this assms(6,7), of g mf k m]
  obtain code msg where a: "lookup_answer loc e = (code, msg)" by fastforce
  note cases = lookup_answer_cases [of loc e, unfolded a, simplified]
  have code: "code \<noteq> -1" "code \<noteq> 206" using cases by auto
  from fetched_reply [OF assms(8) code, of "[]" msg None]
  obtain h where h: "fetched m [PReply code [] msg None] c = (Inr h, snd (fetched m [PReply code [] msg None] c))"
    "rh_status h = code" "rh_headers h = []" "rh_data h = Some msg" by blast
  obtain rest where f: "fetched m [PReply code [] msg None] c = (Inr h, rest)"
    "rh_status h = code" "rh_headers h = []" "rh_data h = Some msg" using h by metis
  have hn: "hn = handle_http garg encode ah (\<lambda>call. fetched m (fst (worker_answer w g mf s k m (message_of call))) c) meth rq st0"
    using assms(9) by (simp add: http_roundtrip_def)
  have "(\<lambda>call. fetched m (fst (worker_answer w g mf s k m (message_of call))) c) call = (Inr h, rest)" by (simp add: wa a f(1))
  moreover have "truthy (Some msg) = Some msg" using cases by (cases msg) (simp_all add: truthy_def)
  ultimately have calls: "hn_calls hn = fst (set_access_control_headers (ah_base ah) (snd (proxy_url (ah_base ah) rq))) @ [SetStatus code, WriteData msg]"
    "hn_raised hn = None" "num_requests (hn_stats hn) = Suc (num_requests st0)"
    "num_errors (hn_stats hn) = num_errors st0 + (if code = 500 then 1 else 0)"
    using f(2-4) hn cases by (auto simp: handle_http_def call_def [symmetric] send_response_def Let_def)
  have "[SetStatus code, WriteData msg] = (if e = StrictCheckingError then [SetStatus 422, WriteData (invalid_layers_msg loc)]
            else if e = UnreadableResourceError then [SetStatus 422, WriteData (unreadable_msg loc)]
            else if e = PathNotAllowedError then [SetStatus 403, WriteData ''Project path not allowed'']
            else if e = FileNotFoundError then [SetStatus 404, WriteData (not_found_msg loc)]
            else [SetStatus 500, WriteData ''Worker internal error''])"
    using a by (auto simp: lookup_answer_def project_error_def split: if_splits)
  with calls cases show ?thesis by simp
qed

section \<open>Served projects, end to end\<close>

text \<open>
  What the client of the front end is sent: the data of the calls that write, in order, and the statuses
  that are set.
\<close>

fun sent_body :: "http_call list \<Rightarrow> string" where
  "sent_body [] = []"
| "sent_body (WriteData d # cs) = d @ sent_body cs"
| "sent_body (c # cs) = sent_body cs"

fun sent_statuses :: "http_call list \<Rightarrow> int list" where
  "sent_statuses [] = []"
| "sent_statuses (SetStatus st # cs) = st # sent_statuses cs"
| "sent_statuses (SendErr st msg # cs) = st # sent_statuses cs"
| "sent_statuses (c # cs) = sent_statuses cs"

lemma sent_append [simp]:
  "sent_body (xs @ ys) = sent_body xs @ sent_body ys" "sent_statuses (xs @ ys) = sent_statuses xs @ sent_statuses ys"
  by (induction xs rule: sent_body.induct) simp_all

lemma sent_headers [simp]:
  "sent_body (map (\<lambda>(k, v). SetHeader k (f v)) hds) = []" "sent_statuses (map (\<lambda>(k, v). SetHeader k (f v)) hds) = []"
  by (induction hds) auto

lemma sent_access [simp]:
  "sent_body (fst (set_access_control_headers bc rq)) = []" "sent_statuses (fst (set_access_control_headers bc rq)) = []"
  by (simp_all add: set_access_control_headers_def split: option.split)

lemma sent_chunks [simp]:
  "sent_body (concat (map (\<lambda>c. [WriteData c, FlushData]) ds)) = concat ds"
  "sent_statuses (concat (map (\<lambda>c. [WriteData c, FlushData]) ds)) = []"
  by (induction ds) simp_all

lemma send_whole:
  assumes "rh_status h = st" and "st = 200 \<or> st = 206 \<and> e = None"
  shows "fst (send_response bc rq h (ds, e)) = Inr st" "sent_statuses (snd (send_response bc rq h (ds, e))) = [200]"
    "sent_body (snd (send_response bc rq h (ds, e))) = (case rh_data h of None \<Rightarrow> [] | Some d \<Rightarrow> d) @ (if st = 206 then concat ds else [])"
  using assms by (auto simp: send_response_def truthy_def Let_def split: option.splits list.splits)

text \<open>What the front end has after fetching is what it reads of the body.\<close>

lemma read_fetched:
  assumes "read_body (length ps) m (deliver m ps (snd (fetch_send True m c))) = (st, b, None)" and "st \<noteq> 0"
  obtains h ds e where "fetched m ps c = (Inr h, (ds, e))" "rh_status h = st" "st = 206 \<longrightarrow> e = None"
    "(case rh_data h of None \<Rightarrow> [] | Some d \<Rightarrow> d) @ (if st = 206 then concat ds else []) = b"
  using assms by (auto simp: read_body_def fetched_def Let_def split: prod.splits sum.splits if_splits)

text \<open>QGIS writing a response to the end raises nothing, whatever it writes and flushes.\<close>

lemma flush_calm: "calm r \<Longrightarrow> \<exists>r'. flush r = (None, r') \<and> calm r'"
  by (cases "buf r = []"; cases "fin r"; cases "header_written (rs_h r)"; cases "statusCode r = 206") (simp_all add: rs_simps calm_simps)

lemma run_rops_calm: "calm r \<Longrightarrow> calm (run_rops ops r)"
proof (induction ops r rule: run_rops.induct)
  case (3 ops r)
  with flush_calm [of r] show ?case by force
qed simp_all

lemma finish_calm: "calm r \<Longrightarrow> fst (finish r) = None"
  using flush_calm [of "r\<lparr>fin := True\<rparr>"] by (auto simp: finish_def)

lemma worker_serves:
  assumes "make_request rq = Inr q" and "qr_method q \<noteq> HeadMethod"
    and "od_get (rq_headers rq) ''X-Ogc-Scheme'' = Some ''OWS''" and "request_location s (rq_headers rq) = Some loc"
    and "od_get (rq_headers rq) ''X-Debug-Id'' = None" and "od_get (other_headers (rq_headers rq)) ''If-None-Match'' \<in> {None, Some []}"
    and "cm_wf (wk_cache s)" and "\<And>x. mf \<noteq> Some (Inl x)"
    and "cm_lookup w loc (wk_check_interval s \<le> 0) (wk_cache s) = (Inr (p, st), m')"
    and "\<And>r. qg_handle g q (Some p) r = finish (run_rops ops r)"
  shows "\<exists>r1. fst (worker_answer w g mf s k m rq) = serve ops r1 \<and> fresh r1 \<and> statusCode r1 = 200
    \<and> wk_handled (snd (worker_answer w g mf s k m rq)) = wk_handled s @ [(q, Some p)]"
proof -
  let ?h = "zhandler_init k m (\<lambda>_. True)"
  have loc: "loc \<noteq> []" by (rule request_location_ne [OF assms(4)])
  obtain r1 where r1: "fresh_response r1" and
    hq: "handle_qgis_request w g (Some ''OWS'') (Some loc) (other_headers (rq_headers rq)) q (response_init ?h mf)
        (od_get (rq_headers rq) ''X-Request-Id'') s
      = (finish (run_rops ops r1), (after_lookup p st m' s)\<lparr>wk_config_path := Some (p_file p), wk_handled := wk_handled s @ [(q, Some p)]\<rparr>)"
    using project_served [where scheme = "Some ''OWS''" and g = g and q = q, OF assms(7) loc fresh_init [OF assms(8)] assms(9)] assms(6,10) by metis
  have fr: "fresh r1" "statusCode r1 = 200" using r1 by (simp_all add: fresh_response_def fresh_def)
  obtain r2 where r2: "finish (run_rops ops r1) = (None, r2)"
    using finish_calm [OF run_rops_calm] fr(1) by (metis fresh_def prod.collapse)
  have "handle_message w g mf rq s ?h = ((None, rs_h r2),
      (after_lookup p st m' s)\<lparr>wk_config_path := Some (p_file p), wk_handled := wk_handled s @ [(q, Some p)]\<rparr>)"
    using hq r2 assms(1-5) by (simp add: handle_message_def debug_request_def message_body_def)
  then show ?thesis
    using fr r2 by (intro exI [of _ r1]) (simp add: worker_answer_def serve_request_def serve_def)
qed

text \<open>
  C3: Served projects. A GET or POST request under OWS for a project that can be read, from a client
  that has no copy of it, calls QGIS once, with the project the lookup returned; the HTTP client gets
  status 200, set once, and as body exactly the bytes that QGIS writes, however it splits and flushes
  them on the way, and no error is raised or counted.
\<close>
theorem project_end_to_end:
  assumes "od_wf (hq_headers rq)"
    and "\<forall>k \<in> {''X-Map-Location'', ''X-Ogc-Scheme'', ''If-None-Match'', ''X-Debug-Id''}. \<not> allowed_header (ah_allowed_hdrs ah) k"
    and "ah_ogc_scheme ah = Some ''OWS''" and "garg (hq_arguments rq) ''MAP'' = Some loc" and "loc \<noteq> []"
    and "od_get (hq_headers rq) ''If-None-Match'' = None" and "truthy (od_get (hq_headers rq) ''X-Debug-Id'') = None"
    and "make_request (message_of (make_call garg encode ah meth rq)) = Inr q" and "qr_method q \<noteq> HeadMethod"
    and "cm_wf (wk_cache s)" and "\<forall>x. mf \<noteq> Some (Inl x)" and "m \<notin> set (client.table c)"
    and "cm_lookup w loc (wk_check_interval s \<le> 0) (wk_cache s) = (Inr (p, st), m')"
    and "\<forall>r. qg_handle g q (Some p) r = finish (run_rops ops r)"
    and "http_roundtrip garg encode ah w g mf s k m c meth rq st0 = (hn, s')"
  shows "hn_raised hn = None \<and> sent_statuses (hn_calls hn) = [200] \<and> sent_body (hn_calls hn) = written ops
    \<and> hn_stats hn = st0\<lparr>num_requests := Suc (num_requests st0)\<rparr> \<and> wk_handled s' = wk_handled s @ [(q, Some p)]"
proof -
  define call where "call = make_call garg encode ah meth rq"
  have "(case od_get (hq_headers rq) ''If-None-Match'' of None \<Rightarrow> [] | Some u \<Rightarrow> u) = []" using assms(6) by simp
  note head = ows_message [where garg = garg and rq = rq and encode = encode and meth = meth, OF assms(1-5) this assms(7) refl, folded call_def]
  have "od_get (other_headers (rq_headers (message_of call))) ''If-None-Match'' \<in> {None, Some []}" using head(3) by simp
  from worker_serves [OF assms(8) [folded call_def] assms(9) head(1,2,4) this assms(10) _ assms(13), of mf g ops k m] assms(11,14)
  obtain r1 where wa: "fst (worker_answer w g mf s k m (message_of call)) = serve ops r1" "fresh r1" "statusCode r1 = 200"
    "wk_handled (snd (worker_answer w g mf s k m (message_of call))) = wk_handled s @ [(q, Some p)]" by blast
  define code where "code = (if Flush \<in> set ops then 206 else 200 :: int)"
  from stream_delivered [OF wa(2,3) registered_by_fetch [OF assms(12)] le_refl, of ops]
  have "read_body (length (serve ops r1)) m (deliver m (serve ops r1) (snd (fetch_send True m c))) = (code, written ops, None)" "code \<noteq> 0"
    by (simp_all add: code_def)
  then obtain h ds e where f: "fetched m (serve ops r1) c = (Inr h, (ds, e))" "rh_status h = code" "code = 206 \<longrightarrow> e = None"
    "(case rh_data h of None \<Rightarrow> [] | Some d \<Rightarrow> d) @ (if code = 206 then concat ds else []) = written ops" by (rule read_fetched)
  have code: "code = 200 \<or> code = 206 \<and> e = None" "\<not> 500 \<le> code" using f(3) by (auto simp: code_def)
  have b: "(\<lambda>call. fetched m (fst (worker_answer w g mf s k m (message_of call))) c) call = (Inr h, (ds, e))" by (simp add: wa(1) f(1))
  have "hn = handle_http garg encode ah (\<lambda>call. fetched m (fst (worker_answer w g mf s k m (message_of call))) c) meth rq st0"
    using assms(15) by (simp add: http_roundtrip_def)
  with b send_whole [OF f(2) code(1), of "ah_base ah" "snd (proxy_url (ah_base ah) rq)" ds] code(2) f(4)
  have "hn_raised hn = None \<and> sent_statuses (hn_calls hn) = [200] \<and> sent_body (hn_calls hn) = written ops
      \<and> hn_stats hn = st0\<lparr>num_requests := Suc (num_requests st0)\<rparr>"
    by (cases "send_response (ah_base ah) (snd (proxy_url (ah_base ah) rq)) h (ds, e)")
      (simp add: handle_http_def call_def [symmetric] Let_def)
  with wa(4) assms(15) show ?thesis by (auto simp: http_roundtrip_def call_def)
qed

section \<open>Examples\<close>

definition star_request :: http_request where
  "star_request = sample_request\<lparr>hq_headers := [(''If-None-Match'', ''*'')], hq_arguments := [(''MAP'', [''town''])]\<rparr>"

theorem revalidation_end_to_end_witness:
  "last (hn_calls (fst (http_roundtrip last_value encode_arguments default_handler env_town idle_qgis None (sample_worker True)
      ''c'' ''m'' client_init ''GET'' star_request \<lparr>num_requests = 0, num_errors = 0\<rparr>))) = SetStatus 304"
proof -
  let ?p = "prepare_project strict_options (sample_project ''/d/town.qgs'' [])"
  obtain m' where l: "cm_lookup env_town ''town'' (wk_check_interval (sample_worker True) \<le> 0) (wk_cache (sample_worker True))
     = (Inr (?p, Inserted), m')" using sample_lookup by blast
  obtain t where t: "lru_peek ''town'' (cm_lru m') = Some (?p, t)" using lookup_cached [OF sample_worker_wf l] by blast
  obtain q where q: "make_request (message_of (make_call last_value encode_arguments default_handler ''GET'' star_request)) = Inr q"
    using get_request [OF get_call] by blast
  obtain e where e: "compute_etag idle_qgis (after_lookup ?p Inserted m' (sample_worker True)) ''town'' (drop_us t) q = Some e"
  proof -
    have "wk_force_etag (after_lookup ?p Inserted m' (sample_worker True))" by (simp add: after_lookup_def sample_worker_def)
    moreover have "py_lower ''GetCapabilities'' = ''getcapabilities''" by code_simp
    then have "py_lower (qg_parameter idle_qgis q ''REQUEST'') = ''getcapabilities''" by (simp add: idle_qgis_def)
    ultimately show thesis using that by (simp add: compute_etag_def)
  qed
  have h: "od_wf (hq_headers star_request)" "od_get (hq_headers star_request) ''If-None-Match'' = Some ''*''"
    "truthy (od_get (hq_headers star_request) ''X-Debug-Id'') = None" "ah_ogc_scheme default_handler = Some ''OWS''"
    by (simp_all add: star_request_def od_wf_def od_keys_def truthy_def default_handler_def)
  have a: "\<forall>k \<in> {''X-Map-Location'', ''X-Ogc-Scheme'', ''If-None-Match'', ''X-Debug-Id''}. \<not> allowed_header (ah_allowed_hdrs default_handler) k"
    by code_simp
  have g: "last_value (hq_arguments star_request) ''MAP'' = Some ''town''"
  proof -
    have "py_strip ''town'' = ''town''" by code_simp
    then show ?thesis by (simp add: last_value_def star_request_def)
  qed
  obtain hn s' where r: "http_roundtrip last_value encode_arguments default_handler env_town idle_qgis None (sample_worker True)
      ''c'' ''m'' client_init ''GET'' star_request \<lparr>num_requests = 0, num_errors = 0\<rparr> = (hn, s')" by fastforce
  have c: "''m'' \<notin> set (client.table client_init)" "\<forall>x. None \<noteq> Some (Inl x)" by (simp_all add: client_init_def)
  have "''*'' = ''*'' \<or> ''*'' = e" and "''town'' \<noteq> []" by simp_all
  from revalidation_end_to_end [where garg = last_value and encode = encode_arguments and m = "''m''" and k = "''c''", OF h(1) a h(4) g this(2) h(2) this(1) h(3) q sample_worker_wf c(2,1) l t e r] r
  show ?thesis by simp
qed

definition town_request :: http_request where
  "town_request = sample_request\<lparr>hq_arguments := [(''MAP'', [''town''])]\<rparr>"

lemma town_argument: "last_value (hq_arguments town_request) ''MAP'' = Some ''town''"
proof -
  have "py_strip ''town'' = ''town''" by code_simp
  then show ?thesis by (simp add: last_value_def town_request_def)
qed

theorem project_errors_end_to_end_witness:
  "\<exists>cors. hn_calls (fst (http_roundtrip last_value encode_arguments default_handler (one_file ''/other'') idle_qgis None (sample_worker False)
      ''c'' ''m'' client_init ''GET'' town_request \<lparr>num_requests = 0, num_errors = 0\<rparr>)) = cors @ [SetStatus 404, WriteData (not_found_msg ''town'')]"
proof -
  obtain q where q: "make_request (message_of (make_call last_value encode_arguments default_handler ''GET'' town_request)) = Inr q"
    "qr_method q = GetMethod"
    using get_request [OF get_call] by blast
  then have pl: "plain_request (message_of (make_call last_value encode_arguments default_handler ''GET'' town_request)) q"
    by (simp add: plain_request_def)
  have e1: "fst (cm_lookup (one_file ''/other'') ''town'' (wk_check_interval (sample_worker False) \<le> 0) (wk_cache (sample_worker False)))
      = Inl FileNotFoundError" by code_simp
  have h: "od_wf (hq_headers town_request)" "\<not> allowed_header (ah_allowed_hdrs default_handler) ''X-Map-Location''" by code_simp+
  obtain hn s' where r: "http_roundtrip last_value encode_arguments default_handler (one_file ''/other'') idle_qgis None (sample_worker False)
      ''c'' ''m'' client_init ''GET'' town_request \<lparr>num_requests = 0, num_errors = 0\<rparr> = (hn, s')" by fastforce
  show ?thesis
    using project_errors_end_to_end [OF h town_argument _ pl e1 _ _ r] r by (simp add: client_init_def)
qed

theorem project_end_to_end_witness:
  "let (hn, s') = http_roundtrip last_value encode_arguments default_handler env_town (writing_qgis chunked) None (sample_worker True)
      ''c'' ''m'' client_init ''GET'' town_request \<lparr>num_requests = 0, num_errors = 0\<rparr>
   in sent_statuses (hn_calls hn) = [200] \<and> sent_body (hn_calls hn) = ''abcd'' \<and> length (wk_handled s') = 1"
proof -
  let ?p = "prepare_project strict_options (sample_project ''/d/town.qgs'' [])"
  obtain m' where l: "cm_lookup env_town ''town'' (wk_check_interval (sample_worker True) \<le> 0) (wk_cache (sample_worker True))
     = (Inr (?p, Inserted), m')" using sample_lookup by blast
  obtain q where q: "make_request (message_of (make_call last_value encode_arguments default_handler ''GET'' town_request)) = Inr q"
    "qr_method q = GetMethod" using get_request [OF get_call] by blast
  then have hm: "qr_method q \<noteq> HeadMethod" by simp
  have h: "od_wf (hq_headers town_request)" "od_get (hq_headers town_request) ''If-None-Match'' = None"
    "truthy (od_get (hq_headers town_request) ''X-Debug-Id'') = None" "ah_ogc_scheme default_handler = Some ''OWS''" by code_simp+
  have a: "\<forall>k \<in> {''X-Map-Location'', ''X-Ogc-Scheme'', ''If-None-Match'', ''X-Debug-Id''}. \<not> allowed_header (ah_allowed_hdrs default_handler) k"
    by code_simp
  obtain hn s' where r: "http_roundtrip last_value encode_arguments default_handler env_town (writing_qgis chunked) None (sample_worker True)
      ''c'' ''m'' client_init ''GET'' town_request \<lparr>num_requests = 0, num_errors = 0\<rparr> = (hn, s')" by fastforce
  have c: "''m'' \<notin> set (client.table client_init)" "\<forall>x. None \<noteq> Some (Inl x)" by (simp_all add: client_init_def)
  have w: "\<forall>r. qg_handle (writing_qgis chunked) q (Some ?p) r = finish (run_rops chunked r)" by (simp add: writing_qgis_def)
  have "wk_handled (sample_worker True) = []" by (simp add: sample_worker_def)
  with project_end_to_end [OF h(1) a h(4) town_argument _ h(2,3) q(1) hm sample_worker_wf c(2,1) l w r] r
  show ?thesis by (simp add: chunked_def)
qed

end
