(* ===== verification/Launch.thy ===== *)
theory Launch
  imports Config QgsWorker Plugins
begin

text \<open>
  The start of a worker: the command line of \<open>src/pyqgisserver/qgsworker.py\<close> (\<open>main\<close> and
  \<open>run\<close>), the log handler of \<open>src/pyqgisserver/logger.py\<close>, and what
  \<open>QgsRequestHandler.init_server\<close> and \<open>QgsCacheManager.__init__\<close> make of the
  configuration. It composes Config, Plugins, CacheManager and QgsWorker: a setting of a file or of the
  environment is followed up to the projects that a worker serves.
\<close>

section \<open>The log handler\<close>

definition level_names :: "(string, int) odict" where
  "level_names = [(''CRITICAL'', 50), (''FATAL'', 50), (''ERROR'', 40), (''WARNING'', 30), (''WARN'', 30),
     (''INFO'', 20), (''DEBUG'', 10), (''NOTSET'', 0)]"

text \<open>The logger: its level, the formats of its handlers, and the level names added to the library's.\<close>

record logger =
  lg_level :: int
  lg_handlers :: "string list"
  lg_names :: "(int, string) odict"

text \<open>\<open>getattr(logging, ...)\<close> finds the levels of the library only.\<close>

definition setup_log_handler :: "string \<Rightarrow> string \<Rightarrow> logger \<Rightarrow> bool result \<times> logger" where
  "setup_log_handler log_level formatstr l =
     (let l1 = l\<lparr>lg_names := od_set 22 ''RREQ'' (od_set 21 ''REQ'' (lg_names l))\<rparr>
      in case od_get level_names (py_upper log_level) of
           None \<Rightarrow> (Inl AttributeError, l1)
         | Some v \<Rightarrow> (let l2 = l1\<lparr>lg_level := v\<rparr>
             in if lg_handlers l2 = [] then (Inr True, l2\<lparr>lg_handlers := [formatstr]\<rparr>) else (Inr False, l2)))"

definition log_format :: string where
  "log_format = ''%(asctime)s'' @ [CHR 9] @ ''%(levelname)s'' @ [CHR 9] @ ''[%(process)d]'' @ [CHR 9] @ ''%(message)s''"

section \<open>The configuration of a standalone worker\<close>

text \<open>The parsed command line. A host is always there: its default is \<open>localhost\<close>.\<close>

record worker_args =
  wa_debug :: bool
  wa_config :: "string option"
  wa_hostaddr :: string
  wa_identity :: string
  wa_rootdir :: "string option"
  wa_version :: bool

definition worker_override :: "worker_args \<Rightarrow> config \<Rightarrow> config result" where
  "worker_override a c =
     rbind (set_arg ''projects.cache'' ''rootdir'' (wa_rootdir a) c) (\<lambda>c1.
     rbind (set_arg ''zmq'' ''hostaddr'' (Some (wa_hostaddr a)) c1) (\<lambda>c2.
       if wa_debug a then service_set ''logging'' ''level'' ''DEBUG'' c2 else Inr c2))"

text \<open>\<open>files\<close> is what reading a configuration file gives: its sections.\<close>

type_synonym conf_files = "string \<Rightarrow> (string \<times> options) list result"

definition worker_configuration ::
  "environ \<Rightarrow> conf_files \<Rightarrow> (string \<Rightarrow> bool) \<Rightarrow> worker_args \<Rightarrow> config \<Rightarrow> config result" where
  "worker_configuration env files isdir a c0 =
     rbind (load_configuration env c0) (\<lambda>c.
     rbind (case nonempty (wa_config a) of None \<Rightarrow> Inr c | Some path \<Rightarrow> rbind (files path) (\<lambda>f. Inr (parser_read f c))) (\<lambda>c1.
     rbind (worker_override a c1) (validate_config_path isdir ''projects.cache'' ''rootdir'' False)))"

text \<open>What \<open>run\<close> is called with.\<close>

record launch =
  la_conf :: config
  la_logger :: logger
  la_router :: string
  la_identity :: string
  la_broadcast :: string

datatype main_end = MainExits int | MainRaises exn | MainRuns launch

definition worker_launch ::
  "environ \<Rightarrow> conf_files \<Rightarrow> (string \<Rightarrow> bool) \<Rightarrow> worker_args \<Rightarrow> config \<Rightarrow> logger \<Rightarrow> launch result" where
  "worker_launch env files isdir a c0 l =
     rbind (worker_configuration env files isdir a c0) (\<lambda>c.
     let (level, c1) = conf_get env ''logging'' ''level'' None c in
     rbind level (\<lambda>lv.
     let (added, l1) = setup_log_handler lv log_format l in
     rbind added (\<lambda>_.
     let (broadcast, c2) = conf_get env ''zmq'' ''broadcastaddr'' None c1 in
     rbind broadcast (\<lambda>bc.
     let (router, c3) = conf_get env ''zmq'' ''bindaddr'' None c2 in
     rbind router (\<lambda>ro. Inr \<lparr>la_conf = c3, la_logger = l1, la_router = ro, la_identity = wa_identity a, la_broadcast = bc\<rparr>)))))"

definition worker_main ::
  "environ \<Rightarrow> conf_files \<Rightarrow> (string \<Rightarrow> bool) \<Rightarrow> worker_args \<Rightarrow> config \<Rightarrow> logger \<Rightarrow> main_end" where
  "worker_main env files isdir a c0 l =
     (if wa_version a then MainExits 1
      else case worker_launch env files isdir a c0 l of Inl e \<Rightarrow> MainRaises e | Inr la \<Rightarrow> MainRuns la)"

section \<open>From the configuration to the cache manager\<close>

text \<open>\<open>conf[s].getboolean(n)\<close> used as a condition: a missing option counts as false.\<close>

definition conf_flag :: "config \<Rightarrow> string \<Rightarrow> string \<Rightarrow> bool result" where
  "conf_flag c s n = rbind (proxy_get to_bool c s n) (\<lambda>r. Inr (r = Some True))"

text \<open>
  The readings of \<open>QgsCacheManager.__init__\<close>. \<open>load_configuration\<close> sets all of the options; were
  one missing, the size would be compared with zero as \<open>None\<close>, and the texts used as \<open>None\<close>.
\<close>

definition given :: "exn \<Rightarrow> 'a option result \<Rightarrow> 'a result" where
  "given e r = rbind r (\<lambda>x. case x of None \<Rightarrow> Inl e | Some v \<Rightarrow> Inr v)"

definition cache_settings :: "config \<Rightarrow> cache_conf result" where
  "cache_settings c = (let flag = conf_flag c ''projects.cache''; txt = (\<lambda>n. given AttributeError (proxy_get Inr c ''projects.cache'' n)) in
     rbind (given TypeError (proxy_get py_int c ''projects.cache'' ''size'')) (\<lambda>size.
     rbind (flag ''strict_check'') (\<lambda>strict.
     rbind (flag ''trust_layer_metadata'') (\<lambda>trust.
     rbind (flag ''disable_getprint'') (\<lambda>getprint.
     rbind (flag ''disable_owsurls'') (\<lambda>owsurls.
     rbind (txt ''default_handler'') (\<lambda>handler.
     rbind (flag ''force_readonly_layers'') (\<lambda>readonly.
     rbind (txt ''allow_storage_schemes'') (\<lambda>allowed.
     rbind (txt ''rootdir'') (\<lambda>root.
       Inr \<lparr>cc_size = size,
            cc_opts = \<lparr>strict_check = strict, trust_layer_metadata = trust, disable_getprint = getprint,
                       disable_owsurls = owsurls, read_only_layers = readonly\<rparr>,
            cc_default_handler = handler, cc_allow_storage_schemes = allowed, cc_rootdir = root\<rparr>))))))))))"

text \<open>User-defined schemes are looked up with the getter, which knows the environment; \<open>resolve_alias\<close> takes its \<open>KeyError\<close> for no scheme.\<close>

definition scheme_alias :: "environ \<Rightarrow> config \<Rightarrow> string \<Rightarrow> string result" where
  "scheme_alias env c n = fst (conf_get env ''projects.schemes'' n None c)"

section \<open>The start of QGIS server in a worker\<close>

fun configure_apis :: "string list \<Rightarrow> config \<Rightarrow> environ \<Rightarrow> environ result" where
  "configure_apis [] c env = Inr env"
| "configure_apis (n # ns) c env = rbind (configure_qgis_api n c env) (configure_apis ns c)"

definition update_environ :: "environ \<Rightarrow> (string, string) odict \<Rightarrow> environ" where
  "update_environ env kvs = foldl (\<lambda>e (k, v). e(k \<mapsto> v)) env kvs"

record 'p started_worker =
  sw_environ :: environ
  sw_plugins :: "'p plugins"
  sw_advanced :: bool
  sw_management :: bool
  sw_worker :: worker

text \<open>
  What surrounds a worker when it starts: the log level, the files of the projects, the database, the
  plugin directories, the version of QGIS, the lines of a preload file, the clock.
\<close>

record 'p start_world =
  st_level :: int
  st_env :: env
  st_pg :: pg_server
  st_dirs :: "string \<Rightarrow> 'p plugin_dir list"
  st_qgis :: string
  st_lines :: "string \<Rightarrow> string list option"
  st_now :: int

text \<open>
  \<open>init_server\<close> in its order. Two options are read here although the code reads them later:
  \<open>insecure\<close> when the postgres handler is made, \<open>force_etag\<close> with every request. Nothing changes
  them in between.
\<close>

definition init_worker :: "environ \<Rightarrow> 'p start_world \<Rightarrow> config \<Rightarrow> 'p started_worker result" where
  "init_worker env st c0 =
     (let (verb, c) = (if st_level st \<le> 10 then (Inr True, c0) else conf_getboolean env ''logging'' ''qgis_info'' None c0);
          flag = conf_flag c ''projects.cache'' in
     rbind verb (\<lambda>verbose.
     rbind (flag ''trust_layer_metadata'') (\<lambda>trust.
     rbind (flag ''disable_getprint'') (\<lambda>getprint.
     rbind (cache_settings c) (\<lambda>cf.
     rbind (flag ''insecure'') (\<lambda>insecure.
     rbind (cm_init cf (scheme_alias env c) (standard_registry (st_pg st) insecure)) (\<lambda>m.
     rbind (given TypeError (proxy_get py_int c ''projects.cache'' ''check_interval'')) (\<lambda>interval.
     rbind (flag ''advanced_report'') (\<lambda>advanced.
     rbind (flag ''has_observers'') (\<lambda>observers.
     rbind (flag ''force_etag'') (\<lambda>etag.
     let sv = \<lparr>sv_trust = trust, sv_disable_getprint = getprint, sv_check_interval = interval, sv_has_observers = observers,
               sv_force_etag = etag \<or> trust, sv_verbose = verbose, sv_log_level = st_level st\<rparr> in
     rbind (qgis_api_endpoints False c) (\<lambda>eps.
     rbind (configure_apis (map fst eps) c (update_environ env (server_environ sv))) (\<lambda>env1.
     let env2 = env1(''QGIS_SERVER_PROJECT_CACHE_STRATEGY'' \<mapsto> ''off'');
         (loaded, ps) = load_plugins env2 c (st_qgis st) (st_dirs st) \<lparr>pl_loaded = [], pl_failed = []\<rparr> in
     rbind loaded (\<lambda>_.
     rbind (conf_flag c ''management'' ''enabled'') (\<lambda>management.
     rbind (proxy_get Inr c ''projects.cache'' ''preload_config'') (\<lambda>path.
     rbind (init_server (st_env st) sv m (st_now st) (env2 ''QGIS_PROJECT_FILE'')
              (case nonempty path of None \<Rightarrow> None | Some p \<Rightarrow> st_lines st p)) (\<lambda>s.
       Inr \<lparr>sw_environ = env2, sw_plugins = ps, sw_advanced = advanced, sw_management = management, sw_worker = s\<rparr>)))))))))))))))))"

text \<open>\<open>run\<close>: the identity must be ASCII; it is encoded after the start.\<close>

definition ascii_encode :: "string \<Rightarrow> string result" where
  "ascii_encode s = (if \<forall>ch \<in> set s. of_char ch < (128 :: nat) then Inr s else Inl (OtherError ''UnicodeEncodeError''))"

definition run_qgis_worker :: "environ \<Rightarrow> 'p start_world \<Rightarrow> launch \<Rightarrow> ('p started_worker \<times> string) result" where
  "run_qgis_worker env st la =
     rbind (init_worker env st (la_conf la)) (\<lambda>sw. rbind (ascii_encode (la_identity la)) (\<lambda>i. Inr (sw, i)))"

text \<open>\<open>init_metadata_report\<close>: the memory used since, when the process is watched.\<close>

definition init_metadata_report :: "bool \<Rightarrow> int \<Rightarrow> int \<Rightarrow> int \<Rightarrow> meta result option" where
  "init_metadata_report advanced pid start_mem mem =
     (if advanced then Some (Inr [(''pid'', pid), (''mem_used'', mem - start_mem)]) else None)"

section \<open>Where the settings come from\<close>

definition worker_setting :: "worker_args \<Rightarrow> string \<Rightarrow> string \<Rightarrow> string option" where
  "worker_setting a s n =
     (if (s, n) = (''projects.cache'', ''rootdir'') then wa_rootdir a
      else if (s, n) = (''zmq'', ''hostaddr'') then Some (wa_hostaddr a)
      else if (s, n) = (''logging'', ''level'') \<and> wa_debug a then Some ''DEBUG'' else None)"

definition worker_steps :: "worker_args \<Rightarrow> conf_step list" where
  "worker_steps a = opt_step ''projects.cache'' ''rootdir'' (wa_rootdir a) @ opt_step ''zmq'' ''hostaddr'' (Some (wa_hostaddr a))
     @ opt_step ''logging'' ''level'' (if wa_debug a then Some ''DEBUG'' else None)"

lemma worker_override_steps: "worker_override a c = run_steps (worker_steps a) c"
proof -
  have e: "(if wa_debug a then service_set ''logging'' ''level'' ''DEBUG'' x else Inr x)
      = set_arg ''logging'' ''level'' (if wa_debug a then Some ''DEBUG'' else None) x" for x
    by (simp add: set_arg_def)
  show ?thesis unfolding worker_override_def worker_steps_def run_steps_append run_opt_step e ..
qed

lemma last_set_worker: "last_set (worker_steps a) s n = worker_setting a s n"
  unfolding worker_steps_def last_set_append last_set_opt_step worker_setting_def
  by (auto simp: first_set2 split: option.split)

lemma worker_steps_ok:
  assumes "{''projects.cache'', ''zmq'', ''logging''} \<subseteq> set ss" "plain_value (wa_rootdir a)" "CHR ''$'' \<notin> set (wa_hostaddr a)"
  shows "steps_ok ss (worker_steps a)"
proof -
  have q: "plain_value (if wa_debug a then Some ''DEBUG'' else None)" "plain_value (Some (wa_hostaddr a))"
    using assms(3) by (simp_all add: plain_value_def)
  have r: "steps_ok ss (opt_step s n b)" if "s \<in> set ss" "s \<noteq> ''DEFAULT''" "plain_value b" for s n b
    using steps_ok_opt_step [OF that, of n "[]"] by simp
  show ?thesis unfolding worker_steps_def using assms(1,2) by (simp add: steps_ok_opt_step r q)
qed

lemma worker_sections:
  "AddSection ''projects.cache'' \<in> set (load_steps env)" "AddSection ''zmq'' \<in> set (load_steps env)"
  "AddSection ''logging'' \<in> set (load_steps env)"
  by (simp_all add: load_steps_def cache_steps_def zmq_steps_def logging_steps_def)

text \<open>Loading, reading and overriding succeed on plain values, with the precedence of the server.\<close>

definition file_given :: "conf_files \<Rightarrow> worker_args \<Rightarrow> (string \<times> options) list \<Rightarrow> bool" where
  "file_given files a f = (case nonempty (wa_config a) of None \<Rightarrow> f = [] | Some path \<Rightarrow> files path = Inr f)"

lemma worker_merged:
  assumes "\<forall>n. plain_value (env n)" "plain_value (wa_rootdir a)" "CHR ''$'' \<notin> set (wa_hostaddr a)"
    and "c_defaults c0 = []" "file_given files a f" "''DEFAULT'' \<notin> fst ` set f"
  obtains c where "worker_configuration env files isdir a c0 = validate_config_path isdir ''projects.cache'' ''rootdir'' False c"
    "\<And>s n. raw_get c s n = first_set [worker_setting a s n, file_setting f s n, default_setting env s n]"
proof -
  obtain c where c: "load_configuration env c0 = Inr c" "c_defaults c = []" "\<And>s n. raw_get c s n = default_setting env s n"
    by (rule load_ok [OF assms(1,4)]) blast
  have run: "run_steps (load_steps env) (parser_clear c0) = Inr c" using c(1) by (simp add: load_configuration_def)
  have r: "c_defaults (parser_read f c) = []" "\<And>s. has_section c s \<Longrightarrow> has_section (parser_read f c) s"
      "\<And>s n. raw_get (parser_read f c) s n = first_set [file_setting f s n, raw_get c s n]"
    using parser_read_spec [OF assms(6) c(2)] by auto
  have "steps_ok (od_keys (c_sections (parser_read f c))) (worker_steps a)"
    by (rule worker_steps_ok [OF _ assms(2,3)])
      (use section_of_steps [OF run] worker_sections r(2) in \<open>auto simp: has_section_def od_has_iff\<close>)
  then have "\<exists>c'. run_steps (worker_steps a) (parser_read f c) = Inr c' \<and> c_defaults c' = []
        \<and> (\<forall>s. has_section (parser_read f c) s \<longrightarrow> has_section c' s)
        \<and> (\<forall>s n. raw_get c' s n = first_set [last_set (worker_steps a) s n, raw_get (parser_read f c) s n])"
    by (rule run_steps_ok) (use r(1) in \<open>auto simp: has_section_def od_has_iff\<close>)
  then obtain c' where c': "worker_override a (parser_read f c) = Inr c'"
      "\<And>s n. raw_get c' s n = first_set [worker_setting a s n, raw_get (parser_read f c) s n]"
    by (auto simp: worker_override_steps last_set_worker)
  have "(case nonempty (wa_config a) of None \<Rightarrow> Inr c | Some path \<Rightarrow> rbind (files path) (\<lambda>f. Inr (parser_read f c))) = Inr (parser_read f c)"
    using assms(5) by (auto simp: file_given_def parser_read_def split: option.splits)
  then show ?thesis
    by (intro that [of c']) (simp_all add: worker_configuration_def c(1) c' r(3) c(3) first_set3)
qed

lemma worker_defaults:
  "default_setting env ''projects.cache'' ''rootdir'' = Some (getenv env ''QGSRV_CACHE_ROOTDIR'' [])"
  "default_setting env ''projects.cache'' ''strict_check'' = Some (getenv env ''QGSRV_CACHE_STRICT_CHECK'' ''yes'')"
  "default_setting env ''logging'' ''level'' = Some (getenv env ''QGSRV_LOGGING_LEVEL'' ''INFO'')"
  "default_setting env ''zmq'' ''bindaddr'' = Some (getenv env ''QGSRV_ZMQ_INADDR'' ''tcp://${zmq:hostaddr}:18080'')"
  "default_setting env ''zmq'' ''broadcastaddr'' = Some (getenv env ''QGSRV_ZMQ_BROADCASTADDR'' ''tcp://${zmq:hostaddr}:18090'')"
  by (simp_all add: group_defaults cache_steps_def logging_steps_def zmq_steps_def)

text \<open>A validated path: it stays plain, and only the option itself changes.\<close>

lemma norm_comps_set: "w \<in> set (norm_comps rt acc cs) \<Longrightarrow> w \<in> set acc \<or> w \<in> set cs \<or> w = ''..''"
  by (induction rt acc cs rule: norm_comps.induct) (auto split: if_splits dest: in_set_butlastD)

lemma normpath_plain: "CHR ''$'' \<notin> set p \<Longrightarrow> CHR ''$'' \<notin> set (normpath p)"
  by (auto simp: normpath_def Let_def dest!: join_with_set norm_comps_set split_on_set)

lemma validated_path:
  assumes "raw_get c s n = Some v" "s \<noteq> ''DEFAULT''" "CHR ''$'' \<notin> set v"
  shows "(\<not> isdir (normpath v) \<or> \<not> isabs (normpath v) \<longrightarrow> validate_config_path isdir s n False c = Inl ValueError)
    \<and> (isdir (normpath v) \<and> isabs (normpath v) \<longrightarrow> (\<exists>c'. validate_config_path isdir s n False c = Inr c'
        \<and> (\<forall>s' n'. raw_get c' s' n' = (if s' = s \<and> n' = n then Some (normpath v) else raw_get c s' n'))))"
proof -
  have g: "proxy_get Inr c s n = Inr (Some v)" by (rule proxy_get_plain [OF assms(1-3) refl])
  obtain d where d: "od_get (c_sections c) s = Some d" using raw_get_section [OF assms(1,2)] assms(2) by (auto simp: service_contains_def has_section_def od_has_def)
  obtain c' where c': "parser_set s n (normpath v) c = Inr c'"
    using d assms(2) normpath_plain [OF assms(3)] by (simp add: parser_set_def)
  with raw_get_set [OF c' assms(2)] g show ?thesis by (auto simp: validate_config_path_def Let_def)
qed

text \<open>The addresses refer to the host.\<close>

lemma host_address:
  assumes "raw_get c ''zmq'' ''hostaddr'' = Some h" "CHR ''$'' \<notin> set h"
  shows "interpolate interp_depth c ''zmq'' ''tcp://${zmq:hostaddr}:18080'' = Inr (''tcp://'' @ h @ '':18080'')"
    "interpolate interp_depth c ''zmq'' ''tcp://${zmq:hostaddr}:18090'' = Inr (''tcp://'' @ h @ '':18090'')"
proof -
  have "interpolate (Suc d) c ''zmq'' ''tcp://${zmq:hostaddr}:18080'' = Inr (''tcp://'' @ h @ '':18080'')"
    "interpolate (Suc d) c ''zmq'' ''tcp://${zmq:hostaddr}:18090'' = Inr (''tcp://'' @ h @ '':18090'')" for d
    using assms by (simp_all add: ref_split_def before_def after_def resolve_ref_def)
  from this [of 9] show "interpolate interp_depth c ''zmq'' ''tcp://${zmq:hostaddr}:18080'' = Inr (''tcp://'' @ h @ '':18080'')"
    "interpolate interp_depth c ''zmq'' ''tcp://${zmq:hostaddr}:18090'' = Inr (''tcp://'' @ h @ '':18090'')"
    by (simp_all add: interp_depth_def)
qed

lemma conf_get_known: "parser_get c s n = Inr (Some v) \<Longrightarrow> conf_get env s n fb c = (Inr v, c)"
  by (simp add: conf_get_def service_get_def parser_conv_def)

section \<open>What a standalone worker starts with\<close>

text \<open>What an address is for a host: the default refers to the host, any other one stands for itself.\<close>

definition address_at :: "string \<Rightarrow> string \<Rightarrow> string \<Rightarrow> string" where
  "address_at host port v = (if v = ''tcp://${zmq:hostaddr}:'' @ port then ''tcp://'' @ host @ CHR '':'' # port else v)"

lemma address_known:
  assumes "raw_get c ''zmq'' ''hostaddr'' = Some h" "CHR ''$'' \<notin> set h" "port \<in> {''18080'', ''18090''}"
    and "raw_get c ''zmq'' n = Some v" "v = ''tcp://${zmq:hostaddr}:'' @ port \<or> CHR ''$'' \<notin> set v"
  shows "conf_get env ''zmq'' n None c = (Inr (address_at h port v), c)"
proof (cases "v = ''tcp://${zmq:hostaddr}:'' @ port")
  case True
  with host_address [OF assms(1,2)] assms(3) have "interpolate interp_depth c ''zmq'' v = Inr (''tcp://'' @ h @ CHR '':'' # port)" by auto
  with True assms(4) show ?thesis by (intro conf_get_known) (simp add: parser_get_def address_at_def)
next
  case False
  with assms(4,5) show ?thesis by (intro conf_get_known) (auto simp: parser_get_def address_at_def interpolate_depth_plain)
qed

text \<open>
  C23: The start of a standalone worker. With plain values the command ends in one of three ways: with
  \<open>ValueError\<close> when the normalized root directory is no absolute path of a directory, with
  \<open>AttributeError\<close> when the log level is unknown, and else with the worker running, with that directory
  and level. An address that the configuration file or the environment sets is used as it is; where
  neither does, the address is that of the host of the command line, whatever they say of the host.
\<close>
theorem worker_start:
  assumes "\<forall>n. plain_value (env n)" "plain_value (wa_rootdir a)" "CHR ''$'' \<notin> set (wa_hostaddr a)"
    and "c_defaults c0 = []" "file_given files a f" "''DEFAULT'' \<notin> fst ` set f" "\<not> wa_version a"
    and "first_set [wa_rootdir a, file_setting f ''projects.cache'' ''rootdir'', Some (getenv env ''QGSRV_CACHE_ROOTDIR'' [])] = Some dir"
    and "first_set [if wa_debug a then Some ''DEBUG'' else None, file_setting f ''logging'' ''level'',
           Some (getenv env ''QGSRV_LOGGING_LEVEL'' ''INFO'')] = Some level"
    and "CHR ''$'' \<notin> set dir" "CHR ''$'' \<notin> set level"
    and "plain_value (file_setting f ''zmq'' ''bindaddr'')" "plain_value (file_setting f ''zmq'' ''broadcastaddr'')"
  shows "if \<not> isdir (normpath dir) \<or> \<not> isabs (normpath dir) then worker_main env files isdir a c0 l = MainRaises ValueError
     else case od_get level_names (py_upper level) of
         None \<Rightarrow> worker_main env files isdir a c0 l = MainRaises AttributeError
       | Some v \<Rightarrow> \<exists>la. worker_main env files isdir a c0 l = MainRuns la
           \<and> Some (la_router la) = first_set [file_setting f ''zmq'' ''bindaddr'', env ''QGSRV_ZMQ_INADDR'',
                Some (''tcp://'' @ wa_hostaddr a @ '':18080'')]
           \<and> Some (la_broadcast la) = first_set [file_setting f ''zmq'' ''broadcastaddr'', env ''QGSRV_ZMQ_BROADCASTADDR'',
                Some (''tcp://'' @ wa_hostaddr a @ '':18090'')]
           \<and> la_identity la = wa_identity a \<and> lg_level (la_logger la) = v
           \<and> raw_get (la_conf la) ''projects.cache'' ''rootdir'' = Some (normpath dir)"
proof -
  obtain c where c: "worker_configuration env files isdir a c0 = validate_config_path isdir ''projects.cache'' ''rootdir'' False c"
    "\<And>s n. raw_get c s n = first_set [worker_setting a s n, file_setting f s n, default_setting env s n]"
    by (rule worker_merged [OF assms(1-6)]) blast
  have raw: "raw_get c ''projects.cache'' ''rootdir'' = Some dir" "raw_get c ''logging'' ''level'' = Some level"
    "raw_get c ''zmq'' ''hostaddr'' = Some (wa_hostaddr a)"
    using assms(8,9) by (simp_all add: c(2) worker_setting_def worker_defaults)
  define inaddr where "inaddr = the (first_set [file_setting f ''zmq'' ''bindaddr'', env ''QGSRV_ZMQ_INADDR'', Some ''tcp://${zmq:hostaddr}:18080''])"
  define bcaddr where "bcaddr = the (first_set [file_setting f ''zmq'' ''broadcastaddr'', env ''QGSRV_ZMQ_BROADCASTADDR'', Some ''tcp://${zmq:hostaddr}:18090''])"
  have inaddr: "raw_get c ''zmq'' ''bindaddr'' = Some inaddr" "inaddr = ''tcp://${zmq:hostaddr}:'' @ ''18080'' \<or> CHR ''$'' \<notin> set inaddr"
    "Some (address_at (wa_hostaddr a) ''18080'' inaddr) = first_set [file_setting f ''zmq'' ''bindaddr'', env ''QGSRV_ZMQ_INADDR'',
                Some (''tcp://'' @ wa_hostaddr a @ '':18080'')]"
    using assms(12) assms(1) [rule_format, of "''QGSRV_ZMQ_INADDR''"]
    by (cases "file_setting f ''zmq'' ''bindaddr''"; cases "env ''QGSRV_ZMQ_INADDR''";
        auto simp: c(2) worker_setting_def worker_defaults inaddr_def getenv_def address_at_def plain_value_def)+
  have bcaddr: "raw_get c ''zmq'' ''broadcastaddr'' = Some bcaddr" "bcaddr = ''tcp://${zmq:hostaddr}:'' @ ''18090'' \<or> CHR ''$'' \<notin> set bcaddr"
    "Some (address_at (wa_hostaddr a) ''18090'' bcaddr) = first_set [file_setting f ''zmq'' ''broadcastaddr'', env ''QGSRV_ZMQ_BROADCASTADDR'',
                Some (''tcp://'' @ wa_hostaddr a @ '':18090'')]"
    using assms(13) assms(1) [rule_format, of "''QGSRV_ZMQ_BROADCASTADDR''"]
    by (cases "file_setting f ''zmq'' ''broadcastaddr''"; cases "env ''QGSRV_ZMQ_BROADCASTADDR''";
        auto simp: c(2) worker_setting_def worker_defaults bcaddr_def getenv_def address_at_def plain_value_def)+
  note valid = validated_path [OF raw(1) _ assms(10), of isdir, simplified]
  show ?thesis
  proof (cases "isdir (normpath dir) \<and> isabs (normpath dir)")
    case False
    with valid c(1) assms(7) show ?thesis by (auto simp: worker_main_def worker_launch_def)
  next
    case True
    then obtain c' where c': "validate_config_path isdir ''projects.cache'' ''rootdir'' False c = Inr c'"
      "\<And>s n. raw_get c' s n = (if s = ''projects.cache'' \<and> n = ''rootdir'' then Some (normpath dir) else raw_get c s n)"
      using valid by blast
    have raw': "raw_get c' ''zmq'' n = raw_get c ''zmq'' n" "raw_get c' ''logging'' ''level'' = Some level" for n
      using raw(2) by (simp_all add: c'(2))
    have get: "conf_get env ''logging'' ''level'' None c' = (Inr level, c')"
      by (rule conf_get_known) (simp add: parser_get_def raw' assms(11) interpolate_depth_plain)
    have zmq: "conf_get env ''zmq'' ''broadcastaddr'' None c' = (Inr (address_at (wa_hostaddr a) ''18090'' bcaddr), c')"
      "conf_get env ''zmq'' ''bindaddr'' None c' = (Inr (address_at (wa_hostaddr a) ''18080'' inaddr), c')"
      by (rule address_known [OF _ assms(3)]; simp add: raw' raw(3) inaddr(1) bcaddr(1) inaddr(2) [simplified] bcaddr(2) [simplified])+
    show ?thesis
      using True c(1) c' get zmq inaddr(3) bcaddr(3) assms(7)
      by (cases "od_get level_names (py_upper level)")
        (simp_all add: worker_main_def worker_launch_def setup_log_handler_def Let_def)
  qed
qed

definition broker_env :: environ where
  "broker_env n = (if n = ''QGSRV_ZMQ_HOSTADDR'' then Some ''broker'' else None)"

definition plain_args :: worker_args where
  "plain_args = \<lparr>wa_debug = False, wa_config = Some ''qgis.conf'', wa_hostaddr = ''localhost'', wa_identity = ''w1'',
     wa_rootdir = Some ''/srv'', wa_version = False\<rparr>"

definition new_logger :: logger where
  "new_logger = \<lparr>lg_level = 30, lg_handlers = [], lg_names = []\<rparr>"

theorem worker_start_witness:
  "\<exists>la. worker_main broker_env (\<lambda>_. Inr [(''zmq'', [(''hostaddr'', ''broker'')])]) (\<lambda>_. True) plain_args empty_config new_logger = MainRuns la
     \<and> la_router la = ''tcp://localhost:18080'' \<and> lg_level (la_logger la) = 20"
proof -
  have e: "\<forall>n. plain_value (broker_env n)" by (simp add: broker_env_def plain_value_def)
  have g: "file_given (\<lambda>_. Inr [(''zmq'', [(''hostaddr'', ''broker'')])]) plain_args [(''zmq'', [(''hostaddr'', ''broker'')])]"
    by (simp add: file_given_def plain_args_def nonempty_def)
  have p: "normpath ''/srv'' = ''/srv''" "isabs ''/srv''" "od_get level_names (py_upper ''INFO'') = Some 20" by code_simp+
  show ?thesis
    using worker_start [OF e _ _ _ g, of empty_config "''/srv''" "''INFO''" "\<lambda>_. True" new_logger] p
    by (auto simp: plain_args_def plain_value_def empty_config_def broker_env_def getenv_def)
qed

section \<open>A setting and its effect\<close>

lemma service_get_raw:
  assumes "service_get conv env s n fb c = (r, c')" "s \<noteq> ''DEFAULT''"
  shows "(s', n') \<noteq> (s, n) \<Longrightarrow> raw_get c' s' n' = raw_get c s' n'" "raw_get c s n \<noteq> None \<Longrightarrow> c' = c"
proof -
  have "c' = c \<or> (\<exists>v. parser_set s n v c = Inr c' \<and> raw_get c s n = None)"
    using assms(1) by (auto simp: service_get_def parser_conv_def parser_get_def rbind_eq_Inr
        split: sum.splits option.splits elim!: rbind.elims)
  then show "(s', n') \<noteq> (s, n) \<Longrightarrow> raw_get c' s' n' = raw_get c s' n'" "raw_get c s n \<noteq> None \<Longrightarrow> c' = c"
    using raw_get_set [OF _ assms(2)] by auto
qed

text \<open>The configuration with which a worker is launched.\<close>

lemma validated_other:
  "validate_config_path isdir s n False c = Inr c' \<Longrightarrow> s \<noteq> ''DEFAULT'' \<Longrightarrow> (s', n') \<noteq> (s, n) \<Longrightarrow> raw_get c' s' n' = raw_get c s' n'"
  by (auto simp: validate_config_path_def Let_def rbind_eq_Inr raw_get_set split: if_splits option.splits)

lemma launched_setting:
  assumes "\<forall>n. plain_value (env n)" "plain_value (wa_rootdir a)" "CHR ''$'' \<notin> set (wa_hostaddr a)"
    and "c_defaults c0 = []" "file_given files a f" "''DEFAULT'' \<notin> fst ` set f"
    and "worker_main env files isdir a c0 l = MainRuns la" and "s = ''projects.cache''" "n \<noteq> ''rootdir''"
  shows "raw_get (la_conf la) s n = first_set [file_setting f s n, default_setting env s n]"
proof -
  obtain c where c: "worker_configuration env files isdir a c0 = validate_config_path isdir ''projects.cache'' ''rootdir'' False c"
    "\<And>s n. raw_get c s n = first_set [worker_setting a s n, file_setting f s n, default_setting env s n]"
    by (rule worker_merged [OF assms(1-6)]) blast
  have "worker_launch env files isdir a c0 l = Inr la"
    using assms(7) by (auto simp: worker_main_def split: if_splits sum.splits)
  then obtain c' c1 c2 where c': "validate_config_path isdir ''projects.cache'' ''rootdir'' False c = Inr c'"
    and g: "snd (conf_get env ''logging'' ''level'' None c') = c1" "snd (conf_get env ''zmq'' ''broadcastaddr'' None c1) = c2"
      "snd (conf_get env ''zmq'' ''bindaddr'' None c2) = la_conf la"
    using c(1) by (auto simp: worker_launch_def rbind_eq_Inr case_prod_beta Let_def)
  have keep: "raw_get (snd (conf_get env t k None d)) s n = raw_get d s n" if "t \<in> {''logging'', ''zmq''}" for t k d
    using service_get_raw(1) [of Inr env t k None d _ _ s n] that assms(8) by (cases "conf_get env t k None d") (auto simp: conf_get_def)
  have "raw_get (la_conf la) s n = raw_get c' s n" using keep by (simp flip: g)
  also have "\<dots> = raw_get c s n" using validated_other [OF c'] assms(8,9) by simp
  finally show ?thesis using assms(8,9) by (simp add: c(2) worker_setting_def)
qed

lemma cache_settings_strict:
  assumes "cache_settings c = Inr cf" and "raw_get c ''projects.cache'' ''strict_check'' = Some v" "CHR ''$'' \<notin> set v" "to_bool v = Inr b"
  shows "strict_check (cc_opts cf) = b"
  using assms(1) proxy_get_plain [of c "''projects.cache''" "''strict_check''" v to_bool b] assms(2-4)
  by (auto simp: cache_settings_def conf_flag_def rbind_eq_Inr Let_def)

text \<open>A worker starts with the caches of its manager, after a preload.\<close>

lemma init_worker_cache:
  assumes "init_worker env st c0 = Inr sw" and "st_env st \<in> W"
  obtains c cf where "cache_settings c = Inr cf" "cm_inv W (was_read W (cc_opts cf)) (wk_cache (sw_worker sw))"
    "\<And>n. raw_get c ''projects.cache'' n = raw_get c0 ''projects.cache'' n"
proof -
  obtain vr c where vc: "(if st_level st \<le> 10 then (Inr True, c0) else conf_getboolean env ''logging'' ''qgis_info'' None c0) = (vr, c)"
    by fastforce
  have "\<exists>cf m ins sv now pf pre. cache_settings c = Inr cf \<and> cm_init cf (scheme_alias env c) (standard_registry (st_pg st) ins) = Inr m
      \<and> init_server (st_env st) sv m now pf pre = Inr (sw_worker sw)"
    using assms(1) unfolding init_worker_def Let_def vc by (auto simp: rbind_eq_Inr case_prod_beta) blast
  then obtain cf m ins sv now pf pre where
    *: "cache_settings c = Inr cf" "cm_init cf (scheme_alias env c) (standard_registry (st_pg st) ins) = Inr m"
      "init_server (st_env st) sv m now pf pre = Inr (sw_worker sw)" by blast
  have i: "cm_inv W (was_read W (cc_opts cf)) (if sv_has_observers sv then add_observer m else m)"
    using cm_init_inv [OF *(2)] add_observer_inv by auto
  have preload_state: "wk_cache (sw_worker sw) = snd (preload_projects_file (st_env st) pre (if sv_has_observers sv then add_observer m else m))"
    using *(3) by (auto simp: init_server_def rbind_eq_Inr Let_def case_prod_beta dest!: arg_cong [of _ "sw_worker sw" wk_cache])
  have "cm_inv W (was_read W (cc_opts cf)) (wk_cache (sw_worker sw))"
    using cm_step_inv [OF _ i, of "OpPreload (st_env st) pre"] assms(2)
    by (simp add: preload_state)
  moreover have "raw_get c ''projects.cache'' n = raw_get c0 ''projects.cache'' n" for n
    using vc service_get_raw(1) [of to_bool env "''logging''" "''qgis_info''" None c0 vr c "''projects.cache''" n]
    by (auto simp: conf_getboolean_def split: if_splits)
  ultimately show ?thesis using that *(1) by blast
qed

text \<open>
  C9: Strict checking, from the setting to the projects. When the configuration file, or without it
  the environment or the default, switches \<open>strict_check\<close> on, then whatever the worker has in its
  caches, after its start and any run of lookups, refreshes and preloads, is a project that was read in
  the world of the start or of one of these operations, and every layer that QGIS reported as bad with
  that reading is hidden from the WMS.
\<close>
theorem strict_setting_enforced:
  assumes "\<forall>n. plain_value (env n)" "plain_value (wa_rootdir a)" "CHR ''$'' \<notin> set (wa_hostaddr a)"
    and "c_defaults c0 = []" "file_given files a f" "''DEFAULT'' \<notin> fst ` set f"
    and "worker_main env files isdir a c0 l = MainRuns la" and "run_qgis_worker env' st la = Inr (sw, i)"
    and "first_set [file_setting f ''projects.cache'' ''strict_check'', Some (getenv env ''QGSRV_CACHE_STRICT_CHECK'' ''yes'')] = Some v"
    and "CHR ''$'' \<notin> set v" "to_bool v = Inr True"
    and "cm_peek key ct (foldl cm_step (wk_cache (sw_worker sw)) ops) = Some (p, t)"
  shows "\<exists>w uri opts. w \<in> insert (st_env st) (\<Union>(op_envs ` set ops)) \<and> read_project w opts uri = Inr p
     \<and> (let calls = ro_bad_calls (qgis_read w uri (read_flags opts)) in
          calls \<noteq> [] \<longrightarrow> (\<forall>n. Some (Some n) \<in> set (last calls) \<longrightarrow> n \<in> set (p_restricted p)))"
proof -
  let ?W = "insert (st_env st) (\<Union>(op_envs ` set ops))"
  have "init_worker env' st (la_conf la) = Inr sw" using assms(8) by (auto simp: run_qgis_worker_def rbind_eq_Inr)
  then obtain c cf where c: "cache_settings c = Inr cf" "cm_inv ?W (was_read ?W (cc_opts cf)) (wk_cache (sw_worker sw))"
    "\<And>n. raw_get c ''projects.cache'' n = raw_get (la_conf la) ''projects.cache'' n"
    by (rule init_worker_cache [of _ _ _ _ ?W]) auto
  have "raw_get c ''projects.cache'' ''strict_check'' = Some v"
    using launched_setting [OF assms(1-7) refl, of "''strict_check''"] assms(9) by (simp add: c(3) worker_defaults)
  from cache_settings_strict [OF c(1) this assms(10,11)] have strict: "strict_check (cc_opts cf)" by simp
  have inv: "cm_inv ?W (was_read ?W (cc_opts cf)) (foldl cm_step (wk_cache (sw_worker sw)) ops)"
    by (rule cm_run_inv [OF _ c(2)]) blast
  have "was_read ?W (cc_opts cf) p" using cm_peek_inv [OF inv assms(12)] by simp
  then obtain w uri where w: "w \<in> ?W" "read_project w (cc_opts cf) uri = Inr p" unfolding was_read_def by blast
  with strict_mode_spec [of w uri "cc_opts cf" p] strict show ?thesis
    by (intro exI [of _ w] exI [of _ uri] exI [of _ "cc_opts cf"]) (auto simp: Let_def prepare_project_def)
qed

definition strict_env :: environ where
  "strict_env n = (if n = ''QGSRV_CACHE_STRICT_CHECK'' then Some ''yes'' else None)"

definition roads_world :: env where
  "roads_world = \<lparr>file_mtime = (\<lambda>f. if f = ''/srv/town.qgs'' then Some 5 else None),
     qgis_read = (\<lambda>f fl. \<lparr>ro_ok = True, ro_project = sample_project f [''roads''], ro_bad_calls = [[Some (Some ''roads'')]]\<rparr>),
     storage_mtime = (\<lambda>u. None)\<rparr>"

definition roads_start :: "unit start_world" where
  "roads_start = \<lparr>st_level = 20, st_env = roads_world, st_pg = no_pg, st_dirs = (\<lambda>_. []), st_qgis = ''3.28.0'',
     st_lines = (\<lambda>_. None), st_now = 0\<rparr>"

definition strict_args :: worker_args where
  "strict_args = plain_args\<lparr>wa_config := None\<rparr>"

definition strict_launch :: main_end where
  "strict_launch = worker_main strict_env (\<lambda>_. Inl FileNotFoundError) (\<lambda>_. True) strict_args empty_config new_logger"

lemma strict_run:
  "case strict_launch of MainRuns la \<Rightarrow>
      (case run_qgis_worker (\<lambda>_. None) roads_start la of Inl e \<Rightarrow> False | Inr (sw, i) \<Rightarrow>
        (case cm_peek ''town'' None (foldl cm_step (wk_cache (sw_worker sw)) [OpLookup roads_world ''town'' True]) of
           None \<Rightarrow> False | Some (p, t) \<Rightarrow> p_file p = ''/srv/town.qgs''))
    | _ \<Rightarrow> False"
  by code_simp

theorem strict_setting_enforced_witness:
  "\<exists>la sw i p t uri opts. strict_launch = MainRuns la \<and> run_qgis_worker (\<lambda>_. None) roads_start la = Inr (sw, i)
     \<and> cm_peek ''town'' None (foldl cm_step (wk_cache (sw_worker sw)) [OpLookup roads_world ''town'' True]) = Some (p, t)
     \<and> read_project roads_world opts uri = Inr p \<and> ''roads'' \<in> set (p_restricted p)"
proof -
  from strict_run obtain la sw i p t where r: "strict_launch = MainRuns la" "run_qgis_worker (\<lambda>_. None) roads_start la = Inr (sw, i)"
    "cm_peek ''town'' None (foldl cm_step (wk_cache (sw_worker sw)) [OpLookup roads_world ''town'' True]) = Some (p, t)"
    by (auto split: main_end.splits sum.splits option.splits)
  have e: "\<forall>n. plain_value (strict_env n)" by (simp add: strict_env_def plain_value_def)
  have a: "plain_value (wa_rootdir strict_args)" "CHR ''$'' \<notin> set (wa_hostaddr strict_args)"
    "file_given (\<lambda>_. Inl FileNotFoundError) strict_args []"
    by (simp_all add: strict_args_def plain_args_def plain_value_def file_given_def nonempty_def)
  have b: "to_bool ''yes'' = Inr True" by code_simp
  from strict_setting_enforced [OF e a(1,2) _ a(3) _ r(1) [unfolded strict_launch_def] r(2) _ _ b r(3)] r
  show ?thesis
    by (fastforce simp: empty_config_def strict_env_def getenv_def roads_start_def roads_world_def Let_def)
qed

end
