(* ===== verification/Supervision.thy ===== *)
theory Supervision
  imports Worker Pool
begin

text \<open>
  The workers, the supervisor and the pool together: what a worker that runs its loop
  (\<open>run_worker\<close> of \<open>Worker\<close>) tells the supervisor, what the supervisor kills, and what the pool
  makes of it. The link between a worker and the supervisor is a \<open>PUSH\<close>/\<open>PULL\<close> pair: the messages
  of one worker arrive in order, those of different workers interleave in any order.
\<close>

section \<open>What a worker tells the supervisor\<close>

text \<open>\<open>Client.__init__\<close>: supervision is on when the address of the supervisor is configured.\<close>

definition sup_client_init :: "bool \<Rightarrow> int \<Rightarrow> sup_client" where
  "sup_client_init configured pid = \<lparr>enabled = configured, cl_pid = pid, cl_busy = False\<rparr>"

definition notifications :: "bool \<Rightarrow> bool \<Rightarrow> int \<Rightarrow> 'd worker_input list \<Rightarrow> 'd sup_msg list" where
  "notifications br po p is = notices (snd (snd (run_worker br po (sup_client_init True p) is)))"

definition notices_sent :: "'d worker_input \<Rightarrow> bool" where
  "notices_sent i \<longleftrightarrow> busy_sent i \<and> done_sent i"

text \<open>BUSY and DONE alternate from state \<open>b\<close>, and the state after the messages.\<close>

fun alternates :: "bool \<Rightarrow> 'd sup_msg list \<Rightarrow> bool" where
  "alternates b [] = True"
| "alternates b (BUSY # ms) = (\<not> b \<and> alternates True ms)"
| "alternates b (DONE # ms) = (b \<and> alternates False ms)"
| "alternates b (Report d # ms) = alternates b ms"

fun phase :: "bool \<Rightarrow> 'd sup_msg list \<Rightarrow> bool" where
  "phase b [] = b"
| "phase b (BUSY # ms) = phase True ms"
| "phase b (DONE # ms) = phase False ms"
| "phase b (Report d # ms) = phase b ms"

definition is_report :: "'d sup_msg \<Rightarrow> bool" where
  "is_report m = (case m of Report d \<Rightarrow> True | _ \<Rightarrow> False)"

lemma alternates_append [simp]: "alternates b (ms @ ns) \<longleftrightarrow> alternates b ms \<and> alternates (phase b ms) ns"
  by (induction b ms rule: alternates.induct) auto

lemma phase_append [simp]: "phase b (ms @ ns) = phase (phase b ms) ns"
  by (induction b ms rule: phase.induct) auto

lemma reports_alternate [simp]: "list_all is_report ms \<Longrightarrow> alternates b ms \<and> phase b ms = b"
  by (induction b ms rule: alternates.induct) (auto simp: is_report_def)

lemma list_all_prefix: "prefix xs ys \<Longrightarrow> list_all P ys \<Longrightarrow> list_all P xs"
  by (auto simp: prefix_def)

lemma notices_append [simp]: "notices (as @ bs) = notices as @ notices bs"
  by (induction as rule: notices.induct) auto

text \<open>A turn that serves a request sends BUSY and DONE; after them comes at most a report.\<close>

definition turn_notices :: "recv \<Rightarrow> 'd sup_msg list" where
  "turn_notices r = (case r of Request k m rq \<Rightarrow> [BUSY, DONE] | _ \<Rightarrow> [])"

lemma worker_turn_notices:
  assumes "worker_turn br po c i = (go, c', acts)" and "enabled c" "\<not> cl_busy c" and "notices_sent i"
  obtains rep where "c' = c" "notices acts = turn_notices (received i) @ rep" "list_all is_report rep"
proof -
  have "c' = c \<and> (\<exists>rep. notices acts = turn_notices (received i) @ rep \<and> list_all is_report rep)"
    using assms
    by (cases "received i")
      (auto simp: worker_turn_def Let_def notify_busy_def notify_done_def sup_send_def send_report_def
        notices_sent_def turn_notices_def is_report_def split: prod.splits if_splits)
  with that show thesis by blast
qed

lemma heard_in_turn:
  fixes rep :: "'d sup_msg list"
  assumes "prefix ms (turn_notices r @ rep)" and "list_all is_report rep"
  shows "alternates False ms \<and> (phase False ms \<longrightarrow> ms = [BUSY] \<and> (\<exists>k m rq. r = Request k m rq))"
proof -
  from assms(1) consider (reports) ns where "ms = turn_notices r @ ns" "prefix ns rep"
    | (busy) k m rq where "r = Request k m rq" "ms = [BUSY]" | (nothing) "ms = []"
    by (auto simp: turn_notices_def prefix_Cons prefix_append split: recv.splits)
  then show ?thesis
  proof cases
    case reports
    with assms(2) have "list_all is_report ns" by (simp add: list_all_prefix)
    with reports show ?thesis by (auto simp: turn_notices_def split: recv.splits)
  qed simp_all
qed

text \<open>
  What has been heard of a worker is a prefix of what it sends. When its last word is BUSY, the
  worker is in the turn of a request, and it had finished all turns before.
\<close>

lemma heard_of_worker:
  fixes ms :: "'d sup_msg list"
  assumes "enabled c" "\<not> cl_busy c" "list_all notices_sent is"
    and "prefix ms (notices (snd (snd (run_worker br po c is))))"
  shows "alternates False ms \<and> (phase False ms \<longrightarrow> (\<exists>turns i rest k m rq.
      is = turns @ i # rest \<and> received i = Request k m rq \<and> ms = notices (snd (snd (run_worker br po c turns))) @ [BUSY]))"
  using assms(3,4)
proof (induction "is" arbitrary: ms)
  case (Cons i "is")
  obtain go c' acts where t: "worker_turn br po c i = (go, c', acts)" by (metis prod_cases3)
  from Cons.prems(1) have "notices_sent i" by simp
  from worker_turn_notices [OF t assms(1,2) this] obtain rep where
    rep: "c' = c" "notices acts = turn_notices (received i) @ rep" "list_all is_report rep" .
  let ?N = "\<lambda>is. notices (snd (snd (run_worker br po c is)))"
  have run: "?N (i # js) = turn_notices (received i) @ rep @ (if go then ?N js else [])" for js
    using t rep by (simp add: case_prod_beta)
  from Cons.prems(2) have "prefix ms (turn_notices (received i) @ rep)
      \<or> (\<exists>ns. go \<and> ms = turn_notices (received i) @ rep @ ns \<and> prefix ns (?N is))"
    unfolding run by (cases go) (auto simp: prefix_append)
  then show ?case
  proof (elim disjE exE conjE)
    assume "prefix ms (turn_notices (received i) @ rep)"
    from heard_in_turn [OF this rep(3)] show ?thesis by (auto intro!: exI [of _ "[]"])
  next
    fix ns assume go: go and ms: "ms = turn_notices (received i) @ rep @ ns" and pre: "prefix ns (?N is)"
    have IH: "alternates False ns \<and> (phase False ns \<longrightarrow> (\<exists>turns j rest k m rq.
        is = turns @ j # rest \<and> received j = Request k m rq \<and> ns = ?N turns @ [BUSY]))"
      using Cons.IH [OF _ pre] Cons.prems(1) by simp
    have turn: "alternates False (turn_notices (received i) :: 'd sup_msg list)"
      "\<not> phase False (turn_notices (received i) :: 'd sup_msg list)"
      by (simp_all add: turn_notices_def split: recv.splits)
    show ?thesis
    proof (intro conjI impI)
      show "alternates False ms" using IH turn rep(3) ms by simp
      assume "phase False ms"
      with turn rep(3) ms have "phase False ns" by simp
      with IH obtain turns j rest k m rq where
        "is = turns @ j # rest" "received j = Request k m rq" "ns = ?N turns @ [BUSY]" by blast
      then show "\<exists>turns j rest k m rq. i # is = turns @ j # rest \<and> received j = Request k m rq \<and> ms = ?N turns @ [BUSY]"
        using run [of turns] go ms by (intro exI [of _ "i # turns"]) auto
    qed
  qed
qed simp

section \<open>What the supervisor hears\<close>

fun msgs_of :: "int \<Rightarrow> 'd sup_event list \<Rightarrow> 'd sup_msg list" where
  "msgs_of p [] = []"
| "msgs_of p (Msg now q m # es) = (if q = p then m # msgs_of p es else msgs_of p es)"
| "msgs_of p (Fire i a now # es) = msgs_of p es"

lemma msgs_of_append [simp]: "msgs_of p (es @ fs) = msgs_of p es @ msgs_of p fs"
  by (induction p es rule: msgs_of.induct) auto

text \<open>
  \<open>W q\<close> is what the worker of pid \<open>q\<close> meets, turn by turn. Of each worker the supervisor has heard
  some of its notifications, from the first on, and the socket of the worker dropped none.
\<close>

definition supervised :: "bool \<Rightarrow> bool \<Rightarrow> (int \<Rightarrow> 'd worker_input list) \<Rightarrow> 'd sup_event list \<Rightarrow> bool" where
  "supervised br po W es \<longleftrightarrow>
     (\<forall>q. list_all notices_sent (W q) \<and> prefix (msgs_of q es) (notifications br po q (W q)))"

definition run_supervisor :: "int \<Rightarrow> 'd sup_event list \<Rightarrow> 'd supervisor" where
  "run_supervisor tmo es = foldl sup_step (supervisor_init tmo) es"

lemma supervised_prefix: "supervised br po W (es @ fs) \<Longrightarrow> supervised br po W es"
  by (auto simp: supervised_def dest: append_prefixD)

lemma supervised_heard:
  assumes "supervised br po W es"
  shows "alternates False (msgs_of q es) \<and> (phase False (msgs_of q es) \<longrightarrow> (\<exists>turns i rest k m rq.
      W q = turns @ i # rest \<and> received i = Request k m rq \<and> msgs_of q es = notifications br po q turns @ [BUSY]))"
  using assms heard_of_worker [of "sup_client_init True q" "W q" "msgs_of q es" br po]
  by (simp add: supervised_def notifications_def sup_client_init_def)

lemma busy_since_phase: "busy_since es p \<noteq> None \<longleftrightarrow> phase False (msgs_of p es)"
proof (induction es rule: rev_induct)
  case (snoc e es)
  have "busy_since (es @ [e]) = since_step (busy_since es) e" by (simp add: busy_since_def)
  with snoc show ?case by (cases "(busy_since es, e)" rule: since_step.cases) auto
qed (simp add: busy_since_def)

lemma alternates_alternating:
  "\<forall>q. alternates (ph q) (msgs_of q es) \<Longrightarrow> \<forall>q. od_has q (busy s) \<longrightarrow> ph q \<Longrightarrow> \<not> stopped s \<Longrightarrow> alternating s es"
proof (induction es arbitrary: ph s)
  case (Cons e es)
  show ?case
  proof (cases e)
    case (Msg now p m)
    let ?ph = "ph(p := phase (ph p) [m])"
    have alt: "alternates (ph p) (m # msgs_of p es)" using Cons.prems(1)[rule_format, of p] Msg by simp
    have "\<forall>q. alternates (?ph q) (msgs_of q es)"
      using Cons.prems(1) alt Msg by (cases m) (auto split: if_splits)
    moreover have "\<forall>q. od_has q (busy (sup_step s e)) \<longrightarrow> ?ph q" "\<not> stopped (sup_step s e)"
      using Cons.prems(2,3) Msg by (cases m; auto simp: od_has_def cancel_timer_def split: option.splits)+
    ultimately have "alternating (sup_step s e) es" by (rule Cons.IH)
    with Msg alt Cons.prems(2) show ?thesis by (cases m) auto
  next
    case (Fire i a now)
    have "\<forall>q. alternates (ph q) (msgs_of q es)" using Cons.prems(1) Fire by simp
    moreover have "\<forall>q. od_has q (busy (sup_step s e)) \<longrightarrow> ph q" "\<not> stopped (sup_step s e)"
      using Cons.prems(2,3) Fire
      by (auto simp: od_has_def cancel_timer_def kill_pid_def Let_def split: option.splits)
    ultimately have "alternating (sup_step s e) es" by (rule Cons.IH)
    with Fire show ?thesis by simp
  qed
qed simp

lemma alternating_append [simp]:
  "alternating s (es @ fs) \<longleftrightarrow> alternating s es \<and> alternating (foldl sup_step s es) fs"
  by (induction s es rule: alternating.induct) simp_all

lemma supervised_alternating: "supervised br po W es \<Longrightarrow> alternating (supervisor_init tmo) es"
  by (rule alternates_alternating [where ph = "\<lambda>q. False"])
    (simp_all add: supervised_heard supervisor_init_def od_has_def)

lemma supervised_inv: "supervised br po W es \<Longrightarrow> sup_inv tmo (busy_since es) (run_supervisor tmo es)"
proof -
  have "sup_inv tmo (foldl since_step f es) (foldl sup_step s es)" if "sup_inv tmo f s" "alternating s es" for f s
    using that by (induction es arbitrary: f s) (auto intro: sup_inv_step)
  then show "supervised br po W es \<Longrightarrow> ?thesis"
    unfolding busy_since_def run_supervisor_def by (blast intro: sup_inv_init supervised_alternating)
qed

section \<open>Only a worker stuck in a request is killed\<close>

text \<open>
  C5: The supervisor kills a worker only when the worker is in the turn of a request that was
  announced at least the timeout ago: all it had sent until then are the notifications of the turns
  it had finished and the BUSY of this one.
\<close>

theorem killed_worker_is_stalled:
  assumes "supervised br po W es" and "(p, t) \<in> set (kills (run_supervisor tmo es))"
  shows "\<exists>pre i post t0 turns j rest k m rq. es = pre @ Fire i True t # post
    \<and> busy_since pre p = Some t0 \<and> t0 + tmo \<le> t
    \<and> W p = turns @ j # rest \<and> received j = Request k m rq \<and> msgs_of p pre = notifications br po p turns @ [BUSY]"
proof -
  obtain pre i post t0 where es: "es = pre @ Fire i True t # post" and t0: "busy_since pre p = Some t0" "t0 + tmo \<le> t"
    using supervisor_kills_only_stalled [OF supervised_alternating [OF assms(1)]] assms(2)
    unfolding run_supervisor_def by blast
  from t0(1) have "phase False (msgs_of p pre)" using busy_since_phase [of pre p] by simp
  with supervised_heard [of br po W pre p] assms(1) obtain turns j rest k m rq where
    "W p = turns @ j # rest" "received j = Request k m rq" "msgs_of p pre = notifications br po p turns @ [BUSY]"
    unfolding es by (blast dest: supervised_prefix)
  with es t0 show ?thesis by blast
qed

section \<open>A stalled worker is killed and replaced\<close>

text \<open>The processes the supervisor has killed, as the pool sees them exit: \<open>exitcode\<close> is minus SIGKILL.\<close>

definition killed_exits :: "'d supervisor \<Rightarrow> (int \<times> int) list" where
  "killed_exits s = map (\<lambda>(p, t). (p, - 9)) (kills s)"

lemma busy_msg_timer:
  assumes "\<not> stopped s"
  shows "\<lparr>tid = next_tid s, deadline = tb + timeout_s s, tpid = p\<rparr> \<in> set (timers (sup_step s (Msg tb p BUSY)))"
  using assms by simp

text \<open>No two workers have the same timer, so that the DONE of one does not cancel that of another.\<close>

definition timers_apart :: "'d supervisor \<Rightarrow> bool" where
  "timers_apart s \<longleftrightarrow> (\<forall>p i. od_get (busy s) p = Some i \<longrightarrow> i < next_tid s)
     \<and> (\<forall>p q i. od_get (busy s) p = Some i \<longrightarrow> od_get (busy s) q = Some i \<longrightarrow> p = q)"

lemma timers_apart_init: "timers_apart (supervisor_init tmo)"
  by (simp add: timers_apart_def supervisor_init_def)

lemma timers_apart_step: "timers_apart s \<Longrightarrow> timers_apart (sup_step s e)"
proof (cases e)
  case (Msg now p m)
  assume "timers_apart s"
  with Msg show ?thesis
    by (cases m) (force simp: timers_apart_def cancel_timer_def split: option.splits)+
next
  case (Fire i a now)
  assume "timers_apart s"
  with Fire show ?thesis
    by (auto simp: timers_apart_def cancel_timer_def kill_pid_def Let_def split: option.splits)
qed

interpretation supervisor_sys: step_system sup_step timers_apart
  by unfold_locales (rule timers_apart_step)

text \<open>A timer stays until it fires or its worker is heard again.\<close>

lemma timer_stays_msg:
  assumes "timers_apart s" "sup_inv tmo f s" "u \<in> set (timers s)" "q \<noteq> tpid u"
  shows "u \<in> set (timers (sup_step s (Msg now q m)))"
proof -
  have "od_get (busy s) (tpid u) = Some (tid u)" using assms(2,3) by (simp add: sup_inv_def)
  then have "od_get (busy s) q \<noteq> Some (tid u)" using assms(1,4) by (auto simp: timers_apart_def)
  then show ?thesis using assms(3) by (cases m) (auto simp: cancel_timer_def split: option.splits)
qed

lemma timer_stays:
  assumes "timers_apart s" "sup_inv tmo f s" "alternating s es" "u \<in> set (timers s)"
    and "msgs_of (tpid u) es = []" "\<forall>a now. Fire (tid u) a now \<notin> set es"
  shows "u \<in> set (timers (foldl sup_step s es))"
  using assms
proof (induction es arbitrary: f s)
  case (Cons e es)
  have "u \<in> set (timers (sup_step s e))"
  proof (cases e)
    case (Msg now q m)
    with Cons.prems(5) have "q \<noteq> tpid u" by (auto split: if_splits)
    with Cons.prems(1,2,4) show ?thesis unfolding Msg by (rule timer_stays_msg)
  next
    case (Fire i a now)
    then have "i \<noteq> tid u" using Cons.prems(6) by auto
    with Cons.prems(4) Fire show ?thesis
      by (auto simp: cancel_timer_def kill_pid_def Let_def split: option.splits if_splits)
  qed
  moreover have "sup_inv tmo (since_step f e) (sup_step s e)" "timers_apart (sup_step s e)"
    using Cons.prems by (auto intro: sup_inv_step timers_apart_step)
  moreover have "alternating (sup_step s e) es" "msgs_of (tpid u) es = []" "\<forall>a now. Fire (tid u) a now \<notin> set es"
    using Cons.prems(3,5,6) by (cases e; auto split: if_splits)+
  ultimately show ?case using Cons.IH by simp
qed simp

lemma find_timer:
  assumes "distinct (map tid ts)" "u \<in> set ts"
  shows "find (\<lambda>t. tid t = tid u) ts = Some u"
  using assms by (induction ts) (auto simp: image_iff)

text \<open>The firing of a timer of the invariant kills.\<close>

lemma fire_kills:
  assumes "sup_inv tmo f s" "u \<in> set (timers s)" "deadline u \<le> t"
  shows "kills (sup_step s (Fire (tid u) True t)) = kills s @ [(tpid u, t)]"
proof -
  have "find (\<lambda>t. tid t = tid u) (timers s) = Some u" "od_has (tpid u) (busy s)"
    using assms by (auto simp: sup_inv_def find_timer od_has_def)
  with assms(3) show ?thesis by (simp add: kill_pid_def cancel_timer_def)
qed

lemma stalled_worker_killed:
  fixes pre mid :: "'d sup_event list"
  assumes sup: "supervised br po W (pre @ Msg tb p BUSY # mid)"
    and silent: "msgs_of p mid = []"
    and armed: "i = next_tid (run_supervisor tmo pre)" "\<forall>a now. Fire i a now \<notin> set mid"
    and due: "tb + tmo \<le> t"
  shows "kills (run_supervisor tmo (pre @ Msg tb p BUSY # mid @ [Fire i True t]))
    = kills (run_supervisor tmo (pre @ Msg tb p BUSY # mid)) @ [(p, t)]"
proof -
  let ?s = "run_supervisor tmo pre" and ?s1 = "run_supervisor tmo (pre @ [Msg tb p BUSY])"
    and ?s2 = "run_supervisor tmo (pre @ Msg tb p BUSY # mid)"
  let ?u = "\<lparr>tid = i, deadline = tb + tmo, tpid = p\<rparr>"
  have inv: "sup_inv tmo (busy_since es) (run_supervisor tmo es)" if "prefix es (pre @ Msg tb p BUSY # mid)" for es
  proof -
    from that obtain fs where "pre @ Msg tb p BUSY # mid = es @ fs" by (rule prefixE)
    with sup show ?thesis by (metis supervised_inv supervised_prefix)
  qed
  have apart: "timers_apart (run_supervisor tmo es)" for es :: "'d sup_event list"
    unfolding run_supervisor_def by (rule supervisor_sys.inv_run [OF timers_apart_init])
  have s: "\<not> stopped ?s" "timeout_s ?s = tmo" using inv [of pre] by (auto simp: sup_inv_def)
  have s1: "?s1 = sup_step ?s (Msg tb p BUSY)" "?s2 = foldl sup_step ?s1 mid" by (simp_all add: run_supervisor_def)
  have "?u \<in> set (timers ?s1)" unfolding s1(1) using busy_msg_timer [OF s(1), of tb p] s(2) armed(1) by simp
  moreover have "alternating ?s1 mid"
    using supervised_alternating [OF sup, of tmo] by (simp add: run_supervisor_def)
  ultimately have "?u \<in> set (timers ?s2)"
    unfolding s1(2) using timer_stays [OF apart inv [of "pre @ [Msg tb p BUSY]"], of mid ?u] silent armed(2) by simp
  from fire_kills [OF inv [OF prefix_order.refl] this, of t] due show ?thesis by (simp add: run_supervisor_def)
qed

text \<open>
  In the pool: after the exit of some workers, later than the delay of an early failure, the next
  turn of its loop has none of them left and as many running workers as before.
\<close>

lemma mark_exits_gone:
  "p \<in> fst ` set xs \<Longrightarrow> w \<in> set (p_procs (mark_exits xs pl)) \<Longrightarrow> w_pid w = p \<Longrightarrow> w_exit w \<noteq> None"
  by (auto simp: mark_exits_def intro: weak_map_of_SomeI split: option.splits)

lemma exited_workers_replaced:
  assumes n: "n \<le> length pids" "list_all (enough_pids n) es" "n \<le> length new"
    and pl: "run_worker_pool n t0 pids es = Live pl"
    and late: "t0 + EARLY_FAILURE_DELAY \<le> now"
  shows "\<exists>pl'. run_worker_pool n t0 pids (es @ [Exits xs, Tick now new]) = Live pl' \<and> length (p_procs pl') = n
     \<and> (\<forall>w \<in> set (p_procs pl'). w_exit w = None) \<and> (\<forall>p \<in> fst ` set xs - set new. p \<notin> w_pid ` set (p_procs pl'))"
proof -
  let ?m = "mark_exits xs pl"
  have "pool_inv n t0 (Live pl)" using pool_inv_run [OF n(1,2), of t0] pl by simp
  then have m: "p_start ?m = t0" "\<not> p_critical ?m" by (auto simp: pool_inv_def mark_exits_def)
  obtain pl' a where mt: "maintain_pool now new ?m = (pl', a)" by fastforce
  note spec = maintain_pool_spec [OF mt]
  have na: "\<not> a" using spec(1) late m(1) by (simp add: early_failure_def)
  have run: "run_worker_pool n t0 pids (es @ [Exits xs, Tick now new]) = Live pl'"
    using pl mt m(2) na by (simp add: run_worker_pool_def)
  have "length (p_procs pl') = n"
    using pool_inv_run [OF n(1), of "es @ [Exits xs, Tick now new]" t0] n(2,3) run
    by (simp add: enough_pids_def pool_inv_def)
  moreover have "\<forall>w \<in> set (p_procs pl'). w_exit w = None"
    unfolding spec(3) [OF na] by (auto dest: in_set_takeD)
  moreover have "p \<notin> w_pid ` set (p_procs pl')" if "p \<in> fst ` set xs" "p \<notin> set new" for p
    unfolding spec(3) [OF na] using that(2) mark_exits_gone [OF that(1)]
    by (fastforce simp: start_worker_def dest: in_set_takeD)
  ultimately show ?thesis using run by blast
qed

text \<open>
  C15: A worker that announces a request and is not heard of again is killed by the timer armed for
  that request, as soon as it fires after the timeout, and the pool replaces it: at its next turn
  the pool has the configured number of workers, all running, and the killed one is not among them.
\<close>

theorem stalled_worker_replaced:
  fixes pre mid :: "'d sup_event list"
  assumes "supervised br po W (pre @ Msg tb p BUSY # mid)" and "msgs_of p mid = []"
    and "i = next_tid (run_supervisor tmo pre)" "\<forall>a now. Fire i a now \<notin> set mid" and "tb + tmo \<le> t"
    and "n \<le> length pids" "list_all (enough_pids n) es" "n \<le> length new"
    and "run_worker_pool n t0 pids es = Live pl" and "t0 + EARLY_FAILURE_DELAY \<le> now"
    and s': "s' = run_supervisor tmo (pre @ Msg tb p BUSY # mid @ [Fire i True t])"
  shows "kills s' = kills (run_supervisor tmo (pre @ Msg tb p BUSY # mid)) @ [(p, t)]
    \<and> (\<exists>pl'. run_worker_pool n t0 pids (es @ [Exits (killed_exits s'), Tick now new]) = Live pl'
         \<and> length (p_procs pl') = n \<and> (\<forall>w \<in> set (p_procs pl'). w_exit w = None)
         \<and> (p \<notin> set new \<longrightarrow> p \<notin> w_pid ` set (p_procs pl')))"
proof -
  have k: "kills s' = kills (run_supervisor tmo (pre @ Msg tb p BUSY # mid)) @ [(p, t)]"
    unfolding s' by (rule stalled_worker_killed [OF assms(1-5)])
  then have "p \<in> fst ` set (killed_exits s')" by (simp add: killed_exits_def)
  with k exited_workers_replaced [OF assms(6-10), of "killed_exits s'"] show ?thesis by blast
qed

section \<open>Examples\<close>

text \<open>Two workers: 7 serves one request and stalls in the next, 8 is idle and reports.\<close>

definition demo_request :: "unit worker_input" where
  "demo_request = \<lparr>received = Request ''c'' ''1'' \<lparr>rq_query = [], rq_headers = [], rq_method = ''GET'', rq_data = None\<rparr>,
     handle = (\<lambda>rq h. (None, h)), socket_up = (\<lambda>_. True), busy_sent = True, done_sent = True,
     broadcast = None, report_data = ()\<rparr>"

definition demo_workers :: "int \<Rightarrow> unit worker_input list" where
  "demo_workers q = (if q = 7 then [demo_request, demo_request]
     else if q = 8 then [demo_request\<lparr>received := Again, broadcast := Some ''REPORT''\<rparr>] else [])"

definition demo_heard :: "unit sup_event list" where
  "demo_heard = [Msg 0 7 BUSY, Msg 1 7 DONE, Msg 2 7 BUSY, Msg 3 8 (Report ())]"

lemma demo_supervised: "supervised True True demo_workers demo_heard"
  by (auto simp: supervised_def notifications_def demo_workers_def demo_heard_def demo_request_def notices_sent_def
      sup_client_init_def worker_turn_def Let_def serve_request_def notify_busy_def notify_done_def sup_send_def
      send_report_def zhandler_init_def)

theorem killed_worker_is_stalled_witness:
  "(7, 22) \<in> set (kills (run_supervisor 20 (demo_heard @ [Fire 1 True 22])))
   \<and> (\<exists>pre i post t0 turns j rest k m rq. demo_heard @ [Fire 1 True 22] = pre @ Fire i True 22 # post
    \<and> busy_since pre 7 = Some t0 \<and> t0 + 20 \<le> 22
    \<and> demo_workers 7 = turns @ j # rest \<and> received j = Request k m rq \<and> msgs_of 7 pre = notifications True True 7 turns @ [BUSY])"
proof -
  have k: "(7, 22) \<in> set (kills (run_supervisor 20 (demo_heard @ [Fire 1 True 22])))" by code_simp
  have "supervised True True demo_workers (demo_heard @ [Fire 1 True 22])"
    using demo_supervised by (simp add: supervised_def)
  from k killed_worker_is_stalled [OF this k] show ?thesis by blast
qed

theorem stalled_worker_replaced_witness:
  "\<exists>pl'. run_worker_pool 2 0 [7, 8] [Exits [(7, - 9)], Tick 6000 [9, 10]] = Live pl' \<and> length (p_procs pl') = 2
     \<and> 7 \<notin> w_pid ` set (p_procs pl')"
proof -
  let ?s = "run_supervisor 20 ([Msg 0 7 BUSY, Msg 1 7 DONE] @ Msg 2 7 BUSY # [Msg 3 8 (Report ())] @ [Fire 1 True 22])"
  have pl: "run_worker_pool 2 0 [7, 8] [] = Live (pool_init 2 0 [7, 8])" by (simp add: run_worker_pool_def)
  have "killed_exits ?s = [(7, - 9)]" by code_simp
  moreover have "supervised True True demo_workers ([Msg 0 7 BUSY, Msg 1 7 DONE] @ Msg 2 7 BUSY # [Msg 3 8 (Report ())])"
    using demo_supervised by (simp add: demo_heard_def)
  ultimately show ?thesis
    using stalled_worker_replaced [of True True demo_workers "[Msg 0 7 BUSY, Msg 1 7 DONE]" 2 7 "[Msg 3 8 (Report ())]" 1 20 22 2
        "[7, 8]" "[]" "[9, 10]" 0 _ 6000 ?s, OF _ _ _ _ _ _ _ _ pl]
    by (auto simp: run_supervisor_def supervisor_init_def cancel_timer_def EARLY_FAILURE_DELAY_def)
qed

end
