(* ===== verification/DocTool.thy ===== *)
theory DocTool
  imports UrlLib ConfigParser
begin

text \<open>
  The script \<open>doc/jtpl.py\<close> that builds the documentation: it loads a configuration in one of several
  formats and applies it to templates. The template engine and the parsers of JSON, YAML and TOML are
  libraries, hence arguments of the model; paths, the table of formats and what \<open>configparser\<close> does with
  what it is given are modelled. Files are a map from paths to texts; a path without text cannot be opened.
\<close>

section \<open>Loaders\<close>

text \<open>What a loader returns: a value of one of the libraries, or the dictionary of the sections of an ini file.\<close>

datatype 'c loaded = Value 'c | Sections "(string \<times> options) list"

record 'c doc_world =
  has_module :: "string \<Rightarrow> bool"
  has_safe_parser :: bool
  json_loads :: "string \<Rightarrow> 'c result"
  yaml_load :: "string \<Rightarrow> 'c result"
  toml_loads :: "string \<Rightarrow> 'c result"
  tpl_render :: "string \<Rightarrow> 'c loaded \<Rightarrow> string result"
  may_write :: "ppath \<Rightarrow> bool"

type_synonym files = "ppath \<Rightarrow> string option"

type_synonym 'c loader = "'c doc_world \<Rightarrow> files \<Rightarrow> ppath \<Rightarrow> 'c loaded result"

definition system_exit :: exn where "system_exit = OtherError ''SystemExit''"
definition name_error :: exn where "name_error = OtherError ''NameError''"
definition no_section_header :: exn where "no_section_header = OtherError ''MissingSectionHeaderError''"

definition read_text :: "files \<Rightarrow> ppath \<Rightarrow> string result" where
  "read_text fs p = (case fs p of None \<Rightarrow> Inl FileNotFoundError | Some t \<Rightarrow> Inr t)"

definition load_json :: "'c loader" where
  "load_json w fs p = rbind (read_text fs p) (\<lambda>t. rbind (json_loads w t) (\<lambda>v. Inr (Value v)))"

text \<open>
  \<open>read_file\<close> of a string takes its characters for lines. A blank and a comment sign are skipped;
  no other character is a section header, and without a section a line is an error.
\<close>

fun read_characters :: "string \<Rightarrow> unit result" where
  "read_characters [] = Inr ()"
| "read_characters (c # cs) =
     (if py_strip [c] = [] \<or> c \<in> {CHR ''#'', CHR '';''} then read_characters cs else Inl no_section_header)"

definition load_ini :: "'c loader" where
  "load_ini w fs p = rbind (read_characters (path_str p)) (\<lambda>_. Inr (Sections [(''DEFAULT'', [])]))"

definition load_yaml :: "'c loader" where
  "load_yaml w fs p = (if \<not> has_module w ''yaml'' then Inl system_exit
     else rbind (read_text fs p) (\<lambda>t. rbind (yaml_load w t) (\<lambda>v. Inr (Value v))))"

text \<open>The import binds \<open>SafeConfigParser\<close> only; the name \<open>configparser\<close> of the next line is not bound.\<close>

definition load_properties :: "'c loader" where
  "load_properties w fs p = (if \<not> has_safe_parser w then Inl (OtherError ''ImportError'')
     else rbind (read_text fs p) (\<lambda>_. Inl name_error))"

definition load_toml :: "'c loader" where
  "load_toml w fs p = (if \<not> has_module w ''toml'' then Inl system_exit
     else rbind (read_text fs p) (\<lambda>t. rbind (toml_loads w t) (\<lambda>v. Inr (Value v))))"

definition FORMATS :: "(string, 'c loader) odict" where
  "FORMATS = [(''json'', load_json), (''ini'', load_ini), (''yaml'', load_yaml), (''yml'', load_yaml),
     (''toml'', load_toml), (''properties'', load_properties)]"

definition get_loader_for :: "ppath \<Rightarrow> 'c loader option" where
  "get_loader_for p = od_get FORMATS (lstrip_chars ''.'' (pp_suffix p))"

section \<open>Rendering\<close>

definition doc_render :: "'c doc_world \<Rightarrow> files \<Rightarrow> ppath \<Rightarrow> 'c loaded \<Rightarrow> string result" where
  "doc_render w fs templ conf = rbind (read_text fs templ) (\<lambda>t. tpl_render w t conf)"

definition get_output :: "ppath \<Rightarrow> ppath result" where
  "get_output p = (if pp_suffix p = ''.j2'' then with_suffix [] p else with_suffix (pp_suffix p @ ''.out'') p)"

text \<open>The output is opened, hence emptied, before the template is rendered.\<close>

fun render_inputs :: "'c doc_world \<Rightarrow> 'c loaded \<Rightarrow> files \<Rightarrow> string list \<Rightarrow> exn option \<times> files" where
  "render_inputs w conf fs [] = (None, fs)"
| "render_inputs w conf fs (inp # inps) =
     (case get_output (to_path inp) of
        Inl e \<Rightarrow> (Some e, fs)
      | Inr outp \<Rightarrow>
          if \<not> may_write w outp then (Some (OtherError ''OSError''), fs)
          else (let fs1 = fs(outp \<mapsto> [])
                in case doc_render w fs1 (to_path inp) conf of
                     Inl e \<Rightarrow> (Some e, fs1)
                   | Inr t \<Rightarrow> render_inputs w conf (fs1(outp \<mapsto> t)) inps))"

record doc_args =
  da_inputs :: "string list"
  da_config :: string
  da_format :: "string option"

definition doc_loader :: "doc_args \<Rightarrow> 'c loader option" where
  "doc_loader a = (case da_format a of Some f \<Rightarrow> od_get FORMATS f | None \<Rightarrow> get_loader_for (to_path (da_config a)))"

text \<open>An unknown format is reported with a name that does not exist.\<close>

definition doc_main :: "'c doc_world \<Rightarrow> files \<Rightarrow> doc_args \<Rightarrow> exn option \<times> files" where
  "doc_main w fs a =
     (if \<not> has_module w ''jinja2'' then (Some system_exit, fs)
      else case doc_loader a of
        None \<Rightarrow> (Some name_error, fs)
      | Some l \<Rightarrow> (case l w fs (to_path (da_config a)) of
          Inl e \<Rightarrow> (Some e, fs)
        | Inr conf \<Rightarrow> render_inputs w conf fs (da_inputs a)))"

section \<open>Outputs\<close>

text \<open>The output lies beside the template and is never the template.\<close>

lemma suffix_of_name: "name_suffix n = s \<Longrightarrow> s \<noteq> [] \<Longrightarrow> \<exists>stem. n = stem @ s"
proof -
  assume s: "name_suffix n = s" "s \<noteq> []"
  let ?tail = "before CHR ''.'' (rev n)"
  from s have dot: "CHR ''.'' \<in> set (rev n)" and e: "s = CHR ''.'' # rev ?tail"
    by (auto simp: name_suffix_def Let_def split: if_splits)
  from before_after [OF dot] have "n = rev (after CHR ''.'' (rev n)) @ CHR ''.'' # rev ?tail"
    by (metis append.assoc append_Cons append_Nil rev.simps(2) rev_append rev_rev_ident)
  with e show ?thesis by blast
qed

lemma without_suffix:
  assumes "name_suffix n = s"
  shows "take (length n - length s) n @ s = n"
proof (cases "s = []")
  case False
  from suffix_of_name [OF assms this] show ?thesis by auto
qed simp

lemma output_beside_template:
  assumes "get_output p = Inr q"
  shows "q \<noteq> p \<and> pp_root q = pp_root p \<and> butlast (pp_parts q) = butlast (pp_parts p)"
proof -
  let ?n = "pp_name p"
  obtain x where x: "x \<noteq> pp_suffix p" and q: "pp_name p \<noteq> []"
    "q = p\<lparr>pp_parts := butlast (pp_parts p) @ [take (length ?n - length (pp_suffix p)) ?n @ x]\<rparr>"
  proof (cases "pp_suffix p = ''.j2''")
    case True
    with assms show thesis by (intro that [of "[]"]) (auto simp: get_output_def with_suffix_def split: if_splits)
  next
    case False
    with assms show thesis
      by (intro that [of "pp_suffix p @ ''.out''"]) (auto simp: get_output_def with_suffix_def split: if_splits)
  qed
  from q(1) have parts: "pp_parts p = butlast (pp_parts p) @ [?n]" by (auto simp: pp_name_def split: if_splits)
  have "take (length ?n - length (pp_suffix p)) ?n @ pp_suffix p = ?n"
    by (rule without_suffix) (simp add: pp_suffix_def)
  with x have "take (length ?n - length (pp_suffix p)) ?n @ x \<noteq> ?n" by (metis same_append_eq)
  with q(2) parts have "pp_parts q \<noteq> pp_parts p"
    by (metis butlast_snoc last_snoc ppath.ext_inject ppath.surjective ppath.update_convs(2))
  then have "q \<noteq> p" by auto
  then show ?thesis by (simp add: q(2))
qed

text \<open>One template whose output can be written: the output is the rendering, nothing else changes.\<close>

lemma doc_main_output:
  assumes "has_module w ''jinja2''" "doc_loader a = Some l" "l w fs (to_path (da_config a)) = Inr conf"
    and "da_inputs a = [inp]" "get_output (to_path inp) = Inr outp" "may_write w outp"
    and "fs (to_path inp) = Some t" "tpl_render w t conf = Inr r"
  shows "doc_main w fs a = (None, fs(outp \<mapsto> r))"
proof -
  have "outp \<noteq> to_path inp" using output_beside_template [OF assms(5)] by blast
  then have "doc_render w (fs(outp \<mapsto> [])) (to_path inp) conf = Inr r"
    using assms(7,8) by (simp add: doc_render_def read_text_def not_sym)
  with assms(1-6) show ?thesis by (simp add: doc_main_def)
qed

section \<open>Formats that never load\<close>

lemma read_characters_iff:
  "read_characters s = Inr () \<longleftrightarrow> (\<forall>c \<in> set s. py_strip [c] = [] \<or> c \<in> {CHR ''#'', CHR '';''})"
  by (induction s) auto

lemma read_characters_fails: "c \<in> set s \<Longrightarrow> py_strip [c] \<noteq> [] \<Longrightarrow> c \<notin> {CHR ''#'', CHR '';''} \<Longrightarrow> read_characters s = Inl no_section_header"
  by (induction s) auto

lemma load_properties_fails: "\<exists>e \<in> {OtherError ''ImportError'', FileNotFoundError, name_error}. load_properties w fs p = Inl e"
  by (auto simp: load_properties_def read_text_def split: option.split)

lemma name_in_path: "set (pp_name p) \<subseteq> set (path_str p)"
proof (cases "pp_parts p = []")
  case False
  have "set w \<subseteq> set (join_with CHR ''/'' ws)" if "w \<in> set ws" for w ws
    using that
  proof (induction ws)
    case (Cons v ws)
    then show ?case by (cases "ws = []") (auto simp: join_with_Cons)
  qed simp
  from this [of "last (pp_parts p)" "pp_parts p"] False show ?thesis by (auto simp: path_str_def pp_name_def)
qed (simp add: pp_name_def)

lemma load_ini_fails: "pp_suffix p = ''.ini'' \<Longrightarrow> load_ini w fs p = Inl no_section_header"
proof -
  assume s: "pp_suffix p = ''.ini''"
  with suffix_of_name [of "pp_name p"] have "CHR ''i'' \<in> set (pp_name p)" by (auto simp: pp_suffix_def)
  with name_in_path have "CHR ''i'' \<in> set (path_str p)" by blast
  moreover have "py_strip ''i'' \<noteq> []" "CHR ''i'' \<notin> {CHR ''#'', CHR '';''}" by code_simp+
  ultimately have "read_characters (path_str p) = Inl no_section_header" by (rule read_characters_fails)
  then show ?thesis by (simp add: load_ini_def)
qed

lemma suffix_dotless:
  assumes "pp_suffix p \<noteq> []"
  shows "\<exists>t. pp_suffix p = CHR ''.'' # t \<and> CHR ''.'' \<notin> set t"
  using assms before_no_sep [of "CHR ''.''" "rev (pp_name p)"]
  by (auto simp: pp_suffix_def name_suffix_def Let_def split: if_splits)

text \<open>
  The documentation tool. When the format is guessed from the name of the configuration, only the
  names that end in json, yaml, yml and toml can work: for an ini file it reads the characters of the
  path instead of the file and fails for want of a section, a properties file ends in a missing import,
  a missing file or an unbound name, and so does the report of an unknown format. Nothing is written.
\<close>

theorem doc_formats_that_fail:
  fixes w :: "'c doc_world"
  assumes "has_module w ''jinja2''" and "da_format a = None"
    and "pp_suffix (to_path (da_config a)) \<notin> {''.json'', ''.yaml'', ''.yml'', ''.toml''}"
  shows "\<exists>e. doc_main w fs a = (Some e, fs)
    \<and> (if pp_suffix (to_path (da_config a)) = ''.ini'' then e = no_section_header
       else if pp_suffix (to_path (da_config a)) = ''.properties'' then e \<in> {OtherError ''ImportError'', FileNotFoundError, name_error}
       else e = name_error)"
proof -
  let ?p = "to_path (da_config a)"
  have loader: "(doc_loader a :: 'c loader option) = (if pp_suffix ?p = ''.ini'' then Some load_ini
      else if pp_suffix ?p = ''.properties'' then Some load_properties else None)"
  proof (cases "pp_suffix ?p = []")
    case True
    then show ?thesis by (simp add: doc_loader_def assms(2) get_loader_for_def lstrip_chars_def FORMATS_def)
  next
    case False
    with suffix_dotless [of ?p] obtain t where t: "pp_suffix ?p = CHR ''.'' # t" "CHR ''.'' \<notin> set t" by blast
    then have "lstrip_chars ''.'' (pp_suffix ?p) = t" by (cases t) (auto simp: lstrip_chars_def)
    with assms(2,3) t(1) show ?thesis by (simp add: doc_loader_def get_loader_for_def FORMATS_def)
  qed
  show ?thesis
  proof (cases "pp_suffix ?p = ''.properties''")
    case True
    with loader load_properties_fails [of w fs ?p] assms(1) show ?thesis by (auto simp: doc_main_def)
  qed (use loader load_ini_fails [of ?p w fs] assms(1) in \<open>auto simp: doc_main_def\<close>)
qed

theorem doc_formats_that_fail_witness:
  "\<exists>e. doc_main \<lparr>has_module = (\<lambda>_. True), has_safe_parser = True, json_loads = Inr, yaml_load = Inr, toml_loads = Inr,
       tpl_render = (\<lambda>t c. Inr t), may_write = (\<lambda>_. True)\<rparr> (\<lambda>_. Some ''[a]'')
     \<lparr>da_inputs = [''x.rst.j2''], da_config = ''server.ini'', da_format = None\<rparr> = (Some e, \<lambda>_. Some ''[a]'')
   \<and> e = no_section_header"
proof -
  have s: "pp_suffix (to_path ''server.ini'') = ''.ini''" by code_simp
  show ?thesis
    using doc_formats_that_fail [of "\<lparr>has_module = (\<lambda>_. True), has_safe_parser = True, json_loads = Inr, yaml_load = Inr,
        toml_loads = Inr, tpl_render = (\<lambda>t c. Inr t), may_write = (\<lambda>_. True)\<rparr>"
        "\<lparr>da_inputs = [''x.rst.j2''], da_config = ''server.ini'', da_format = None\<rparr>" "\<lambda>_. Some ''[a]''"]
    by (simp add: s)
qed

end
