(* ===== verification/Harness.thy ===== *)
theory Harness
  imports ComponentManager
begin

text \<open>
  The support for tests of plugins that the package ships, \<open>src/pyqgisserver/tests.py\<close>: the runtime
  and the HTTP client of a test case. The processes it starts are those of \<open>Runtime\<close>; here each is an
  action that succeeds or raises. The test case class itself is tornado's.
\<close>

section \<open>The runtime of a test\<close>

datatype harness_action = LoadConfiguration | IpcAddresses nat | CreateBroker | CreatePool nat
  | TerminatePool | TerminateBroker | JoinBroker

fun run_actions :: "(harness_action \<Rightarrow> unit result) \<Rightarrow> harness_action list \<Rightarrow> unit result \<times> harness_action list" where
  "run_actions ok [] = (Inr (), [])"
| "run_actions ok (a # as) = (case ok a of
      Inl e \<Rightarrow> (Inl e, [])
    | Inr _ \<Rightarrow> (let (r, done) = run_actions ok as in (r, a # done)))"

record test_runtime =
  started :: bool

definition test_runtime_init :: test_runtime where
  "test_runtime_init = \<lparr>started = False\<rparr>"

definition harness_start :: "(harness_action \<Rightarrow> unit result) \<Rightarrow> test_runtime \<Rightarrow> unit result \<times> test_runtime \<times> harness_action list" where
  "harness_start ok t =
     (if started t then (Inr (), t, [])
      else let (r, done) = run_actions ok [LoadConfiguration, IpcAddresses 1, CreateBroker, CreatePool 1]
           in (r, if is_ok r then t\<lparr>started := True\<rparr> else t, done))"

definition harness_stop :: "(harness_action \<Rightarrow> unit result) \<Rightarrow> test_runtime \<Rightarrow> unit result \<times> test_runtime \<times> harness_action list" where
  "harness_stop ok t =
     (if \<not> started t then (Inr (), t, [])
      else let (r, done) = run_actions ok [TerminatePool, TerminateBroker, JoinBroker] in (r, t, done))"

definition harness_instance :: "test_runtime option \<Rightarrow> test_runtime result \<times> test_runtime option" where
  "harness_instance inst = singleton_call (\<lambda>_. Inr test_runtime_init) () inst"

lemma run_actions_done: "run_actions ok as = (r, done) \<Longrightarrow> prefix done as \<and> (is_ok r \<longrightarrow> done = as)"
proof (induction as arbitrary: r "done")
  case (Cons a as)
  show ?case
  proof (cases "ok a")
    case (Inl e)
    with Cons.prems have "r = Inl e" "done = []" by simp_all
    then show ?thesis by simp
  next
    case (Inr u)
    obtain r1 d1 where "run_actions ok as = (r1, d1)" by fastforce
    with Inr Cons.prems Cons.IH [OF this] show ?thesis by auto
  qed
qed simp

text \<open>Whatever fails on the way, broker and pool are created at most once.\<close>

lemma started_at_most_once:
  assumes "harness_start ok t = (Inr (), t', done)"
  shows "harness_start ok' t' = (Inr (), t', [])"
  using assms by (auto simp: harness_start_def Let_def split: if_splits prod.splits)

text \<open>\<open>stop\<close> does not reset \<open>started\<close>: a runtime that was stopped cannot be started again.\<close>

lemma stopped_runtime_stays_down:
  assumes "harness_start ok test_runtime_init = (Inr (), t1, d1)" and "harness_stop ok t1 = (Inr (), t2, d2)"
  shows "d1 = [LoadConfiguration, IpcAddresses 1, CreateBroker, CreatePool 1] \<and> d2 = [TerminatePool, TerminateBroker, JoinBroker]
    \<and> harness_start ok t2 = (Inr (), t2, [])"
  using assms run_actions_done [of ok]
  by (auto simp: harness_start_def harness_stop_def test_runtime_init_def Let_def split: if_splits prod.splits)

section \<open>The HTTP client of a test\<close>

definition NAMESPACES :: "(string, string) odict" where
  "NAMESPACES = [(''xlink'', ''http://www.w3.org/1999/xlink''), (''wms'', ''http://www.opengis.net/wms''),
     (''wfs'', ''http://www.opengis.net/wfs''), (''wcs'', ''http://www.opengis.net/wcs''),
     (''wps'', ''http://www.opengis.net/wps/1.0.0''), (''ows'', ''http://www.opengis.net/ows/1.1''),
     (''gml'', ''http://www.opengis.net/gml''), (''xsi'', ''http://www.w3.org/2001/XMLSchema-instance'')]"

text \<open>A response; its body is parsed as XML when the content type starts so.\<close>

record 'x test_response =
  tr_status :: int
  tr_headers :: "(string, string) odict"
  tr_content :: string
  tr_xml :: "'x option"

definition test_response_of ::
  "(string \<Rightarrow> 'x result) \<Rightarrow> int \<Rightarrow> (string, string) odict \<Rightarrow> string \<Rightarrow> 'x test_response result" where
  "test_response_of parse st hdrs body =
     (if starts_with ''text/xml'' (case od_get hdrs ''Content-Type'' of None \<Rightarrow> [] | Some v \<Rightarrow> v)
      then rbind (parse body) (\<lambda>x. Inr \<lparr>tr_status = st, tr_headers = hdrs, tr_content = body, tr_xml = Some x\<rparr>)
      else Inr \<lparr>tr_status = st, tr_headers = hdrs, tr_content = body, tr_xml = None\<rparr>)"

record test_fetch =
  tf_path :: string
  tf_method :: string
  tf_body :: "string option"
  tf_headers :: "(string, string) odict option"

definition ows_path :: string where
  "ows_path = ''/ows/''"

definition client_post :: "string \<Rightarrow> (string, string) odict option \<Rightarrow> string \<Rightarrow> test_fetch" where
  "client_post data hdrs path = \<lparr>tf_path = path, tf_method = ''POST'', tf_body = Some data, tf_headers = hdrs\<rparr>"

definition client_get :: "string \<Rightarrow> (string, string) odict option \<Rightarrow> string \<Rightarrow> test_fetch" where
  "client_get query hdrs path = \<lparr>tf_path = path @ query, tf_method = ''GET'', tf_body = None, tf_headers = hdrs\<rparr>"

definition client_put :: "string \<Rightarrow> (string, string) odict option \<Rightarrow> string \<Rightarrow> test_fetch" where
  "client_put data hdrs path = \<lparr>tf_path = path, tf_method = ''PUT'', tf_body = Some data, tf_headers = hdrs\<rparr>"

definition client_post_xml :: "('x \<Rightarrow> string) \<Rightarrow> 'x \<Rightarrow> (string, string) odict option \<Rightarrow> string \<Rightarrow> test_fetch" where
  "client_post_xml tostring doc hdrs path = client_post (tostring doc) hdrs path"

definition client_options :: "(string, string) odict option \<Rightarrow> string \<Rightarrow> test_fetch" where
  "client_options hdrs path = \<lparr>tf_path = path, tf_method = ''OPTIONS'', tf_body = None, tf_headers = hdrs\<rparr>"

definition client_head :: "string \<Rightarrow> (string, string) odict option \<Rightarrow> string \<Rightarrow> test_fetch" where
  "client_head query hdrs path = \<lparr>tf_path = path @ query, tf_method = ''HEAD'', tf_body = None, tf_headers = hdrs\<rparr>"

end
