(* ===== verification/Spec2Isabelle.thy ===== *)
theory Spec2Isabelle
  imports Streaming CacheProps QgsWorker Observer Plugins Pool Watchfiles PoolServer Handlers
    Middleware Apis Pages Monitor Management Runtime QgisApp NetworkLive NetworkSpec Requests Launch
    Supervision DocTool Harness
begin

text \<open>
  A model of py-qgis-server (Python packages \<open>pyqgisserver\<close> and
  \<open>pyqgisservercontrib\<close> under \<open>src/src/\<close>), with the properties that make its parts correct.

  The program. A front process answers HTTP with tornado and hands requests over ZeroMQ to a
  broker process, which gives them to worker processes; each worker embeds QGIS server and keeps a
  cache of projects. A pool process starts and replaces the workers. The front process supervises
  them (kills those that stall, or that use too much memory), observes their caches, and may run a
  management server.

  Conventions. Python exceptions are the datatype \<open>exn\<close>, a fallible operation gives
  \<open>'a result\<close> (\<open>exn + 'a\<close>) and, where it changes state before it fails, the state
  too. Dictionaries with an order are association lists (\<open>odict\<close>) with the well-formedness
  \<open>od_wf\<close>; strings and bytes are \<open>string\<close>, a text being what its UTF-8 encoding is; Python's integers are \<open>int\<close>. Files,
  QGIS, databases, sockets, clocks and process tables are arguments. What comes from the standard
  library (\<open>urllib.parse\<close>, \<open>pathlib\<close>, \<open>configparser\<close>, \<open>str\<close>,
  \<open>int\<close>) is modelled as far as the program uses it, in Prelude, PyLib, UrlLib and
  ConfigParser. All operations are executable.

  Theories and the code they model:

  \<^item> Lru: \<open>utils/lru.py\<close>. Every operation; the abstract cache is a recency list.

  \<^item> Broker: \<open>zeromq/broker.py\<close>. One turn of \<open>run_broker\<close> is a function of what the
    sockets deliver; its queue is used through the locale of a queue with undo, interpreted on the
    deque. Supervisor: \<open>zeromq/supervisor.py\<close>, with the timers of the event loop as state.

  \<^item> Worker: \<open>zeromq/worker.py\<close>, \<open>messages.py\<close>. Response: class \<open>Response\<close> of
    \<open>qgsworker.py\<close>. Client: \<open>zeromq/client.py\<close>, with the response handlers in a store, since
    coroutines share them. Streaming composes the three.

  \<^item> Discipline: what a request handler may do to its side of the socket, as a locale, interpreted
    on the base class and on the QGIS handler.

  \<^item> Network, NetworkInv, NetworkReplies, NetworkProps, NetworkLive: any number of clients and
    workers around the broker. A state has all of their states and the frames under way on the four
    kinds of link; an event is one operation of one of them, or the loss of a frame. The parts are the
    models above, unchanged; the theories add the links and a record of what happened. NetworkSpec
    is the contract of the whole: an abstract machine in which a call is open, executed or declined,
    with the locale of a step system that refines a relation, interpreted on the network.

  \<^item> Supervision: the worker loop, the supervisor and the pool together. What a worker sends along its
    loop reaches the supervisor in order; whom the supervisor kills, the pool replaces.

  \<^item> Requests: one HTTP request from the front end (Handlers) to the worker (QgsWorker) and back.

  \<^item> QgisProject, FileHandler, PostgresHandler, Aliases, CacheManager, CacheProps:
    \<open>qgscache/cachemanager.py\<close> and its protocol handlers. A protocol handler is an
    interface (record \<open>phandler\<close>, with its laws as a locale).

  \<^item> QgsWorker: the rest of \<open>qgsworker.py\<close>, from the message to the response, with entity
    tags, refreshing, debug requests and reports.

  \<^item> Config: \<open>config.py\<close>, the configuration part of \<open>server.py\<close>. ComponentManager:
    \<open>core/componentmanager.py\<close>, \<open>utils/decorators.py\<close> (a locale of memory cells with
    three interpretations). Watchfiles: \<open>core/watchfiles.py\<close>.

  \<^item> Launch: the start of a worker (\<open>main\<close>, \<open>run\<close> and \<open>init_server\<close> of \<open>qgsworker.py\<close>,
    \<open>setup_log_handler\<close>), which takes the configuration to the cache manager and the worker.

  \<^item> Pool, PoolServer: \<open>zeromq/pool.py\<close>, \<open>qgspool.py\<close>. Observer:
    \<open>qgscache/observer.py\<close> and its observers, a step relation on socket events. Plugins:
    \<open>plugins.py\<close>.

  \<^item> Handlers, Pages, Middleware, Monitor: \<open>handlers/\<close>, \<open>stats.py\<close>,
    \<open>middleware.py\<close>, \<open>core/filters.py\<close>, the request logger, \<open>monitors/\<close>,
    \<open>logger.py\<close>. A handler is a function from the request to the tornado calls it makes.

  \<^item> Apis, Management: \<open>management/\<close>. QgisApp: \<open>utils/qgis.py\<close>.

  \<^item> Runtime: \<open>runtime.py\<close>, \<open>zeromq/utils.py\<close>, \<open>version.py\<close>. The start of the server is
    a list of stages, each with the part it starts and its failure, computed by the models above.

  \<^item> DocTool: \<open>doc/jtpl.py\<close>, the script that renders the documentation. Harness: \<open>tests.py\<close>, what
    the package offers for tests of plugins.

  What is shown. Of the network: a response belongs to its request, whatever is lost or comes in
  between; a refused request is never handled; an undisturbed one is answered with all that QGIS wrote;
  and every event is a step of the abstract machine, so that a call is settled once and for all.
  Of its parts: no request is lost or served twice and the queue is bounded (Broker), a worker is
  killed only in the middle of a request it announced longer ago than the timeout, and a stalled one
  is killed and replaced (Supervision; a lost notification breaks this, Supervisor), what QGIS writes is what the front end reads for status 200 (Streaming), and the cases where this is not
  so. Of the projects: what the caches hold, what a lookup returns, which paths and connections a
  key can reach, and how a refresh treats its keys. Of a worker: what it does for each kind of
  project error and for a project it can read; from end to end, what an HTTP client gets for a
  project that can be read, for each kind of project error and for a validator, and what a setting for strict checking does to the projects served. Of the server: the precedence of settings, the notifications of
  observers, the size of the pool, the choice of the workers killed for memory, the waiting for
  reports, the policies in force, the headers and parameters that reach a worker, the records that
  are published and what keeps them from it, and the teardown with what a failed start leaves running. This theory composes pool, health check and runtime.

  Bounds and fuel. Loops are structural recursions or carry a measure: the wait for reports ends
  after \<open>max_wait\<close> sleeps, expansion of configuration values after the depth limit that
  \<open>configparser\<close> has itself. Loops that run until they are told to stop (broker, worker,
  supervisor, pool, observer) are folds over the list of their events, so a property of all lists is
  one of all runs. No property is about what fuel leaves open.

  What is assumed of other code. ZMQ delivers the messages of one peer in order and at most once,
  may lose any of them, and makes up none (built into the links of Network). Pickled messages load
  back as they were dumped (\<open>pickle_ok\<close>). QGIS uses a response only through the methods of its
  class (\<open>qgis_polite\<close>). The socket of a worker drops none of its notifications (\<open>supervised\<close>, for the
  properties of Supervision only) and no two workers have the same pid at a time. Correlation ids are fresh, as \<open>uuid1\<close> promises.

  Not modelled. Set-up of sockets, signals, log handlers and processes; changing the user; argument
  parsing; the manual test programs at the end of \<open>zeromq/broker.py\<close>, \<open>zeromq/worker.py\<close> and
  \<open>zeromq/client.py\<close>; the test case class of \<open>tests.py\<close>, which only fits an application into
  tornado's; \<open>doc/conf.py\<close>, constants of the documentation generator. Of a worker report only the pid and the cache lines
  are kept. Time is an integer in a fixed unit, memory fractions are rationals.
\<close>

section \<open>From a failing worker to the exit of the server\<close>

text \<open>
  C18: When a worker fails within five seconds of the start, the pool process dies without
  terminating the other workers, the next health check of the front process exits, and the server
  ends with exit code 1, stopping every part it had started; the pool is sent no signal any more.
\<close>

theorem early_worker_failure_stops_server:
  assumes pool: "k \<le> length pids" "list_all (enough_pids k) es" "run_worker_pool k t0 pids es = Live p"
    and failure: "x \<in> set (p_procs p)" "failed x" "now - t0 < EARLY_FAILURE_DELAY"
    and exit: "run_worker_pool k t0 pids (es @ [Tick now new]) = Ended code killed" "ps_pool_exit ps = Some code"
    and wait: "sw_wait w = (case healthcheck procs ps of Inl c \<Rightarrow> SysExit (IntCode c) | Inr oom \<Rightarrow> later)"
    and start: "prepare_server env w user n c = Inr prep" "all_ok (start_stages env float w n prep)"
  shows "run_server env float w user n c = Inr (1, sorted_list_of_set (set (parts_of (start_stages env float w n prep))))
     \<and> killed = [] \<and> \<not> snd (ps_terminate ps)"
proof -
  have e: "code = - 6" "killed = []"
    using early_failure_aborts [OF pool failure(1,2), of now new] failure(3) exit(1) by auto
  then have "sw_wait w = SysExit (IntCode 1)" using wait exit(2) by (simp add: healthcheck_def)
  then show ?thesis
    using run_server_waited [OF start] e exit(2) by (simp add: teardown_list exit_code_def ps_terminate_def)
qed

text \<open>A pool server that finds its pool process aborted.\<close>

definition aborted_pool :: "worker_report pool_server" where
  "aborted_pool = (pool_server_init 20 1 1)\<lparr>ps_pool_exit := Some (- 6)\<rparr>"

theorem early_worker_failure_stops_server_witness:
  "run_worker_pool 1 0 [11] ([Exits [(11, 1)]] @ [Tick 4999 [12]]) = Ended (- 6) []
     \<and> run_server (\<lambda>n. None) (\<lambda>x. Inr 1) (one_worker_world (SysExit (IntCode 1))) [] 1 small_config =
         Inr (1, [HttpServer, App, CacheObserver, WorkerPool, Broker])"
proof -
  obtain prep where prep: "prepare_server (\<lambda>n. None) (one_worker_world (SysExit (IntCode 1))) [] 1 small_config = Inr prep"
    "all_ok (start_stages (\<lambda>n. None) (\<lambda>x. Inr 1) (one_worker_world (SysExit (IntCode 1))) 1 prep)"
    "parts_of (start_stages (\<lambda>n. None) (\<lambda>x. Inr 1) (one_worker_world (SysExit (IntCode 1))) 1 prep) = [Broker, WorkerPool, App, HttpServer, CacheObserver]"
    by (rule one_worker_start)
  define p where "p = \<lparr>p_num = 1, p_procs = [\<lparr>w_pid = 11, w_exit = Some 1\<rparr>], p_start = 0, p_critical = False\<rparr>"
  have live: "run_worker_pool 1 0 [11] [Exits [(11, 1)]] = Live p" unfolding p_def by code_simp
  have ended: "run_worker_pool 1 0 [11] ([Exits [(11, 1)]] @ [Tick 4999 [12]]) = Ended (- 6) []" by code_simp
  have wait: "sw_wait (one_worker_world (SysExit (IntCode 1))) =
      (case healthcheck three_table aborted_pool of Inl c \<Rightarrow> SysExit (IntCode c) | Inr oom \<Rightarrow> Finished)"
    by (simp add: one_worker_wait healthcheck_def aborted_pool_def)
  have "run_server (\<lambda>n. None) (\<lambda>x. Inr 1) (one_worker_world (SysExit (IntCode 1))) [] 1 small_config =
      Inr (1, teardown [Broker, WorkerPool, App, HttpServer, CacheObserver])"
    using early_worker_failure_stops_server [OF _ _ live _ _ _ ended _ wait prep(1,2), of "\<lparr>w_pid = 11, w_exit = Some 1\<rparr>"]
    unfolding prep(3) teardown_list
    by (simp add: p_def failed_def EARLY_FAILURE_DELAY_def enough_pids_def aborted_pool_def)
  with ended show ?thesis by (simp add: teardown_def teardown_order_def)
qed

end
